(* ===== verification/Prelude.thy ===== *)
theory Prelude
  imports Main "HOL-Library.Multiset"
begin

text \<open>
  Shared vocabulary of the development: bytes and byte strings, the error-or-value result type
  with its sequencing operator, the 64-bit signed arithmetic of Go's \<open>int\<close> and
  \<open>time.Duration\<close>, checked slicing, generic list lemmas, and two interfaces that several
  components share: a transition system with an inductive invariant, and a validating
  normaliser (a check that fills in defaults and accepts its own output).
\<close>

section \<open>Names used throughout\<close>

type_synonym bytes = "char list"

text \<open>A Go byte slice where \<open>nil\<close> and the empty slice are told apart: \<open>None\<close> is \<open>nil\<close>.\<close>

type_synonym slice = "bytes option"

named_theorems bounds_simps \<open>ranges of machine integers and slices\<close>
named_theorems wf_intros \<open>well-formedness of values built by the operations\<close>

section \<open>Errors as values\<close>

text \<open>
  A run-time panic of the Go code: reading through a nil pointer, slicing out of range, or a nonce
  of the wrong length given to the cipher.
  An operation that can panic returns a value of \<open>panic + 'a\<close>.
\<close>

datatype panic = NilDereference | SliceOutOfRange | NonceLength

text \<open>Reading through a pointer, and the bytes of a slice.\<close>

definition deref :: "'a option \<Rightarrow> panic + 'a" where
  "deref x = (case x of None \<Rightarrow> Inl NilDereference | Some v \<Rightarrow> Inr v)"

definition bytes_of :: "slice \<Rightarrow> bytes" where
  "bytes_of b = (case b of None \<Rightarrow> [] | Some bs \<Rightarrow> bs)"

fun rbind :: "'e + 'a \<Rightarrow> ('a \<Rightarrow> 'e + 'b) \<Rightarrow> 'e + 'b" where
  "rbind (Inl e) f = Inl e"
| "rbind (Inr x) f = f x"

lemma rbind_Inr_iff: "rbind m f = Inr y \<longleftrightarrow> (\<exists>x. m = Inr x \<and> f x = Inr y)"
  by (cases m) auto

lemma rbind_Inl_iff: "rbind m f = Inl e \<longleftrightarrow> m = Inl e \<or> (\<exists>x. m = Inr x \<and> f x = Inl e)"
  by (cases m) auto

lemma rbind_cong [fundef_cong]:
  "m = m' \<Longrightarrow> (\<And>x. m' = Inr x \<Longrightarrow> f x = f' x) \<Longrightarrow> rbind m f = rbind m' f'"
  by (cases m') auto

text \<open>
  Where a function of the source returns an error or panics, its result is of type
  \<open>'e fault + 'a\<close>. \<open>wrap_err\<close> is the wrapping of an inner error by its caller; a panic
  passes through.
\<close>

datatype 'e fault = Panics panic | Fails 'e

fun wrap_err :: "('e \<Rightarrow> 'f) \<Rightarrow> 'e fault + 'a \<Rightarrow> 'f fault + 'a" where
  "wrap_err f (Inl (Panics p)) = Inl (Panics p)"
| "wrap_err f (Inl (Fails e)) = Inl (Fails (f e))"
| "wrap_err f (Inr x) = Inr x"

lemma wrap_err_Inr_iff [simp]: "wrap_err f m = Inr x \<longleftrightarrow> m = Inr x"
  by (cases "(f, m)" rule: wrap_err.cases) auto

text \<open>Run a check on every element in order and stop at the first error.\<close>

fun for_each :: "('a \<Rightarrow> 'e + 'b) \<Rightarrow> 'a list \<Rightarrow> 'e + 'b list" where
  "for_each f [] = Inr []"
| "for_each f (x # xs) = rbind (f x) (\<lambda>y. rbind (for_each f xs) (\<lambda>ys. Inr (y # ys)))"

lemma for_each_Inr_iff: "for_each f xs = Inr ys \<longleftrightarrow> list_all2 (\<lambda>x y. f x = Inr y) xs ys"
  by (induction xs arbitrary: ys) (auto simp: rbind_Inr_iff list_all2_Cons1)

lemma for_each_length: "for_each f xs = Inr ys \<Longrightarrow> length ys = length xs"
  by (auto simp: for_each_Inr_iff dest: list_all2_lengthD)

lemma for_each_fixpoint: "(\<And>y. y \<in> set ys \<Longrightarrow> f y = Inr y) \<Longrightarrow> for_each f ys = Inr ys"
  by (simp add: for_each_Inr_iff list_all2_same)

lemma for_each_pure_check: "(\<And>x y. f x = Inr y \<Longrightarrow> y = x) \<Longrightarrow> for_each f xs = Inr ys \<Longrightarrow> ys = xs"
  by (induction xs arbitrary: ys) (auto simp: rbind_Inr_iff)

lemma for_each_ball:
  assumes "for_each f xs = Inr ys" and "\<And>x y. x \<in> set xs \<Longrightarrow> f x = Inr y \<Longrightarrow> P y"
  shows "\<forall>y\<in>set ys. P y"
proof
  fix y assume "y \<in> set ys"
  then obtain i where i: "i < length ys" and y: "y = ys ! i" by (auto simp: in_set_conv_nth)
  with assms(1) have "i < length xs" and "f (xs ! i) = Inr y"
    by (auto simp: for_each_Inr_iff list_all2_conv_all_nth)
  then show "P y" using assms(2) [of "xs ! i" y] by simp
qed

text \<open>The same with the index of the element, counted from \<open>i\<close>.\<close>

fun ifor_each :: "(nat \<Rightarrow> 'a \<Rightarrow> 'e + 'b) \<Rightarrow> nat \<Rightarrow> 'a list \<Rightarrow> 'e + 'b list" where
  "ifor_each f i [] = Inr []"
| "ifor_each f i (x # xs) = rbind (f i x) (\<lambda>y. rbind (ifor_each f (Suc i) xs) (\<lambda>ys. Inr (y # ys)))"

lemma ifor_each_wrap_Inr_iff:
  "ifor_each (\<lambda>i x. wrap_err (w i) (f x)) i xs = Inr ys \<longleftrightarrow> for_each f xs = Inr ys"
  by (induction xs arbitrary: i ys) (auto simp: rbind_Inr_iff)

section \<open>64-bit signed integers\<close>

text \<open>
  Go's \<open>int\<close> and \<open>time.Duration\<close> are 64-bit two's complement numbers on the platforms the
  program is built for. A value is an \<open>int\<close>; \<open>wrap64\<close> is applied where an operation can
  leave the range.
\<close>

definition wrap64 :: "int \<Rightarrow> int" where
  "wrap64 x = signed_take_bit 63 x"

definition int64 :: "int \<Rightarrow> bool" where
  "int64 x \<longleftrightarrow> - (2 ^ 63) \<le> x \<and> x < 2 ^ 63"

lemma wrap64_id: "int64 x \<Longrightarrow> wrap64 x = x"
  by (simp add: wrap64_def int64_def signed_take_bit_int_eq_self)

lemma wrap64_range [bounds_simps]: "int64 (wrap64 x)"
  unfolding wrap64_def int64_def
  by (meson signed_take_bit_int_greater_eq_minus_exp signed_take_bit_int_less_exp)

text \<open>
  \<open>t.Sub(u)\<close> of Go's package time: the difference of two instants, saturated at the
  smallest and the largest duration.
\<close>

definition time_Sub :: "int \<Rightarrow> int \<Rightarrow> int" where
  "time_Sub t u = max (- (2 ^ 63)) (min (2 ^ 63 - 1) (t - u))"

lemma time_Sub_range [bounds_simps]: "int64 (time_Sub t u)"
  by (simp add: time_Sub_def int64_def)

lemma time_Sub_exact: "int64 (t - u) \<Longrightarrow> time_Sub t u = t - u"
  by (simp add: time_Sub_def int64_def)

lemma time_Sub_mono: "t \<le> t' \<Longrightarrow> time_Sub t u \<le> time_Sub t' u"
  by (simp add: time_Sub_def)

section \<open>Checked slicing\<close>

text \<open>\<open>b[i:j]\<close>: it panics unless \<open>0 \<le> i \<le> j \<le> len(b)\<close>.\<close>

definition slice :: "'a list \<Rightarrow> int \<Rightarrow> int \<Rightarrow> panic + 'a list" where
  "slice b i j =
     (if 0 \<le> i \<and> i \<le> j \<and> j \<le> int (length b)
      then Inr (take (nat j - nat i) (drop (nat i) b)) else Inl SliceOutOfRange)"

lemma slice_Inr: "0 \<le> i \<Longrightarrow> i \<le> j \<Longrightarrow> j \<le> int (length b) \<Longrightarrow>
    slice b i j = Inr (take (nat j - nat i) (drop (nat i) b))"
  by (simp add: slice_def)

lemma slice_nat: "i \<le> j \<Longrightarrow> j \<le> length b \<Longrightarrow> slice b (int i) (int j) = Inr (take (j - i) (drop i b))"
  by (simp add: slice_def)

section \<open>Lists\<close>

text \<open>A sum over a list splits into the part at one index and the rest.\<close>

lemma sum_list_update_split:
  fixes f :: "'a \<Rightarrow> 'b :: comm_monoid_add"
  assumes "i < length xs"
  obtains rest where "sum_list (map f xs) = rest + f (xs ! i)"
    and "\<And>y. sum_list (map f (xs[i := y])) = rest + f y"
proof -
  let ?rest = "sum_list (map f (take i xs)) + sum_list (map f (drop (Suc i) xs))"
  have upd: "sum_list (map f (xs[i := y])) = ?rest + f y" for y
  proof -
    have "xs[i := y] = take i xs @ y # drop (Suc i) xs"
      using assms by (simp add: upd_conv_take_nth_drop)
    then show ?thesis by (simp add: ac_simps)
  qed
  moreover have "sum_list (map f xs) = ?rest + f (xs ! i)" using upd [of "xs ! i"] by simp
  ultimately show ?thesis using that by blast
qed

lemma filter_mset_partition: "mset (filter P xs) + mset (filter (\<lambda>x. \<not> P x) xs) = mset xs"
  by (induction xs) auto

lemma take_drop_split:
  "i \<le> j \<Longrightarrow> j \<le> length b \<Longrightarrow> take (j - i) (drop i b) @ drop j b = drop i b"
  by (metis append_take_drop_id drop_drop le_add_diff_inverse2)

section \<open>Ranging over maps\<close>

text \<open>A map is ranged over completely, in some order.\<close>

definition range_order :: "('a list \<Rightarrow> 'a list) \<Rightarrow> bool" where
  "range_order ord \<longleftrightarrow> (\<forall>xs. mset (ord xs) = mset xs)"

lemma range_order_set: "range_order ord \<Longrightarrow> set (ord xs) = set xs"
  by (metis range_order_def set_mset_mset)

section \<open>Transition systems with an invariant\<close>

text \<open>
  The common shape of the concurrent components: a start predicate, a step relation and an
  invariant that the start establishes and every step keeps.
\<close>

locale transition_system =
  fixes init :: "'s \<Rightarrow> bool"
    and step :: "'s \<Rightarrow> 's \<Rightarrow> bool"
    and inv :: "'s \<Rightarrow> bool"
  assumes inv_init: "init s \<Longrightarrow> inv s"
    and inv_step: "inv s \<Longrightarrow> step s t \<Longrightarrow> inv t"
begin

lemma inv_steps: "step\<^sup>*\<^sup>* s t \<Longrightarrow> inv s \<Longrightarrow> inv t"
  by (induction rule: rtranclp_induct) (auto intro: inv_step)

lemma inv_reachable: "init s \<Longrightarrow> step\<^sup>*\<^sup>* s t \<Longrightarrow> inv t"
  by (blast intro: inv_steps inv_init)

end

text \<open>
  A transition system that implements a specification: a function takes its states to those of the specification,
  and every step is a step of the specification or invisible there. Invariants of the specification carry over.
\<close>

locale refinement = transition_system init step inv
  for init :: "'s \<Rightarrow> bool" and step :: "'s \<Rightarrow> 's \<Rightarrow> bool" and inv :: "'s \<Rightarrow> bool" +
  fixes abs :: "'s \<Rightarrow> 'a" and spec_init :: "'a \<Rightarrow> bool" and spec_step :: "'a \<Rightarrow> 'a \<Rightarrow> bool"
  assumes abs_init: "init s \<Longrightarrow> spec_init (abs s)"
    and abs_step: "inv s \<Longrightarrow> step s t \<Longrightarrow> spec_step\<^sup>=\<^sup>= (abs s) (abs t)"
begin

lemma simulation: "step\<^sup>*\<^sup>* s t \<Longrightarrow> inv s \<Longrightarrow> spec_step\<^sup>*\<^sup>* (abs s) (abs t)"
proof (induction rule: rtranclp_induct)
  case (step t u)
  then have "inv t" by (blast intro: inv_steps)
  from abs_step [OF this step(2)] step(3,4) show ?case by (auto intro: rtranclp.rtrancl_into_rtrancl)
qed simp

lemma refines: "init s \<Longrightarrow> step\<^sup>*\<^sup>* s t \<Longrightarrow> spec_init (abs s) \<and> spec_step\<^sup>*\<^sup>* (abs s) (abs t)"
  by (blast intro: abs_init simulation inv_init)

end

section \<open>Validating normalisers\<close>

text \<open>
  A check of the configuration code fills in defaults while it validates. What its callers
  rely on: an accepted value is well formed, and a well-formed value is accepted unchanged.
\<close>

locale normaliser =
  fixes check :: "'a \<Rightarrow> 'e + 'a"
    and ok :: "'a \<Rightarrow> bool"
  assumes check_ok: "check x = Inr y \<Longrightarrow> ok y"
    and ok_check: "ok y \<Longrightarrow> check y = Inr y"
begin

lemma idempotent: "check x = Inr y \<Longrightarrow> check y = Inr y"
  by (rule ok_check) (rule check_ok)

lemma ok_iff_fixpoint: "ok y \<longleftrightarrow> check y = Inr y"
  by (blast intro: ok_check check_ok)

lemma for_each_all_ok: "for_each check xs = Inr ys \<Longrightarrow> \<forall>y\<in>set ys. ok y"
  by (rule for_each_ball) (auto intro: check_ok)

lemma for_each_accepts: "\<forall>y\<in>set ys. ok y \<Longrightarrow> for_each check ys = Inr ys"
  by (rule for_each_fixpoint) (simp add: ok_check)

end

end
