(* ===== verification/GoStrings.thy ===== *)
theory GoStrings
  imports Prelude "HOL-Library.Sublist" "HOL-Library.Char_ord" "HOL-Library.List_Lexorder"
begin

text \<open>
  The parts of Go's standard library on strings that the program uses (packages strings,
  strconv and unicode/utf8). A Go string is a sequence of bytes, here a list of \<open>char\<close>.
  The functions are exact on every byte string, with one parameter: the tables of package
  unicode beyond ASCII (lower case, case folding, the letter and digit classes) are the record
  \<open>unicode\<close>, consulted only where a string or a code point is not ASCII.
\<close>

section \<open>Bytes and ASCII\<close>

abbreviation byte_val :: "char \<Rightarrow> nat" where
  "byte_val c \<equiv> of_char c"

definition is_ascii :: "string \<Rightarrow> bool" where
  "is_ascii s = list_all (\<lambda>c. byte_val c < 128) s"

record unicode =
  uc_lower :: "string \<Rightarrow> string"
  uc_fold :: "string \<Rightarrow> string \<Rightarrow> bool"
  uc_letter :: "nat \<Rightarrow> bool"
  uc_digit :: "nat \<Rightarrow> bool"

definition lower_char :: "char \<Rightarrow> char" where
  "lower_char c = (if 65 \<le> byte_val c \<and> byte_val c \<le> 90 then char_of (byte_val c + 32) else c)"

definition ToLower :: "unicode \<Rightarrow> string \<Rightarrow> string" where
  "ToLower U s = (if is_ascii s then map lower_char s else uc_lower U s)"

definition EqualFold :: "unicode \<Rightarrow> string \<Rightarrow> string \<Rightarrow> bool" where
  "EqualFold U s t =
     (if is_ascii s \<and> is_ascii t then map lower_char s = map lower_char t else uc_fold U s t)"

lemma lower_char_idem [simp]: "lower_char (lower_char c) = lower_char c"
  by (auto simp: lower_char_def)

lemma lower_char_val: "byte_val (lower_char c) =
    (if 65 \<le> byte_val c \<and> byte_val c \<le> 90 then byte_val c + 32 else byte_val c)"
  by (auto simp: lower_char_def)

lemma is_ascii_lower: "is_ascii s \<Longrightarrow> is_ascii (map lower_char s)"
  by (auto simp: is_ascii_def list_all_iff lower_char_val)

lemma ToLower_ascii: "is_ascii s \<Longrightarrow> ToLower U s = map lower_char s"
  by (simp add: ToLower_def)

lemma ToLower_idem: "is_ascii s \<Longrightarrow> ToLower U (ToLower U s) = ToLower U s"
  by (simp add: ToLower_ascii is_ascii_lower comp_def)

lemma EqualFold_refl: "is_ascii s \<Longrightarrow> EqualFold U s s"
  by (simp add: EqualFold_def)

section \<open>Trimming\<close>

text \<open>
  \<open>TrimSpace\<close> removes the code points with the Unicode White_Space property from both ends.
  The list holds their UTF-8 encodings: the six ASCII ones, U+0085, U+00A0, U+1680,
  U+2000 to U+200A, U+2028, U+2029, U+202F, U+205F and U+3000.
\<close>

definition space_encodings :: "string list" where
  "space_encodings =
     [[CHR 0x09], [CHR 0x0A], [CHR 0x0B], [CHR 0x0C], [CHR 0x0D], [CHR 0x20], [CHR 0xC2, CHR 0x85],
      [CHR 0xC2, CHR 0xA0], [CHR 0xE1, CHR 0x9A, CHR 0x80], [CHR 0xE2, CHR 0x80, CHR 0x80],
      [CHR 0xE2, CHR 0x80, CHR 0x81], [CHR 0xE2, CHR 0x80, CHR 0x82],
      [CHR 0xE2, CHR 0x80, CHR 0x83], [CHR 0xE2, CHR 0x80, CHR 0x84],
      [CHR 0xE2, CHR 0x80, CHR 0x85], [CHR 0xE2, CHR 0x80, CHR 0x86],
      [CHR 0xE2, CHR 0x80, CHR 0x87], [CHR 0xE2, CHR 0x80, CHR 0x88],
      [CHR 0xE2, CHR 0x80, CHR 0x89], [CHR 0xE2, CHR 0x80, CHR 0x8A],
      [CHR 0xE2, CHR 0x80, CHR 0xA8], [CHR 0xE2, CHR 0x80, CHR 0xA9],
      [CHR 0xE2, CHR 0x80, CHR 0xAF], [CHR 0xE2, CHR 0x81, CHR 0x9F],
      [CHR 0xE3, CHR 0x80, CHR 0x80]]"

text \<open>Drop leading members of \<open>es\<close> for as long as there is one.\<close>

function strip_front :: "string list \<Rightarrow> string \<Rightarrow> string" where
  "strip_front es s =
     (case find (\<lambda>e. e \<noteq> [] \<and> prefix e s) es of
        None \<Rightarrow> s
      | Some e \<Rightarrow> strip_front es (drop (length e) s))"
  by pat_completeness auto
termination
  by (relation "measure (\<lambda>(es, s). length s)") (auto simp: find_Some_iff prefix_def)

declare strip_front.simps [simp del]

definition TrimSpace :: "string \<Rightarrow> string" where
  "TrimSpace s = rev (strip_front (map rev space_encodings) (rev (strip_front space_encodings s)))"

lemma strip_front_suffix: "suffix (strip_front es s) s"
proof (induction es s rule: strip_front.induct)
  case (1 es s)
  show ?case
  proof (cases "find (\<lambda>e. e \<noteq> [] \<and> prefix e s) es")
    case None
    then show ?thesis by (simp add: strip_front.simps)
  next
    case (Some e)
    with 1 have "suffix (strip_front es (drop (length e) s)) (drop (length e) s)" by simp
    then have "suffix (strip_front es (drop (length e) s)) s"
      by (meson suffix_drop suffix_order.trans)
    with Some show ?thesis by (simp add: strip_front.simps [of es s])
  qed
qed

lemma strip_front_done: "find (\<lambda>e. e \<noteq> [] \<and> prefix e (strip_front es s)) es = None"
proof (induction es s rule: strip_front.induct)
  case (1 es s)
  then show ?case
    by (cases "find (\<lambda>e. e \<noteq> [] \<and> prefix e s) es") (simp_all add: strip_front.simps [of es s])
qed

lemma strip_front_fixed: "find (\<lambda>e. e \<noteq> [] \<and> prefix e s) es = None \<Longrightarrow> strip_front es s = s"
  by (simp add: strip_front.simps)

lemma strip_front_idem: "strip_front es (strip_front es s) = strip_front es s"
  by (rule strip_front_fixed) (rule strip_front_done)

lemma TrimSpace_infix: "\<exists>p q. s = p @ TrimSpace s @ q"
proof -
  obtain p where p: "s = p @ strip_front space_encodings s"
    using strip_front_suffix by (auto simp: suffix_def)
  obtain q where "rev (strip_front space_encodings s) = q @
      strip_front (map rev space_encodings) (rev (strip_front space_encodings s))"
    using strip_front_suffix by (auto simp: suffix_def)
  then have "strip_front space_encodings s = TrimSpace s @ rev q"
    unfolding TrimSpace_def by (metis rev_append rev_rev_ident)
  with p show ?thesis by metis
qed

lemma set_TrimSpace: "set (TrimSpace s) \<subseteq> set s"
  using TrimSpace_infix [of s] by (metis Un_iff set_append subsetI)

lemma TrimSpace_length: "length (TrimSpace s) \<le> length s"
proof -
  obtain p q where "s = p @ TrimSpace s @ q" using TrimSpace_infix by blast
  then have "length s = length p + length (TrimSpace s) + length q"
    by (metis add.assoc length_append)
  then show ?thesis by simp
qed

section \<open>Searching and splitting\<close>

text \<open>
  \<open>strings.Cut\<close> at a one-byte separator: the text before it, the text after it, and whether it
  occurs. The sources only cut, split and search at single bytes.
\<close>

fun Cut :: "string \<Rightarrow> char \<Rightarrow> string \<times> string \<times> bool" where
  "Cut [] c = ([], [], False)"
| "Cut (x # xs) c =
     (if x = c then ([], xs, True)
      else (case Cut xs c of (a, b, ok) \<Rightarrow> (x # a, b, ok)))"

lemma Cut_found: "Cut s c = (a, b, True) \<Longrightarrow> s = a @ c # b \<and> c \<notin> set a"
  by (induction s arbitrary: a b) (auto split: if_splits prod.splits)

lemma Cut_missing: "Cut s c = (a, b, False) \<Longrightarrow> a = s \<and> b = [] \<and> c \<notin> set s"
  by (induction s arbitrary: a b) (auto split: if_splits prod.splits)

lemma Cut_eq: "c \<notin> set a \<Longrightarrow> Cut (a @ c # b) c = (a, b, True)"
  by (induction a) auto

lemma Cut_notin: "c \<notin> set s \<Longrightarrow> Cut s c = (s, [], False)"
  by (induction s) auto

text \<open>\<open>strings.Split\<close> at a one-byte separator: never empty.\<close>

fun Split :: "string \<Rightarrow> char \<Rightarrow> string list" where
  "Split [] c = [[]]"
| "Split (x # xs) c =
     (if x = c then [] # Split xs c
      else (case Split xs c of [] \<Rightarrow> [[x]] | y # ys \<Rightarrow> (x # y) # ys))"

fun join :: "char \<Rightarrow> string list \<Rightarrow> string" where
  "join c [] = []"
| "join c [x] = x"
| "join c (x # y # ys) = x @ c # join c (y # ys)"

lemma Split_nonempty [simp]: "Split s c \<noteq> []"
  by (cases s) (auto split: list.splits)

lemma join_Split: "join c (Split s c) = s"
proof (induction s)
  case (Cons x xs)
  obtain y ys where "Split xs c = y # ys"
    by (metis Split_nonempty list.exhaust)
  with Cons show ?case by (cases ys) auto
qed simp

lemma Split_parts: "\<forall>p\<in>set (Split s c). c \<notin> set p"
  by (induction s) (auto split: list.splits)

text \<open>\<open>strings.ContainsAny(s, chars)\<close> for ASCII \<open>chars\<close>.\<close>

definition ContainsAny :: "string \<Rightarrow> string \<Rightarrow> bool" where
  "ContainsAny s chars = list_ex (\<lambda>c. c \<in> set chars) s"

section \<open>Numbers\<close>

text \<open>\<open>strconv.Atoi\<close>: an optional sign, at least one decimal digit, and the range of a 64-bit int.\<close>

definition digit_val :: "char \<Rightarrow> int option" where
  "digit_val c = (if 48 \<le> byte_val c \<and> byte_val c \<le> 57 then Some (int (byte_val c) - 48) else None)"

fun digits_val :: "int \<Rightarrow> string \<Rightarrow> int option" where
  "digits_val acc [] = Some acc"
| "digits_val acc (c # cs) =
     (case digit_val c of None \<Rightarrow> None | Some d \<Rightarrow> digits_val (acc * 10 + d) cs)"

definition Atoi :: "string \<Rightarrow> int option" where
  "Atoi s =
     (let (neg, body) = (case s of [] \<Rightarrow> (False, [])
          | c # cs \<Rightarrow> if c = CHR ''-'' then (True, cs) else if c = CHR ''+'' then (False, cs) else (False, s))
      in if body = [] then None
         else (case digits_val 0 body of None \<Rightarrow> None
           | Some v \<Rightarrow> let r = (if neg then - v else v)
               in if - (2 ^ 63) \<le> r \<and> r < 2 ^ 63 then Some r else None))"

lemma Atoi_range: "Atoi s = Some v \<Longrightarrow> int64 v"
  by (auto simp: Atoi_def int64_def Let_def split: prod.splits option.splits if_splits list.splits)

text \<open>\<open>strconv.FormatInt\<close> in base ten.\<close>

fun nat_digits :: "nat \<Rightarrow> string" where
  "nat_digits n = (if n < 10 then [char_of (48 + n)] else nat_digits (n div 10) @ [char_of (48 + n mod 10)])"

declare nat_digits.simps [simp del]

definition FormatInt :: "int \<Rightarrow> string" where
  "FormatInt i = (if i < 0 then CHR ''-'' # nat_digits (nat (- i)) else nat_digits (nat i))"

lemma nat_digits_nonempty [simp]: "nat_digits n \<noteq> []"
  by (subst nat_digits.simps) simp

lemma digit_val_char: "d < 10 \<Longrightarrow> digit_val (char_of (48 + d)) = Some (int d)"
  by (simp add: digit_val_def of_char_of)

lemma digits_val_append: "digits_val acc (xs @ ys) = (case digits_val acc xs of None \<Rightarrow> None | Some v \<Rightarrow> digits_val v ys)"
  by (induction acc xs rule: digits_val.induct) (auto split: option.split)

lemma digits_val_nat_digits: "digits_val 0 (nat_digits n) = Some (int n)"
proof (induction n rule: nat_digits.induct)
  case (1 n)
  show ?case
  proof (cases "n < 10")
    case True
    then show ?thesis by (subst nat_digits.simps) (simp add: digit_val_char)
  next
    case False
    have "int (n div 10) * 10 + int (n mod 10) = int n" by presburger
    with 1 False show ?thesis by (subst nat_digits.simps) (simp add: digits_val_append digit_val_char)
  qed
qed

lemma nat_digits_hd: "hd (nat_digits n) \<noteq> CHR ''-'' \<and> hd (nat_digits n) \<noteq> CHR ''+''"
proof -
  obtain c cs where n: "nat_digits n = c # cs" by (cases "nat_digits n") simp_all
  with digits_val_nat_digits [of n] have "digit_val c \<noteq> None" by (auto split: option.splits)
  then show ?thesis using n by (auto simp: digit_val_def)
qed

text \<open>Reading back what was printed.\<close>

lemma Atoi_FormatInt: "int64 i \<Longrightarrow> Atoi (FormatInt i) = Some i"
proof (cases "i < 0")
  case True
  moreover assume "int64 i"
  ultimately show ?thesis by (simp add: Atoi_def FormatInt_def digits_val_nat_digits int64_def)
next
  case False
  moreover assume "int64 i"
  moreover obtain c cs where "nat_digits (nat i) = c # cs" by (cases "nat_digits (nat i)") simp_all
  ultimately show ?thesis
    using nat_digits_hd [of "nat i"] digits_val_nat_digits [of "nat i"]
    by (simp add: Atoi_def FormatInt_def int64_def)
qed

text \<open>A hexadecimal digit, in lower case.\<close>

definition hex_digit :: "nat \<Rightarrow> char" where
  "hex_digit n = ''0123456789abcdef'' ! n"

section \<open>UTF-8\<close>

text \<open>
  \<open>utf8.DecodeRune\<close>: the first code point and its width in bytes; an ill-formed prefix gives
  U+FFFD with width 1, the empty string U+FFFD with width 0.
\<close>

definition rune_error :: nat where "rune_error = 0xFFFD"

definition cont :: "nat \<Rightarrow> nat \<Rightarrow> nat \<Rightarrow> bool" where
  "cont lo hi b \<longleftrightarrow> lo \<le> b \<and> b \<le> hi"

definition decode2 :: "nat \<Rightarrow> bytes \<Rightarrow> nat \<times> nat" where
  "decode2 b0 s = (case map byte_val s of
     b1 # _ \<Rightarrow> if cont 0x80 0xBF b1 then ((b0 - 0xC0) * 64 + (b1 - 0x80), 2) else (rune_error, 1)
   | _ \<Rightarrow> (rune_error, 1))"

definition decode3 :: "nat \<Rightarrow> bytes \<Rightarrow> nat \<times> nat" where
  "decode3 b0 s = (case map byte_val s of
     b1 # b2 # _ \<Rightarrow>
       if cont (if b0 = 0xE0 then 0xA0 else 0x80) (if b0 = 0xED then 0x9F else 0xBF) b1 \<and> cont 0x80 0xBF b2
       then ((b0 - 0xE0) * 4096 + (b1 - 0x80) * 64 + (b2 - 0x80), 3) else (rune_error, 1)
   | _ \<Rightarrow> (rune_error, 1))"

definition decode4 :: "nat \<Rightarrow> bytes \<Rightarrow> nat \<times> nat" where
  "decode4 b0 s = (case map byte_val s of
     b1 # b2 # b3 # _ \<Rightarrow>
       if cont (if b0 = 0xF0 then 0x90 else 0x80) (if b0 = 0xF4 then 0x8F else 0xBF) b1
          \<and> cont 0x80 0xBF b2 \<and> cont 0x80 0xBF b3
       then ((b0 - 0xF0) * 262144 + (b1 - 0x80) * 4096 + (b2 - 0x80) * 64 + (b3 - 0x80), 4)
       else (rune_error, 1)
   | _ \<Rightarrow> (rune_error, 1))"

definition DecodeRune :: "bytes \<Rightarrow> nat \<times> nat" where
  "DecodeRune s = (case s of [] \<Rightarrow> (rune_error, 0)
     | c # cs \<Rightarrow> let b0 = byte_val c in
         if b0 < 0x80 then (b0, 1)
         else if 0xC2 \<le> b0 \<and> b0 \<le> 0xDF then decode2 b0 cs
         else if 0xE0 \<le> b0 \<and> b0 \<le> 0xEF then decode3 b0 cs
         else if 0xF0 \<le> b0 \<and> b0 \<le> 0xF4 then decode4 b0 cs
         else (rune_error, 1))"

lemma DecodeRune_width:
  "s \<noteq> [] \<Longrightarrow> 1 \<le> snd (DecodeRune s) \<and> snd (DecodeRune s) \<le> length s"
  by (auto simp: DecodeRune_def decode2_def decode3_def decode4_def Let_def split: list.splits)

lemma DecodeRune_progress: "(r, w) = DecodeRune s \<Longrightarrow> s \<noteq> [] \<Longrightarrow> 0 < w \<and> length s - w < length s"
  using DecodeRune_width [of s] by (metis One_nat_def Suc_le_eq diff_less length_greater_0_conv snd_conv)

lemma DecodeRune_Nil [simp]: "DecodeRune [] = (rune_error, 0)"
  by (simp add: DecodeRune_def)

lemma DecodeRune_ascii: "byte_val c < 128 \<Longrightarrow> DecodeRune (c # cs) = (byte_val c, 1)"
  by (simp add: DecodeRune_def)

lemma decode2_big: "0xC2 \<le> b0 \<Longrightarrow> 128 \<le> fst (decode2 b0 s)"
  by (auto simp: decode2_def rune_error_def split: list.splits)

lemma decode3_big:
  assumes "0xE0 \<le> b0"
  shows "128 \<le> fst (decode3 b0 s)"
proof (cases "b0 = 0xE0")
  case True
  then show ?thesis
    by (auto simp: decode3_def cont_def rune_error_def split: list.splits)
next
  case False
  with assms have "4096 \<le> (b0 - 0xE0) * 4096" by simp
  then have "128 \<le> (b0 - 0xE0) * 4096 + x + y" for x y by linarith
  then show ?thesis by (auto simp: decode3_def rune_error_def split: list.splits)
qed

lemma decode4_big:
  assumes "0xF0 \<le> b0"
  shows "128 \<le> fst (decode4 b0 s)"
proof (cases "b0 = 0xF0")
  case True
  then show ?thesis
    by (auto simp: decode4_def cont_def rune_error_def split: list.splits)
next
  case False
  with assms have "262144 \<le> (b0 - 0xF0) * 262144" by simp
  then have "128 \<le> (b0 - 0xF0) * 262144 + x + y + z" for x y z by linarith
  then show ?thesis by (auto simp: decode4_def rune_error_def split: list.splits)
qed

lemma DecodeRune_non_ascii: "128 \<le> byte_val c \<Longrightarrow> 128 \<le> fst (DecodeRune (c # cs))"
  using decode2_big [of "byte_val c" cs] decode3_big [of "byte_val c" cs] decode4_big [of "byte_val c" cs]
  by (simp add: DecodeRune_def Let_def rune_error_def)

text \<open>The code points of a string, as a \<open>range\<close> loop visits them.\<close>

function runes :: "bytes \<Rightarrow> nat list" where
  "runes s = (if s = [] then [] else fst (DecodeRune s) # runes (drop (snd (DecodeRune s)) s))"
  by pat_completeness auto
termination
  by (relation "measure length") (use DecodeRune_width in \<open>auto simp: Suc_le_eq\<close>)

declare runes.simps [simp del]

lemma runes_Nil [simp]: "runes [] = []"
  by (simp add: runes.simps)

lemma runes_ascii: "is_ascii s \<Longrightarrow> runes s = map byte_val s"
proof (induction s)
  case (Cons c s)
  then have "byte_val c < 128" and "is_ascii s" by (simp_all add: is_ascii_def)
  with Cons.IH show ?case by (simp add: runes.simps [of "c # s"] DecodeRune_ascii)
qed simp

text \<open>\<open>unicode.IsLetter\<close> and \<open>unicode.IsDigit\<close>.\<close>

definition IsLetter :: "unicode \<Rightarrow> nat \<Rightarrow> bool" where
  "IsLetter U r = (if r < 128 then (65 \<le> r \<and> r \<le> 90) \<or> (97 \<le> r \<and> r \<le> 122) else uc_letter U r)"

definition IsDigit :: "unicode \<Rightarrow> nat \<Rightarrow> bool" where
  "IsDigit U r = (if r < 128 then 48 \<le> r \<and> r \<le> 57 else uc_digit U r)"

end
