(* ===== verification/GoJson.thy ===== *)
theory GoJson
  imports GoStrings
begin

text \<open>
  What the program uses of encoding/json: values, the compact encoder with its HTML-safe string
  escapes, and the decoder, which accepts exactly one value with blanks around it. Text is bytes.
  A number keeps its literal; its conversion belongs to the field it is stored in. Nesting deeper than
  10000 is refused. Objects keep their members in order, duplicates included.
\<close>

section \<open>Values\<close>

datatype json = JNull | JBool bool | JNum string | JStr bytes | JArr "json list" | JObj "(bytes \<times> json) list"

section \<open>Encoding strings\<close>

abbreviation quote_char :: char where "quote_char \<equiv> CHR 0x22"
abbreviation backslash :: char where "backslash \<equiv> CHR 0x5C"

definition hex4 :: "nat \<Rightarrow> string" where
  "hex4 n = [hex_digit (n div 4096 mod 16), hex_digit (n div 256 mod 16), hex_digit (n div 16 mod 16), hex_digit (n mod 16)]"

definition esc_byte :: "char \<Rightarrow> string" where
  "esc_byte c =
     (if c = backslash \<or> c = quote_char then [backslash, c]
      else if c = CHR 0x08 then [backslash, CHR ''b'']
      else if c = CHR 0x0C then [backslash, CHR ''f'']
      else if c = CHR 0x0A then [backslash, CHR ''n'']
      else if c = CHR 0x0D then [backslash, CHR ''r'']
      else if c = CHR 0x09 then [backslash, CHR ''t'']
      else if byte_val c < 32 \<or> c = CHR ''<'' \<or> c = CHR ''>'' \<or> c = CHR ''&''
      then backslash # CHR ''u'' # hex4 (byte_val c)
      else [c])"

text \<open>Ill-formed UTF-8 becomes U+FFFD; the line separators U+2028 and U+2029 are escaped.\<close>

function quote_body :: "bytes \<Rightarrow> string" where
  "quote_body s =
     (case s of
        [] \<Rightarrow> []
      | c # cs \<Rightarrow>
          if byte_val c < 128 then esc_byte c @ quote_body cs
          else (case DecodeRune s of
              (r, n) \<Rightarrow>
                if n \<le> 1 then backslash # ''ufffd'' @ quote_body cs
                else if r = 8232 \<or> r = 8233 then backslash # CHR ''u'' # hex4 r @ quote_body (drop n s)
                else take n s @ quote_body (drop n s)))"
  by pat_completeness auto
termination
  by (relation "measure length") auto

declare quote_body.simps [simp del]

definition quote :: "bytes \<Rightarrow> string" where
  "quote s = quote_char # quote_body s @ [quote_char]"

section \<open>Decoding strings\<close>

definition hex_val :: "char \<Rightarrow> nat option" where
  "hex_val c =
     (let b = byte_val c in
      if 48 \<le> b \<and> b \<le> 57 then Some (b - 48)
      else if 97 \<le> b \<and> b \<le> 102 then Some (b - 87)
      else if 65 \<le> b \<and> b \<le> 70 then Some (b - 55)
      else None)"

fun getu4 :: "string \<Rightarrow> (nat \<times> string) option" where
  "getu4 (a # b # c # d # s) =
     (case (hex_val a, hex_val b, hex_val c, hex_val d) of
        (Some w, Some x, Some y, Some z) \<Rightarrow> Some (w * 4096 + x * 256 + y * 16 + z, s)
      | _ \<Rightarrow> None)"
| "getu4 _ = None"

definition utf8 :: "nat \<Rightarrow> bytes" where
  "utf8 r =
     (if r < 128 then [char_of r]
      else if r < 2048 then [char_of (192 + r div 64), char_of (128 + r mod 64)]
      else if (55296 \<le> r \<and> r < 57344) \<or> 1114111 < r then [CHR 0xEF, CHR 0xBF, CHR 0xBD]
      else if r < 65536 then [char_of (224 + r div 4096), char_of (128 + r div 64 mod 64), char_of (128 + r mod 64)]
      else [char_of (240 + r div 262144), char_of (128 + r div 4096 mod 64), char_of (128 + r div 64 mod 64),
            char_of (128 + r mod 64)])"

text \<open>A surrogate pair is one code point; half of a pair becomes U+FFFD.\<close>

definition unescape :: "string \<Rightarrow> (bytes \<times> string) option" where
  "unescape s =
     (case s of
        [] \<Rightarrow> None
      | c # cs \<Rightarrow>
          if c = quote_char \<or> c = backslash \<or> c = CHR ''/'' then Some ([c], cs)
          else if c = CHR ''b'' then Some ([CHR 0x08], cs)
          else if c = CHR ''f'' then Some ([CHR 0x0C], cs)
          else if c = CHR ''n'' then Some ([CHR 0x0A], cs)
          else if c = CHR ''r'' then Some ([CHR 0x0D], cs)
          else if c = CHR ''t'' then Some ([CHR 0x09], cs)
          else if c = CHR ''u'' then
            (case getu4 cs of
               None \<Rightarrow> None
             | Some (r, rest) \<Rightarrow>
                 if 55296 \<le> r \<and> r < 56320 then
                   (case rest of
                      b # u # rest' \<Rightarrow>
                        (case (if b = backslash \<and> u = CHR ''u'' then getu4 rest' else None) of
                           Some (r2, rest'') \<Rightarrow>
                             if 56320 \<le> r2 \<and> r2 < 57344
                             then Some (utf8 ((r - 55296) * 1024 + (r2 - 56320) + 65536), rest'')
                             else Some (utf8 r, rest)
                         | None \<Rightarrow> Some (utf8 r, rest))
                    | _ \<Rightarrow> Some (utf8 r, rest))
                 else Some (utf8 r, rest))
          else None)"

definition prepend :: "bytes \<Rightarrow> (bytes \<times> string) option \<Rightarrow> (bytes \<times> string) option" where
  "prepend bs r = map_option (\<lambda>(b, rest). (bs @ b, rest)) r"

text \<open>The text after the opening quote: the string and what follows its closing quote.\<close>

function unquote :: "string \<Rightarrow> (bytes \<times> string) option" where
  "unquote s =
     (case s of
        [] \<Rightarrow> None
      | c # cs \<Rightarrow>
          if c = quote_char then Some ([], cs)
          else if c = backslash then
            (case unescape cs of
               None \<Rightarrow> None
             | Some (bs, rest) \<Rightarrow> if length rest \<le> length cs then prepend bs (unquote rest) else None)
          else if byte_val c < 32 then None
          else if byte_val c < 128 then prepend [c] (unquote cs)
          else (case DecodeRune s of
              (r, n) \<Rightarrow>
                if n \<le> 1 then prepend [CHR 0xEF, CHR 0xBF, CHR 0xBD] (unquote cs)
                else prepend (take n s) (unquote (drop n s))))"
  by pat_completeness auto
termination
  by (relation "measure length") auto

declare unquote.simps [simp del]

section \<open>Strings survive\<close>

text \<open>Well-formed UTF-8.\<close>

function valid_utf8 :: "bytes \<Rightarrow> bool" where
  "valid_utf8 s \<longleftrightarrow>
     (case s of [] \<Rightarrow> True
      | c # cs \<Rightarrow> if byte_val c < 128 then valid_utf8 cs
                  else 1 < snd (DecodeRune s) \<and> valid_utf8 (drop (max 1 (snd (DecodeRune s))) s))"
  by pat_completeness auto
termination
  by (relation "measure length") auto

declare valid_utf8.simps [simp del]

lemma valid_utf8_ascii: "is_ascii s \<Longrightarrow> valid_utf8 s"
  by (induction s) (auto simp: is_ascii_def valid_utf8.simps)

lemma decode2_multi: "decode2 b cs = (r, n) \<Longrightarrow> 1 < n \<Longrightarrow> \<exists>d ds. cs = d # ds \<and> n = 2 \<and> (\<forall>t. decode2 b (d # t) = (r, 2))"
  by (cases cs) (auto simp: decode2_def split: if_splits)

lemma decode3_multi:
  "decode3 b cs = (r, n) \<Longrightarrow> 1 < n \<Longrightarrow> \<exists>d e ds. cs = d # e # ds \<and> n = 3 \<and> (\<forall>t. decode3 b (d # e # t) = (r, 3))"
  by (cases cs; cases "tl cs") (auto simp: decode3_def split: if_splits)

lemma decode4_multi:
  "decode4 b cs = (r, n) \<Longrightarrow> 1 < n \<Longrightarrow>
   \<exists>d e f ds. cs = d # e # f # ds \<and> n = 4 \<and> (\<forall>t. decode4 b (d # e # f # t) = (r, 4))"
  by (cases cs; cases "tl cs"; cases "tl (tl cs)") (auto simp: decode4_def split: if_splits)

lemma DecodeRune_cases:
  obtains (ascii) "byte_val c < 128" "DecodeRune (c # cs) = (byte_val c, 1)"
  | (two) "194 \<le> byte_val c" "byte_val c \<le> 223" "\<And>ds. DecodeRune (c # ds) = decode2 (byte_val c) ds"
  | (three) "224 \<le> byte_val c" "byte_val c \<le> 239" "\<And>ds. DecodeRune (c # ds) = decode3 (byte_val c) ds"
  | (four) "240 \<le> byte_val c" "byte_val c \<le> 244" "\<And>ds. DecodeRune (c # ds) = decode4 (byte_val c) ds"
  | (bad) "DecodeRune (c # cs) = (rune_error, 1)"
proof -
  let ?b = "byte_val c :: nat"
  consider "?b < 128" | "128 \<le> ?b \<and> ?b < 194 \<or> 245 \<le> ?b" | "194 \<le> ?b \<and> ?b \<le> 223" | "224 \<le> ?b \<and> ?b \<le> 239" | "240 \<le> ?b \<and> ?b \<le> 244"
    by linarith
  then show ?thesis
  proof cases
    case 2
    then have "DecodeRune (c # cs) = (rune_error, 1)" by (auto simp: DecodeRune_def Let_def)
    then show ?thesis by (rule bad)
  qed (use that in \<open>simp_all add: DecodeRune_def\<close>)
qed

lemma DecodeRune_multi:
  assumes "DecodeRune (c # cs) = (r, n)" and "1 < n"
  shows "n \<le> length (c # cs) \<and> (\<forall>t. DecodeRune (take n (c # cs) @ t) = (r, n))"
proof (cases rule: DecodeRune_cases [where c = c and cs = cs])
  case two
  with assms decode2_multi [of "byte_val c" cs r n] show ?thesis by auto
next
  case three
  with assms decode3_multi [of "byte_val c" cs r n] show ?thesis by auto
next
  case four
  with assms decode4_multi [of "byte_val c" cs r n] show ?thesis by auto
qed (use assms in auto)

lemma decode3_value:
  assumes "decode3 b cs = (r, 3)" and "224 \<le> b" and "128 \<le> r"
  shows "\<exists>d e ds. cs = d # e # ds \<and> b = 224 + r div 4096 \<and> byte_val d = 128 + r div 64 mod 64 \<and> byte_val e = 128 + r mod 64"
proof -
  from decode3_multi [OF assms(1)] obtain d e ds where cs: "cs = d # e # ds" by auto
  let ?d = "byte_val d :: nat" and ?e = "byte_val e :: nat"
  from assms(1) have r: "128 \<le> ?d" "?d \<le> 191" "128 \<le> ?e" "?e \<le> 191" "r = (b - 224) * 4096 + (?d - 128) * 64 + (?e - 128)"
    by (auto simp: cs decode3_def cont_def split: if_splits)
  define x y z where "x = b - 224" and "y = ?d - 128" and "z = ?e - 128"
  have yz: "y < 64" "z < 64" "r = (x * 64 + y) * 64 + z" using r by (simp_all add: x_def y_def z_def)
  have base: "(w * 64 + v) div 64 = w" "(w * 64 + v) mod 64 = v" if "v < 64" for w v :: nat using that by simp_all
  have "r div 64 = x * 64 + y" "r mod 64 = z" unfolding yz(3) by (rule base [OF yz(2)])+
  moreover from this have "r div 4096 = x" "r div 64 mod 64 = y" using yz div_mult2_eq [of r 64 64] by auto
  ultimately show ?thesis using cs r assms(2) by (auto simp: x_def y_def z_def)
qed

lemma decode4_low: "240 \<le> b \<Longrightarrow> decode4 b cs = (r, 4) \<Longrightarrow> 65536 \<le> r"
proof -
  assume b: "240 \<le> b" and d: "decode4 b cs = (r, 4)"
  from decode4_multi [OF d] obtain d1 d2 d3 ds where cs: "cs = d1 # d2 # d3 # ds" by auto
  from d have r: "r = (b - 240) * 262144 + (byte_val d1 - 128) * 4096 + (byte_val d2 - 128) * 64 + (byte_val d3 - 128)"
    and d1: "b = 240 \<longrightarrow> 144 \<le> (byte_val d1 :: nat)"
    by (auto simp: cs decode4_def cont_def split: if_splits)
  show ?thesis
  proof (cases "b = 240")
    case True
    with d1 have "16 \<le> (byte_val d1 - 128 :: nat)" by simp
    then have "16 * 4096 \<le> (byte_val d1 - 128 :: nat) * 4096" by (rule mult_le_mono1)
    then show ?thesis unfolding r by linarith
  next
    case False
    with b have "1 \<le> b - 240" by simp
    then have "1 * 262144 \<le> (b - 240) * 262144" by (rule mult_le_mono1)
    then show ?thesis unfolding r by linarith
  qed
qed

lemma DecodeRune_separator:
  assumes "DecodeRune (c # cs) = (r, n)" and "1 < n" and "r = 8232 \<or> r = 8233"
  shows "n = 3 \<and> take n (c # cs) = utf8 r"
proof (cases rule: DecodeRune_cases [where c = c and cs = cs])
  case two
  with assms decode2_multi [of "byte_val c" cs r n] obtain d ds where "cs = d # ds" "decode2 (byte_val c) (d # ds) = (r, 2)"
    by auto
  then have "r = (byte_val c - 192) * 64 + (byte_val d - 128) \<and> (byte_val d :: nat) \<le> 191"
    by (auto simp: decode2_def cont_def split: if_splits)
  moreover have "(byte_val c - 192) * 64 \<le> 31 * (64 :: nat)" using two by (intro mult_le_mono1) simp
  ultimately have "r \<le> 2047" by linarith
  with assms(3) show ?thesis by auto
next
  case three
  with assms decode3_multi [of "byte_val c" cs r n] have d: "decode3 (byte_val c) cs = (r, 3)" and n: "n = 3" by auto
  from assms(3) have "128 \<le> r" by auto
  from decode3_value [OF d _ this] three obtain d e ds where cs: "cs = d # e # ds" and
    v: "byte_val c = 224 + r div 4096" "byte_val d = 128 + r div 64 mod 64" "byte_val e = 128 + r mod 64" by auto
  have "c = char_of (224 + r div 4096)" "d = char_of (128 + r div 64 mod 64)" "e = char_of (128 + r mod 64)"
    unfolding v [symmetric] by simp_all
  with assms(3) show ?thesis by (auto simp: n cs utf8_def)
next
  case four
  with assms decode4_multi [of "byte_val c" cs r n] have "decode4 (byte_val c) cs = (r, 4)" by auto
  from decode4_low [OF _ this] four assms(3) show ?thesis by auto
qed (use assms in auto)

lemma hex_val_digit: "n < 16 \<Longrightarrow> hex_val (hex_digit n) = Some n"
proof -
  have "list_all (\<lambda>n. hex_val (hex_digit n) = Some n) [0..<16]" by code_simp
  then show "n < 16 \<Longrightarrow> hex_val (hex_digit n) = Some n" by (simp add: list_all_iff)
qed

lemma getu4_hex4: "n < 65536 \<Longrightarrow> getu4 (hex4 n @ s) = Some (n, s)"
proof -
  assume n: "n < 65536"
  define a b c where "a = n div 16" and "b = a div 16" and "c = b div 16"
  have e: "n div 16 = a" "n div 256 = b" "n div 4096 = c"
    by (simp_all add: a_def b_def c_def div_mult2_eq [symmetric])
  have "n = a * 16 + n mod 16" "a = b * 16 + a mod 16" "b = c * 16 + b mod 16"
    by (simp_all add: a_def b_def c_def)
  moreover have "c mod 16 = c" using n unfolding e(3) [symmetric] by simp
  ultimately have "c mod 16 * 4096 + b mod 16 * 256 + a mod 16 * 16 + n mod 16 = n" by linarith
  then show ?thesis by (simp add: hex4_def hex_val_digit e)
qed

lemma unquote_quote_char [simp]: "unquote (quote_char # s) = Some ([], s)"
  by (simp add: unquote.simps)

lemma unquote_escape: "unescape cs = Some (bs, rest) \<Longrightarrow> length rest \<le> length cs \<Longrightarrow> unquote (backslash # cs) = prepend bs (unquote rest)"
  by (simp add: unquote.simps [of "backslash # cs"])

lemma unquote_hex4:
  assumes "n < 55296"
  shows "unquote (backslash # CHR ''u'' # hex4 n @ s) = prepend (utf8 n) (unquote s)"
proof (rule unquote_escape)
  show "unescape (CHR ''u'' # hex4 n @ s) = Some (utf8 n, s)"
    using assms by (simp add: unescape_def getu4_hex4)
qed simp

lemma unquote_esc_byte: "byte_val c < 128 \<Longrightarrow> unquote (esc_byte c @ s) = prepend [c] (unquote s)"
proof -
  assume c: "byte_val c < 128"
  then have hex: "unquote (backslash # CHR ''u'' # hex4 (byte_val c) @ s) = prepend [c] (unquote s)"
    by (subst unquote_hex4) (simp_all add: utf8_def)
  have plain: "unquote (c # s) = prepend [c] (unquote s)" if "c \<noteq> quote_char" "c \<noteq> backslash" "\<not> byte_val c < 32"
    using c that by (simp add: unquote.simps [of "c # s"])
  consider "c = quote_char" | "c = backslash" | "c = CHR 0x08" | "c = CHR 0x0C" | "c = CHR 0x0A" | "c = CHR 0x0D" | "c = CHR 0x09"
    | "c \<notin> {quote_char, backslash, CHR 0x08, CHR 0x0C, CHR 0x0A, CHR 0x0D, CHR 0x09}" by blast
  then show ?thesis
  proof cases
    case 8
    then show ?thesis using hex plain by (simp add: esc_byte_def)
  qed (simp_all add: esc_byte_def unquote_escape unescape_def)
qed

text \<open>Well-formed text survives; \<open>rest\<close> is what follows the closing quote.\<close>

lemma unquote_quote: "valid_utf8 s \<Longrightarrow> unquote (quote_body s @ quote_char # rest) = Some (s, rest)"
proof (induction s rule: quote_body.induct)
  case (1 s)
  show ?case
  proof (cases s)
    case Nil
    then show ?thesis by (simp add: quote_body.simps)
  next
    case (Cons c cs)
    show ?thesis
    proof (cases "byte_val c < (128 :: nat)")
      case True
      with Cons 1(5) have "valid_utf8 cs" by (simp add: valid_utf8.simps [of "c # cs"])
      from 1(1) [OF Cons True this] True show ?thesis
        by (simp add: quote_body.simps [of "c # cs"] Cons unquote_esc_byte prepend_def)
    next
      case False
      obtain r n where d: "DecodeRune s = (r, n)" by force
      with False 1(5) Cons have n: "1 < n" "valid_utf8 (drop n s)" by (auto simp: valid_utf8.simps [of "c # cs"] max_def split: if_splits)
      from DecodeRune_multi [OF d [unfolded Cons] n(1)] have m: "n \<le> length s" "\<And>t. DecodeRune (take n s @ t) = (r, n)"
        unfolding Cons by blast+
      have tail: "unquote (quote_body (drop n s) @ quote_char # rest) = Some (drop n s, rest)"
        using 1(3,4) Cons False d n by (cases "r = 8232 \<or> r = 8233") auto
      show ?thesis
      proof (cases "r = 8232 \<or> r = 8233")
        case True
        with DecodeRune_separator [OF d [unfolded Cons] n(1) True] have "take n s = utf8 r" "r < 55296" unfolding Cons by auto
        moreover have "quote_body s = backslash # CHR ''u'' # hex4 r @ quote_body (drop n s)"
          using True False d n Cons by (simp add: quote_body.simps [of "c # cs"])
        ultimately have "unquote (quote_body s @ quote_char # rest) = prepend (take n s) (unquote (quote_body (drop n s) @ quote_char # rest))"
          by (simp add: unquote_hex4)
        then show ?thesis unfolding tail by (simp add: prepend_def)
      next
        case sep: False
        define u where "u = take n s @ quote_body (drop n s) @ quote_char # rest"
        have "length (take n s) = n" using m(1) by simp
        then have u: "DecodeRune u = (r, n)" "take n u = take n s" "drop n u = quote_body (drop n s) @ quote_char # rest"
          by (simp_all add: u_def m(2))
        have uc: "u = c # tl u" using n Cons by (simp add: u_def take_Cons')
        have "unquote u = prepend (take n s) (unquote (drop n u))"
          using False uc u n(1) by (subst unquote.simps) (cases u, auto simp: list.case_eq_if)
        then have "unquote u = Some (s, rest)" unfolding u(3) tail by (simp add: prepend_def)
        moreover have "quote_body s = take n s @ quote_body (drop n s)"
          using sep False d n Cons by (simp add: quote_body.simps [of "c # cs"])
        ultimately show ?thesis unfolding u_def by simp
      qed
    qed
  qed
qed

section \<open>Numbers\<close>

definition is_digit :: "char \<Rightarrow> bool" where
  "is_digit c \<longleftrightarrow> 48 \<le> byte_val c \<and> byte_val c \<le> 57"

text \<open>The literal and what follows it: an integer part without leading zeros, a fraction, an exponent.\<close>

definition scan_exp :: "string \<Rightarrow> string \<Rightarrow> (string \<times> string) option" where
  "scan_exp lit s =
     (case s of
        [] \<Rightarrow> Some (lit, [])
      | e # r \<Rightarrow>
          if e = CHR ''e'' \<or> e = CHR ''E'' then
            (let sign = (if r \<noteq> [] \<and> (hd r = CHR ''+'' \<or> hd r = CHR ''-'') then [hd r] else []);
                 r' = drop (length sign) r
             in if takeWhile is_digit r' = [] then None
                else Some (lit @ e # sign @ takeWhile is_digit r', dropWhile is_digit r'))
          else Some (lit, s))"

definition scan_frac :: "string \<Rightarrow> string \<Rightarrow> (string \<times> string) option" where
  "scan_frac lit s =
     (if s \<noteq> [] \<and> hd s = CHR ''.'' then
        (if takeWhile is_digit (tl s) = [] then None
         else scan_exp (lit @ CHR ''.'' # takeWhile is_digit (tl s)) (dropWhile is_digit (tl s)))
      else scan_exp lit s)"

definition scan_number :: "string \<Rightarrow> (string \<times> string) option" where
  "scan_number s =
     (let sign = (if s \<noteq> [] \<and> hd s = CHR ''-'' then [CHR ''-''] else []);
          r = drop (length sign) s
      in case r of
           [] \<Rightarrow> None
         | c # cs \<Rightarrow>
             if c = CHR ''0'' then scan_frac (sign @ [c]) cs
             else if is_digit c then scan_frac (sign @ takeWhile is_digit r) (dropWhile is_digit r)
             else None)"

section \<open>Decoding values\<close>

definition is_blank :: "char \<Rightarrow> bool" where
  "is_blank c \<longleftrightarrow> c = CHR 0x20 \<or> c = CHR 0x09 \<or> c = CHR 0x0D \<or> c = CHR 0x0A"

definition skip :: "string \<Rightarrow> string" where
  "skip s = dropWhile is_blank s"

lemma skip_length: "length (skip s) \<le> length s"
  by (simp add: skip_def length_dropWhile_le)

text \<open>
  A value, the elements of an array after its bracket, the members of an object after its brace; each with the
  text that follows. \<open>d\<close> is the nesting that is still allowed. The comparisons of lengths always hold
  (\<open>values_shrink\<close>) and make the recursion well-founded.
\<close>

function pval :: "nat \<Rightarrow> string \<Rightarrow> (json \<times> string) option"
  and pelems :: "nat \<Rightarrow> string \<Rightarrow> (json list \<times> string) option"
  and pmems :: "nat \<Rightarrow> string \<Rightarrow> ((bytes \<times> json) list \<times> string) option" where
  "pval d s =
     (case s of
        [] \<Rightarrow> None
      | c # cs \<Rightarrow>
          if c = quote_char then map_option (apfst JStr) (unquote cs)
          else if c = CHR ''['' then
            (if d = 0 then None
             else (case skip cs of
                 [] \<Rightarrow> None
               | x # xs \<Rightarrow> if x = CHR '']'' then Some (JArr [], xs) else map_option (apfst JArr) (pelems (d - 1) (skip cs))))
          else if c = CHR ''{'' then
            (if d = 0 then None
             else (case skip cs of
                 [] \<Rightarrow> None
               | x # xs \<Rightarrow> if x = CHR ''}'' then Some (JObj [], xs) else map_option (apfst JObj) (pmems (d - 1) (skip cs))))
          else if c = CHR ''n'' then (if prefix ''null'' s then Some (JNull, drop 4 s) else None)
          else if c = CHR ''t'' then (if prefix ''true'' s then Some (JBool True, drop 4 s) else None)
          else if c = CHR ''f'' then (if prefix ''false'' s then Some (JBool False, drop 5 s) else None)
          else map_option (apfst JNum) (scan_number s))"
| "pelems d s =
     (case pval d s of
        None \<Rightarrow> None
      | Some (v, r) \<Rightarrow>
          (case skip r of
             [] \<Rightarrow> None
           | x # xs \<Rightarrow>
               if x = CHR '']'' then Some ([v], xs)
               else if x = CHR '','' \<and> length xs < length s then map_option (apfst ((#) v)) (pelems d (skip xs))
               else None))"
| "pmems d s =
     (case s of
        [] \<Rightarrow> None
      | q # s1 \<Rightarrow>
          if q \<noteq> quote_char then None
          else (case unquote s1 of
              None \<Rightarrow> None
            | Some (k, r) \<Rightarrow>
                (case skip r of
                   [] \<Rightarrow> None
                 | x # xs \<Rightarrow>
                     if x \<noteq> CHR '':'' \<or> \<not> length xs < length s then None
                     else (case pval d (skip xs) of
                         None \<Rightarrow> None
                       | Some (v, r2) \<Rightarrow>
                           (case skip r2 of
                              [] \<Rightarrow> None
                            | y # ys \<Rightarrow>
                                if y = CHR ''}'' then Some ([(k, v)], ys)
                                else if y = CHR '','' \<and> length ys < length s
                                then map_option (apfst ((#) (k, v))) (pmems d (skip ys))
                                else None)))))"
  by pat_completeness auto
termination
proof (relation "measures [case_sum (length \<circ> snd) (case_sum (length \<circ> snd) (length \<circ> snd)),
    case_sum (\<lambda>_. 0) (\<lambda>_. Suc 0)]", goal_cases)
  case (2 d s c cs x xs)
  then show ?case using skip_length [of cs] by simp
next
  case (3 d s c cs x xs)
  then show ?case using skip_length [of cs] by simp
next
  case (5 d s a v r x xs)
  then show ?case using skip_length [of xs] by simp
next
  case (6 d s q s1 a k r x xs)
  then show ?case using skip_length [of xs] by simp
next
  case (7 d s q s1 a k r x xs aa v r2 y ys)
  then show ?case using skip_length [of ys] by simp
qed simp_all

declare pval.simps [simp del] pelems.simps [simp del] pmems.simps [simp del]

definition maxNestingDepth :: nat where "maxNestingDepth = 10000"

text \<open>A document: one value with blanks around it.\<close>

definition parse_json :: "bytes \<Rightarrow> json option" where
  "parse_json s =
     (case pval maxNestingDepth (skip s) of
        None \<Rightarrow> None
      | Some (v, r) \<Rightarrow> if skip r = [] then Some v else None)"

section \<open>Encoding values\<close>

fun print_json :: "json \<Rightarrow> string" where
  "print_json JNull = ''null''"
| "print_json (JBool b) = (if b then ''true'' else ''false'')"
| "print_json (JNum l) = l"
| "print_json (JStr s) = quote s"
| "print_json (JArr vs) = CHR ''['' # join (CHR '','') (map print_json vs) @ '']''"
| "print_json (JObj ms) = CHR ''{'' # join (CHR '','') (map (\<lambda>m. quote (fst m) @ CHR '':'' # print_json (snd m)) ms) @ ''}''"

section \<open>Values survive\<close>

text \<open>Values that fit: well-formed text, numbers that are literals, and a nesting of at most \<open>d\<close>.\<close>

fun json_ok :: "nat \<Rightarrow> json \<Rightarrow> bool" where
  "json_ok d (JNum l) \<longleftrightarrow> scan_number l = Some (l, [])"
| "json_ok d (JStr s) \<longleftrightarrow> valid_utf8 s"
| "json_ok d (JArr vs) \<longleftrightarrow> 0 < d \<and> (\<forall>v\<in>set vs. json_ok (d - 1) v)"
| "json_ok d (JObj ms) \<longleftrightarrow> 0 < d \<and> (\<forall>m\<in>set ms. valid_utf8 (fst m) \<and> json_ok (d - 1) (snd m))"
| "json_ok d _ \<longleftrightarrow> True"

text \<open>What may follow a number.\<close>

definition stops :: "string \<Rightarrow> bool" where
  "stops s \<longleftrightarrow> s = [] \<or> hd s \<in> {CHR '','', CHR '']'', CHR ''}''}"

lemma is_digit_char: "(d :: nat) < 10 \<Longrightarrow> is_digit (char_of (48 + d))"
  by (simp add: is_digit_def of_char_of)

lemma nat_digits_digits: "c \<in> set (nat_digits n) \<Longrightarrow> is_digit c"
proof (induction n rule: nat_digits.induct)
  case (1 n)
  then show ?case
    by (subst (asm) (2) nat_digits.simps) (auto simp: is_digit_char split: if_splits)
qed

lemma nat_digits_zero: "nat_digits 0 = ''0''"
  by code_simp

lemma nat_digits_lead: "0 < n \<Longrightarrow> hd (nat_digits n) \<noteq> CHR ''0''"
proof (induction n rule: nat_digits.induct)
  case (1 n)
  show ?case
  proof (cases "n < 10")
    case True
    have "char_of (48 + n) \<noteq> (CHR ''0'')"
    proof
      assume "char_of (48 + n) = CHR ''0''"
      then have "byte_val (char_of (48 + n)) = (byte_val (CHR ''0'') :: nat)" by simp
      with True 1(2) show False by (simp add: of_char_of)
    qed
    with True show ?thesis by (subst nat_digits.simps) simp
  next
    case False
    with 1 show ?thesis by (subst nat_digits.simps) simp
  qed
qed

lemma stops_digits: "stops rest \<Longrightarrow> takeWhile is_digit rest = [] \<and> dropWhile is_digit rest = rest"
  by (cases rest) (auto simp: stops_def is_digit_def)

lemma scan_frac_stops: "stops rest \<Longrightarrow> scan_frac lit rest = Some (lit, rest)"
  by (cases rest) (auto simp: stops_def scan_frac_def scan_exp_def)

text \<open>A number ends where it ends, whatever stops it.\<close>

lemma digits_append:
  "stops rest \<Longrightarrow> takeWhile is_digit (s @ rest) = takeWhile is_digit s"
  "stops rest \<Longrightarrow> dropWhile is_digit (s @ rest) = dropWhile is_digit s @ rest"
  by (induction s) (simp_all add: stops_digits)

lemma scan_exp_append:
  assumes "stops rest"
  shows "scan_exp lit (s @ rest) = map_option (apsnd (\<lambda>r. r @ rest)) (scan_exp lit s)"
proof (cases s)
  case Nil
  with assms show ?thesis by (cases rest) (auto simp: scan_exp_def stops_def)
next
  case (Cons e r)
  have "stops rest \<Longrightarrow> rest \<noteq> [] \<Longrightarrow> hd rest \<noteq> CHR ''+'' \<and> hd rest \<noteq> CHR ''-''" by (auto simp: stops_def)
  with Cons assms show ?thesis
    by (cases r) (auto simp: scan_exp_def Let_def digits_append stops_digits)
qed

lemma scan_frac_append:
  assumes "stops rest"
  shows "scan_frac lit (s @ rest) = map_option (apsnd (\<lambda>r. r @ rest)) (scan_frac lit s)"
proof (cases s)
  case Nil
  then show ?thesis using scan_frac_stops [OF assms] scan_frac_stops [of "[]"] by (simp add: stops_def)
next
  case (Cons c cs)
  then show ?thesis
    using digits_append [OF assms, of cs] scan_exp_append [OF assms, of _ "c # cs"] scan_exp_append [OF assms, of _ "dropWhile is_digit cs"]
    by (simp add: scan_frac_def)
qed

lemma scan_number_append:
  assumes "stops rest" and "scan_number s = Some (l, r)"
  shows "scan_number (s @ rest) = Some (l, r @ rest)"
proof -
  have frac: "scan_frac lit t = Some (l, r) \<Longrightarrow> scan_frac lit (t @ rest) = Some (l, r @ rest)" for lit t
    using scan_frac_append [OF assms(1), of lit t] by simp
  show ?thesis
    using assms(2) stops_digits [OF assms(1)]
    by (cases s; cases "tl s")
      (auto simp: scan_number_def Let_def digits_append [OF assms(1)] dest!: frac split: if_splits)
qed

lemma scan_integer:
  assumes "takeWhile is_digit rest = []"
  shows "scan_number (nat_digits n @ rest) = scan_frac (nat_digits n) rest"
    and "scan_number (CHR ''-'' # nat_digits n @ rest) = scan_frac (CHR ''-'' # nat_digits n) rest"
proof -
  have "dropWhile is_digit rest = rest" using assms takeWhile_dropWhile_id [of is_digit rest] by simp
  with assms have s: "takeWhile is_digit (nat_digits n @ rest) = nat_digits n" "dropWhile is_digit (nat_digits n @ rest) = rest"
    using nat_digits_digits [of _ n] by (simp_all add: takeWhile_append2 dropWhile_append2)
  obtain c cs where n: "nat_digits n = c # cs" by (cases "nat_digits n") simp_all
  then have c: "is_digit c" "c \<noteq> CHR ''-''" using nat_digits_digits [of c n] nat_digits_hd [of n] by simp_all
  have z: "c = CHR ''0'' \<Longrightarrow> cs = []" using nat_digits_lead [of n] n nat_digits_zero by (cases "n = 0") auto
  show "scan_number (nat_digits n @ rest) = scan_frac (nat_digits n) rest"
    and "scan_number (CHR ''-'' # nat_digits n @ rest) = scan_frac (CHR ''-'' # nat_digits n) rest"
    using s c z by (auto simp: scan_number_def Let_def n)
qed

lemma FormatInt_cases:
  obtains n where "FormatInt i = nat_digits n" | n where "FormatInt i = CHR ''-'' # nat_digits n"
  by (cases "i < 0") (simp_all add: FormatInt_def)

lemma scan_FormatInt [simp]: "scan_number (FormatInt i) = Some (FormatInt i, [])"
  using scan_integer [of "[]"] by (cases rule: FormatInt_cases [of i]) (simp_all add: scan_frac_stops stops_def)

lemma scan_number_hd: "scan_number s = Some x \<Longrightarrow> \<exists>c cs. s = c # cs \<and> (c = CHR ''-'' \<or> is_digit c)"
  by (cases s) (auto simp: scan_number_def Let_def is_digit_def split: if_splits)

text \<open>The first byte of a printed value tells it from a blank and from a closing bracket.\<close>

lemma print_json_hd:
  assumes "json_ok d v"
  shows "\<exists>c cs. print_json v = c # cs \<and> \<not> is_blank c \<and> c \<noteq> CHR '']''"
proof (cases v)
  case (JNum l)
  with assms have "scan_number l = Some (l, [])" by simp
  from scan_number_hd [OF this] JNum show ?thesis by (auto simp: is_blank_def is_digit_def)
qed (auto simp: quote_def is_blank_def)

lemma skip_print [simp]: "json_ok d v \<Longrightarrow> skip (print_json v @ rest) = print_json v @ rest"
  using print_json_hd [of d v] by (auto simp: skip_def)

lemma skip_bracket [simp]:
  "skip (CHR '']'' # s) = CHR '']'' # s" "skip (CHR ''}'' # s) = CHR ''}'' # s" "skip (CHR '','' # s) = CHR '','' # s"
  "skip (CHR '':'' # s) = CHR '':'' # s" "skip (quote_char # s) = quote_char # s" "skip [] = []"
  by (simp_all add: skip_def is_blank_def)

lemma not_blank [simp]: "\<not> is_blank (CHR '']'')"
  by (simp add: is_blank_def)

lemma stops_Cons [simp]: "stops []" "stops (CHR '','' # s)" "stops (CHR '']'' # s)" "stops (CHR ''}'' # s)"
  by (simp_all add: stops_def)

lemma pelems_print:
  assumes "vs \<noteq> []" and "\<And>v r. v \<in> set vs \<Longrightarrow> stops r \<Longrightarrow> pval d (print_json v @ r) = Some (v, r)"
    and "\<forall>v\<in>set vs. json_ok d v"
  shows "pelems d (join (CHR '','') (map print_json vs) @ CHR '']'' # rest) = Some (vs, rest)"
  using assms
proof (induction vs rule: induct_list012)
  case (2 v)
  then show ?case by (simp add: pelems.simps)
next
  case (3 v w vs)
  then have "pelems d (join (CHR '','') (map print_json (w # vs)) @ CHR '']'' # rest) = Some (w # vs, rest)" by simp
  moreover have "skip (join (CHR '','') (map print_json (w # vs)) @ CHR '']'' # rest) = join (CHR '','') (map print_json (w # vs)) @ CHR '']'' # rest"
    using 3(5) print_json_hd [of d w] by (cases vs) (auto simp: skip_def)
  ultimately show ?case using 3(4) [of v] by (subst pelems.simps) simp
qed simp

lemma pmems_print:
  assumes "ms \<noteq> []" and "\<And>m r. m \<in> set ms \<Longrightarrow> stops r \<Longrightarrow> pval d (print_json (snd m) @ r) = Some (snd m, r)"
    and "\<forall>m\<in>set ms. valid_utf8 (fst m) \<and> json_ok d (snd m)"
  shows "pmems d (join (CHR '','') (map (\<lambda>m. quote (fst m) @ CHR '':'' # print_json (snd m)) ms) @ CHR ''}'' # rest) = Some (ms, rest)"
  using assms
proof (induction ms rule: induct_list012)
  case (2 m)
  then show ?case by (simp add: pmems.simps quote_def unquote_quote skip_print [of d])
next
  case (3 m n ms)
  let ?tail = "join (CHR '','') (map (\<lambda>m. quote (fst m) @ CHR '':'' # print_json (snd m)) (n # ms)) @ CHR ''}'' # rest"
  from 3 have "pmems d ?tail = Some (n # ms, rest)" by simp
  moreover have "skip ?tail = ?tail" by (cases ms) (auto simp: quote_def)
  ultimately show ?case using 3(4) [of m] 3(5) by (subst pmems.simps) (simp add: quote_def unquote_quote skip_print [of d])
qed simp

lemma pval_print: "json_ok d v \<Longrightarrow> stops rest \<Longrightarrow> pval d (print_json v @ rest) = Some (v, rest)"
proof (induction v arbitrary: d rest)
  case (JNum l)
  then have l: "scan_number l = Some (l, [])" by simp
  from scan_number_hd [OF l] obtain c cs where c: "l = c # cs" "c = CHR ''-'' \<or> is_digit c" by blast
  then have "c \<notin> {quote_char, CHR ''['', CHR ''{'', CHR ''n'', CHR ''t'', CHR ''f''}" by (auto simp: is_digit_def)
  with scan_number_append [OF JNum(2) l] c(1) show ?case by (simp add: pval.simps)
next
  case (JArr vs)
  have "pelems (d - 1) (join (CHR '','') (map print_json vs) @ CHR '']'' # rest) = Some (vs, rest)" if "vs \<noteq> []"
    using that JArr by (intro pelems_print) simp_all
  moreover have "\<exists>c cs. join (CHR '','') (map print_json vs) = c # cs \<and> \<not> is_blank c \<and> c \<noteq> CHR '']''" if "vs \<noteq> []"
    using that JArr(2) print_json_hd [of "d - 1" "hd vs"] by (cases vs; cases "tl vs") auto
  ultimately show ?case using JArr(2) by (cases "vs = []") (auto simp: pval.simps skip_def)
next
  case (JObj ms)
  have "pmems (d - 1) (join (CHR '','') (map (\<lambda>m. quote (fst m) @ CHR '':'' # print_json (snd m)) ms) @ CHR ''}'' # rest) = Some (ms, rest)"
    if "ms \<noteq> []" using that JObj by (intro pmems_print) (auto simp: snds.simps)
  moreover have "\<exists>cs. join (CHR '','') (map (\<lambda>m. quote (fst m) @ CHR '':'' # print_json (snd m)) ms) = quote_char # cs" if "ms \<noteq> []"
    using that by (cases ms; cases "tl ms") (auto simp: quote_def)
  ultimately show ?case using JObj(2) by (cases "ms = []") (auto simp: pval.simps)
qed (simp_all add: pval.simps quote_def unquote_quote)

text \<open>Decoding what was encoded gives the value back.\<close>

lemma parse_print: "json_ok maxNestingDepth v \<Longrightarrow> parse_json (print_json v) = Some v"
  using pval_print [of maxNestingDepth v "[]"] skip_print [of maxNestingDepth v "[]"] by (simp add: parse_json_def)

section \<open>Progress\<close>

text \<open>Every part of a document is shorter than what it was read from, so no comparison of lengths ever fails.\<close>

lemma unescape_shrinks: "unescape s = Some (bs, r) \<Longrightarrow> length r < length s"
proof -
  have g: "getu4 s = Some (n, r) \<Longrightarrow> length r < length s" for s n r
    by (induction s rule: getu4.induct) (auto split: option.splits)
  show "unescape s = Some (bs, r) \<Longrightarrow> length r < length s"
    by (auto simp: unescape_def split: list.splits if_splits option.splits dest!: g)
qed

lemma prepend_Some: "prepend bs x = Some (b, r) \<longleftrightarrow> (\<exists>b'. x = Some (b', r) \<and> b = bs @ b')"
  by (auto simp: prepend_def)

lemma unquote_shrinks: "unquote s = Some (bs, r) \<Longrightarrow> length r < length s"
proof (induction s arbitrary: bs rule: length_induct)
  case (1 s)
  have IH: "length t < length s \<Longrightarrow> unquote t = Some (b, r) \<Longrightarrow> length r < length s" for t b using 1(1) by fastforce
  show ?case
  proof (cases s)
    case Nil
    with 1(2) show ?thesis by (simp add: unquote.simps)
  next
    case (Cons c cs)
    obtain x n where d: "DecodeRune (c # cs) = (x, n)" by force
    have e: "length (drop n s) < length s" if "\<not> n \<le> 1" using that Cons by simp
    from 1(2) IH [of cs] IH [OF e] IH show ?thesis
      unfolding Cons by (auto simp: unquote.simps [of "c # cs"] d prepend_Some less_Suc_eq_le split: if_splits option.splits)
  qed
qed

lemma scan_exp_shrinks: "scan_exp l s = Some (m, r) \<Longrightarrow> length r \<le> length s"
  by (auto simp: scan_exp_def Let_def split: list.splits if_splits
      intro: le_trans [OF length_dropWhile_le] le_SucI)

lemma scan_frac_shrinks: "scan_frac l s = Some (m, r) \<Longrightarrow> length r \<le> length s"
  using length_dropWhile_le [of is_digit "tl s"]
  by (auto simp: scan_frac_def split: if_splits dest!: scan_exp_shrinks)

lemma scan_number_shrinks: "scan_number s = Some (m, r) \<Longrightarrow> length r < length s"
proof -
  assume s: "scan_number s = Some (m, r)"
  define t where "t = drop (if s \<noteq> [] \<and> hd s = CHR ''-'' then 1 else 0) s"
  have t: "length t \<le> length s" by (simp add: t_def)
  from s obtain c cs l u where "t = c # cs" "scan_frac l u = Some (m, r)" "u = cs \<or> is_digit c \<and> u = dropWhile is_digit (c # cs)"
    by (auto simp: scan_number_def Let_def t_def split: list.splits if_splits)
  with t scan_frac_shrinks [of l u m r] length_dropWhile_le [of is_digit cs] show ?thesis by auto
qed

lemma skip_Cons: "skip s = x # xs \<Longrightarrow> length xs < length s"
  using skip_length [of s] by simp

lemma values_shrink:
  "\<And>v r. pval d s = Some (v, r) \<Longrightarrow> length r < length s"
  "\<And>vs r. pelems d s = Some (vs, r) \<Longrightarrow> length r < length s"
  "\<And>ms r. pmems d s = Some (ms, r) \<Longrightarrow> length r < length s"
proof (induction d s and d s and d s rule: pval_pelems_pmems.induct)
  case (1 d s)
  then show ?case
    using skip_length [of "tl s"]
    by (subst (asm) pval.simps)
      (auto dest: unquote_shrinks scan_number_shrinks split: list.splits if_splits intro: less_SucI, fastforce+)
next
  case (2 d s)
  from 2(3) obtain v t x xs where v: "pval d s = Some (v, t)" "skip t = x # xs"
    and "xs = r \<or> (\<exists>us. pelems d (skip xs) = Some (us, r) \<and> x = CHR '','' \<and> length xs < length s)"
    by (subst (asm) pelems.simps) (auto split: list.splits if_splits option.splits)
  with 2(1) [OF v(1)] 2(2) [OF v(1) _ v(2)] skip_Cons [OF v(2)] skip_length [of xs] show ?case by fastforce
next
  case (3 d s)
  from 3(3) obtain q s1 k t x xs v u y ys where s: "s = q # s1" "\<not> q \<noteq> quote_char" and k: "unquote s1 = Some (k, t)"
    and x: "skip t = x # xs" "\<not> (x \<noteq> CHR '':'' \<or> \<not> length xs < length s)" and v: "pval d (skip xs) = Some (v, u)" and y: "skip u = y # ys"
    and "ys = r \<or> (\<exists>us. pmems d (skip ys) = Some (us, r) \<and> y \<noteq> CHR ''}'' \<and> y = CHR '','' \<and> length ys < length s)"
    by (subst (asm) pmems.simps) (auto split: list.splits if_splits option.splits)
  with 3(1) [OF s k _ x v] 3(2) [OF s k _ x v _ y] skip_Cons [OF y] skip_length [of xs] skip_length [of ys] show ?case by fastforce
qed

section \<open>Texts that are read are well-formed\<close>

text \<open>All texts in a value are well-formed.\<close>

fun texts :: "json \<Rightarrow> bool" where
  "texts (JStr s) \<longleftrightarrow> valid_utf8 s"
| "texts (JArr vs) \<longleftrightarrow> (\<forall>v\<in>set vs. texts v)"
| "texts (JObj ms) \<longleftrightarrow> (\<forall>m\<in>set ms. valid_utf8 (fst m) \<and> texts (snd m))"
| "texts _ \<longleftrightarrow> True"

lemma valid_utf8_Nil [simp]: "valid_utf8 []"
  by (simp add: valid_utf8.simps)

lemma valid_utf8_append: "valid_utf8 a \<Longrightarrow> valid_utf8 b \<Longrightarrow> valid_utf8 (a @ b)"
proof (induction a rule: length_induct)
  case (1 a)
  show ?case
  proof (cases a)
    case Nil
    with 1 show ?thesis by simp
  next
    case (Cons c cs)
    show ?thesis
    proof (cases "byte_val c < (128 :: nat)")
      case True
      with 1 Cons show ?thesis by (simp add: valid_utf8.simps [of "c # cs"] valid_utf8.simps [of "c # cs @ b"])
    next
      case False
      obtain r n where d: "DecodeRune (c # cs) = (r, n)" by force
      with False 1(2) Cons have n: "1 < n" "valid_utf8 (drop n a)" by (auto simp: valid_utf8.simps [of "c # cs"] max_def split: if_splits)
      from DecodeRune_multi [OF d n(1)] have m: "n \<le> length a" and t: "\<And>t. DecodeRune (take n a @ t) = (r, n)" unfolding Cons by auto
      have "DecodeRune (a @ b) = (r, n)" using t [of "drop n a @ b"] by (simp flip: append_assoc)
      moreover have "drop n (a @ b) = drop n a @ b" "length (drop n a) < length a" using m n(1) by simp_all
      with 1(1,3) n(2) have "valid_utf8 (drop n (a @ b))" by simp
      ultimately show ?thesis using n(1) False Cons by (simp add: valid_utf8.simps [of "c # cs @ b"] max_def)
    qed
  qed
qed

lemma valid_utf8_one: "byte_val c < 128 \<Longrightarrow> valid_utf8 [c]"
  by (simp add: valid_utf8.simps)

lemma valid_utf8_rune: "DecodeRune s = (r, length s) \<Longrightarrow> 1 < length s \<Longrightarrow> valid_utf8 s"
proof (cases s)
  case (Cons c cs)
  assume r: "DecodeRune s = (r, length s)" and len: "1 < length s"
  then have "\<not> byte_val c < (128 :: nat)" using Cons DecodeRune_ascii [of c cs] by auto
  with r len show ?thesis by (simp add: Cons valid_utf8.simps [of "c # cs"])
qed simp

lemma byte_char: "n < 256 \<Longrightarrow> byte_val (char_of n) = (n :: nat)"
  by (simp add: of_char_of)

lemma replacement_valid: "valid_utf8 [CHR 0xEF, CHR 0xBF, CHR 0xBD]"
  by (rule valid_utf8_rune [of _ 65533]) (simp_all add: DecodeRune_def decode3_def cont_def)

lemma utf8_valid: "valid_utf8 (utf8 r)"
proof -
  have r64: "r div 64 div 64 = r div 4096" "r div 4096 div 64 = r div 262144" "r mod 64 < 64" "r div 64 mod 64 < 64" "r div 4096 mod 64 < 64"
    by (simp_all flip: div_mult2_eq)
  consider "r < 128" | "128 \<le> r" "r < 2048" | "2048 \<le> r" "(55296 \<le> r \<and> r < 57344) \<or> 1114111 < r"
    | "2048 \<le> r" "r < 55296 \<or> 57344 \<le> r" "r < 65536" | "65536 \<le> r" "r \<le> 1114111" by linarith
  then show ?thesis
  proof cases
    case 1
    then show ?thesis by (simp add: utf8_def valid_utf8_one byte_char)
  next
    case 2
    define x y where "x = r div 64" and "y = r mod 64"
    have "2 \<le> x" "x < 32" "y < 64" using 2 by (auto simp: x_def y_def)
    moreover have "utf8 r = [char_of (192 + x), char_of (128 + y)]" using 2 by (simp add: utf8_def x_def y_def)
    ultimately show ?thesis
      by (intro valid_utf8_rune [of _ "x * 64 + y"]) (simp_all add: DecodeRune_def decode2_def cont_def byte_char)
  next
    case 3
    then have "utf8 r = [CHR 0xEF, CHR 0xBF, CHR 0xBD]" by (auto simp: utf8_def)
    then show ?thesis by (simp add: replacement_valid)
  next
    case 4
    define x y z where "x = r div 4096" and "y = r div 64 mod 64" and "z = r mod 64"
    have "r = x * 4096 + y * 64 + z" "y < 64" "z < 64"
      using div_mult_mod_eq [of r 64] div_mult_mod_eq [of "r div 64" 64] r64 unfolding x_def y_def z_def by linarith+
    moreover from this 4 have "x < 16" "x = 0 \<longrightarrow> 32 \<le> y" "x = 13 \<longrightarrow> y \<le> 31" by auto
    moreover have "utf8 r = [char_of (224 + x), char_of (128 + y), char_of (128 + z)]" using 4 by (auto simp: utf8_def x_def y_def z_def)
    ultimately show ?thesis
      by (intro valid_utf8_rune [of _ "x * 4096 + y * 64 + z"]) (simp_all add: DecodeRune_def decode3_def cont_def byte_char)
  next
    case 5
    define x y z u where "x = r div 262144" and "y = r div 4096 mod 64" and "z = r div 64 mod 64" and "u = r mod 64"
    have "r = x * 262144 + y * 4096 + z * 64 + u" "y < 64" "z < 64" "u < 64"
      using div_mult_mod_eq [of r 64] div_mult_mod_eq [of "r div 64" 64] div_mult_mod_eq [of "r div 4096" 64] r64
      unfolding x_def y_def z_def u_def by linarith+
    moreover from this 5 have "x < 5" "x = 0 \<longrightarrow> 16 \<le> y" "x = 4 \<longrightarrow> y \<le> 15" by auto
    moreover have "utf8 r = [char_of (240 + x), char_of (128 + y), char_of (128 + z), char_of (128 + u)]"
      using 5 by (auto simp: utf8_def x_def y_def z_def u_def)
    ultimately show ?thesis
      by (intro valid_utf8_rune [of _ "x * 262144 + y * 4096 + z * 64 + u"]) (simp_all add: DecodeRune_def decode4_def cont_def byte_char)
  qed
qed

lemma unescape_valid: "unescape s = Some (bs, r) \<Longrightarrow> valid_utf8 bs"
  by (auto simp: unescape_def valid_utf8_one utf8_valid split: list.splits if_splits option.splits)

lemma unquote_valid: "unquote s = Some (bs, r) \<Longrightarrow> valid_utf8 bs"
proof (induction s arbitrary: bs rule: length_induct)
  case (1 s)
  have IH: "length t < length s \<Longrightarrow> unquote t = Some (b, r) \<Longrightarrow> valid_utf8 b" for t b using 1(1) by blast
  show ?case
  proof (cases s)
    case Nil
    with 1(2) show ?thesis by (simp add: unquote.simps)
  next
    case (Cons c cs)
    obtain x n where d: "DecodeRune (c # cs) = (x, n)" by force
    have rune: "valid_utf8 (take n (c # cs))" if "1 < n"
    proof (rule valid_utf8_rune [of _ x])
      from DecodeRune_multi [OF d that] have len: "length (take n (c # cs)) = n" and "DecodeRune (take n (c # cs) @ []) = (x, n)"
        by (simp_all del: take_Cons' append_Nil2)
      then show "DecodeRune (take n (c # cs)) = (x, length (take n (c # cs)))" by simp
      show "1 < length (take n (c # cs))" unfolding len by (rule that)
    qed
    have parts: "bs = [] \<or> (\<exists>p q t. bs = p @ q \<and> valid_utf8 p \<and> length t < length s \<and> unquote t = Some (q, r))"
      using 1(2) Cons d replacement_valid rune unescape_valid [of cs]
      by (auto simp: unquote.simps [of "c # cs"] prepend_Some less_Suc_eq_le valid_utf8_one split: if_splits option.splits, force intro!: exI [of _ "[c]"] valid_utf8_one)
    then show ?thesis using IH valid_utf8_append by auto
  qed
qed

lemma values_texts:
  "\<And>v r. pval d s = Some (v, r) \<Longrightarrow> texts v"
  "\<And>vs r. pelems d s = Some (vs, r) \<Longrightarrow> \<forall>v\<in>set vs. texts v"
  "\<And>ms r. pmems d s = Some (ms, r) \<Longrightarrow> \<forall>m\<in>set ms. valid_utf8 (fst m) \<and> texts (snd m)"
proof (induction d s and d s and d s rule: pval_pelems_pmems.induct)
  case (1 d s)
  then show ?case
    by (subst (asm) pval.simps) (auto dest: unquote_valid split: list.splits if_splits)
next
  case (2 d s)
  from 2(3) obtain v t x xs where v: "pval d s = Some (v, t)" "skip t = x # xs"
    and "vs = [v] \<or> (\<exists>us. pelems d (skip xs) = Some (us, r) \<and> vs = v # us \<and> x \<noteq> CHR '']'' \<and> x = CHR '','' \<and> length xs < length s)"
    by (subst (asm) pelems.simps) (auto split: list.splits if_splits option.splits)
  with 2(1) [OF v(1)] 2(2) [OF v(1) _ v(2)] show ?case by fastforce
next
  case (3 d s)
  from 3(3) obtain q s1 k t x xs v u y ys where s: "s = q # s1" "\<not> q \<noteq> quote_char" and k: "unquote s1 = Some (k, t)"
    and x: "skip t = x # xs" "\<not> (x \<noteq> CHR '':'' \<or> \<not> length xs < length s)" and v: "pval d (skip xs) = Some (v, u)" and y: "skip u = y # ys"
    and "ms = [(k, v)] \<or> (\<exists>us. pmems d (skip ys) = Some (us, r) \<and> ms = (k, v) # us \<and> y \<noteq> CHR ''}'' \<and> y = CHR '','' \<and> length ys < length s)"
    by (subst (asm) pmems.simps) (auto split: list.splits if_splits option.splits)
  with 3(1) [OF s k _ x v] 3(2) [OF s k _ x v _ y] unquote_valid [OF k] show ?case by fastforce
qed

lemma parse_texts: "parse_json s = Some v \<Longrightarrow> texts v"
  by (auto simp: parse_json_def dest: values_texts split: option.splits if_splits)

end
