(* ===== verification/JsonCodec.thy ===== *)
theory JsonCodec
  imports GoJson "HOL-Library.AList"
begin

text \<open>
  How encoding/json stores documents into Go values and writes them, by the type of the value. A decoder takes the
  document and the value that is already there, as a repeated member does, and fails on a value of another type;
  null leaves a plain value alone and clears a pointer, a slice or a map. A structure is the table of its fields.
  Members without a field are ignored. A slice or map without elements is taken to be nil. The memory behind
  the end of a slice is not modelled; it shows only when a member holding an array is repeated at least twice.
\<close>

section \<open>Decoding\<close>

fun dec_string :: "json \<Rightarrow> string \<Rightarrow> string option" where
  "dec_string (JStr s) old = Some s"
| "dec_string JNull old = Some old"
| "dec_string _ old = None"

fun dec_bool :: "json \<Rightarrow> bool \<Rightarrow> bool option" where
  "dec_bool (JBool b) old = Some b"
| "dec_bool JNull old = Some old"
| "dec_bool _ old = None"

text \<open>Integers of 64 bits, signed and unsigned; a fraction, an exponent or an overflow is an error.\<close>

fun dec_int :: "json \<Rightarrow> int \<Rightarrow> int option" where
  "dec_int (JNum l) old = Atoi l"
| "dec_int JNull old = Some old"
| "dec_int _ old = None"

fun dec_uint :: "json \<Rightarrow> nat \<Rightarrow> nat option" where
  "dec_uint (JNum l) old = (case digits_val 0 l of None \<Rightarrow> None | Some v \<Rightarrow> if v < 2 ^ 64 then Some (nat v) else None)"
| "dec_uint JNull old = Some old"
| "dec_uint _ old = None"

definition dec_ptr :: "(json \<Rightarrow> 'a \<Rightarrow> 'a option) \<Rightarrow> 'a \<Rightarrow> json \<Rightarrow> 'a option \<Rightarrow> 'a option option" where
  "dec_ptr dec zero j old =
     (if j = JNull then Some None else map_option Some (dec j (case old of None \<Rightarrow> zero | Some x \<Rightarrow> x)))"

fun dec_elems :: "(json \<Rightarrow> 'a \<Rightarrow> 'a option) \<Rightarrow> 'a \<Rightarrow> json list \<Rightarrow> 'a list \<Rightarrow> 'a list option" where
  "dec_elems dec zero [] old = Some []"
| "dec_elems dec zero (j # js) old =
     (case dec j (case old of [] \<Rightarrow> zero | x # _ \<Rightarrow> x) of
        None \<Rightarrow> None
      | Some y \<Rightarrow> map_option ((#) y) (dec_elems dec zero js (tl old)))"

fun dec_slice :: "(json \<Rightarrow> 'a \<Rightarrow> 'a option) \<Rightarrow> 'a \<Rightarrow> json \<Rightarrow> 'a list \<Rightarrow> 'a list option" where
  "dec_slice dec zero (JArr js) old = dec_elems dec zero js old"
| "dec_slice dec zero JNull old = Some []"
| "dec_slice dec zero _ old = None"

text \<open>An array of two strings: further elements are skipped, missing ones are empty.\<close>

fun dec_pair :: "json \<Rightarrow> string \<times> string \<Rightarrow> (string \<times> string) option" where
  "dec_pair (JArr js) old =
     (case js of
        [] \<Rightarrow> Some ([], [])
      | [x] \<Rightarrow> map_option (\<lambda>a. (a, [])) (dec_string x (fst old))
      | x # y # _ \<Rightarrow>
          (case dec_string x (fst old) of None \<Rightarrow> None | Some a \<Rightarrow> map_option (Pair a) (dec_string y (snd old))))"
| "dec_pair JNull old = Some old"
| "dec_pair _ old = None"

fun dec_entries :: "(json \<Rightarrow> 'a \<Rightarrow> 'a option) \<Rightarrow> 'a \<Rightarrow> (bytes \<times> json) list \<Rightarrow> (string \<rightharpoonup> 'a) \<Rightarrow> (string \<rightharpoonup> 'a) option" where
  "dec_entries dec zero [] m = Some m"
| "dec_entries dec zero ((k, j) # ms) m =
     (case dec j zero of None \<Rightarrow> None | Some x \<Rightarrow> dec_entries dec zero ms (m(k \<mapsto> x)))"

fun dec_map :: "(json \<Rightarrow> 'a \<Rightarrow> 'a option) \<Rightarrow> 'a \<Rightarrow> json \<Rightarrow> (string \<rightharpoonup> 'a) \<Rightarrow> (string \<rightharpoonup> 'a) option" where
  "dec_map dec zero (JObj ms) m = dec_entries dec zero ms m"
| "dec_map dec zero JNull m = Some Map.empty"
| "dec_map dec zero _ m = None"

text \<open>A map that is ranged over, as a list of pairs with distinct keys.\<close>

fun dec_pairs :: "(json \<Rightarrow> 'a \<Rightarrow> 'a option) \<Rightarrow> 'a \<Rightarrow> (bytes \<times> json) list \<Rightarrow> (string \<times> 'a) list \<Rightarrow> (string \<times> 'a) list option" where
  "dec_pairs dec zero [] m = Some m"
| "dec_pairs dec zero ((k, j) # ms) m =
     (case dec j zero of None \<Rightarrow> None | Some x \<Rightarrow> dec_pairs dec zero ms (AList.update k x m))"

fun dec_assoc :: "(json \<Rightarrow> 'a \<Rightarrow> 'a option) \<Rightarrow> 'a \<Rightarrow> json \<Rightarrow> (string \<times> 'a) list \<Rightarrow> (string \<times> 'a) list option" where
  "dec_assoc dec zero (JObj ms) m = dec_pairs dec zero ms m"
| "dec_assoc dec zero JNull m = Some []"
| "dec_assoc dec zero _ m = None"

text \<open>
  Names of members are compared exactly, then up to case. Of the code points beyond ASCII only U+017F and
  U+212A fold to letters (S and K), and the names of the fields are ASCII.
\<close>

function foldName :: "bytes \<Rightarrow> string" where
  "foldName s =
     (case s of
        [] \<Rightarrow> []
      | c # cs \<Rightarrow>
          if 97 \<le> byte_val c \<and> byte_val c \<le> 122 then char_of (byte_val c - 32) # foldName cs
          else if prefix [CHR 0xC5, CHR 0xBF] s then CHR ''S'' # foldName (drop 2 s)
          else if prefix [CHR 0xE2, CHR 0x84, CHR 0xAA] s then CHR ''K'' # foldName (drop 3 s)
          else c # foldName cs)"
  by pat_completeness auto
termination
  by (relation "measure length") auto

declare foldName.simps [simp del]

section \<open>Structures\<close>

text \<open>
  A field of a structure: the name of its tag, what is written (nothing for an empty value with omitempty) and
  how a document is stored into it.
\<close>

type_synonym 'r field = "string \<times> ('r \<Rightarrow> json option) \<times> (json \<Rightarrow> 'r \<Rightarrow> 'r option)"

definition fld ::
  "string \<Rightarrow> ('a \<Rightarrow> json) \<Rightarrow> (json \<Rightarrow> 'a \<Rightarrow> 'a option) \<Rightarrow> ('r \<Rightarrow> 'a) \<Rightarrow> (('a \<Rightarrow> 'a) \<Rightarrow> 'r \<Rightarrow> 'r) \<Rightarrow> 'r field" where
  "fld name enc dec get upd =
     (name, \<lambda>r. Some (enc (get r)), \<lambda>j r. map_option (\<lambda>x. upd (\<lambda>_. x) r) (dec j (get r)))"

definition omitempty ::
  "string \<Rightarrow> 'a \<Rightarrow> ('a \<Rightarrow> json) \<Rightarrow> (json \<Rightarrow> 'a \<Rightarrow> 'a option) \<Rightarrow> ('r \<Rightarrow> 'a) \<Rightarrow> (('a \<Rightarrow> 'a) \<Rightarrow> 'r \<Rightarrow> 'r) \<Rightarrow> 'r field" where
  "omitempty name zero enc dec get upd =
     (name, \<lambda>r. if get r = zero then None else Some (enc (get r)),
      \<lambda>j r. map_option (\<lambda>x. upd (\<lambda>_. x) r) (dec j (get r)))"

text \<open>A field of a structure that is only ever read.\<close>

definition read_fld :: "string \<Rightarrow> (json \<Rightarrow> 'a \<Rightarrow> 'a option) \<Rightarrow> ('r \<Rightarrow> 'a) \<Rightarrow> (('a \<Rightarrow> 'a) \<Rightarrow> 'r \<Rightarrow> 'r) \<Rightarrow> 'r field" where
  "read_fld name dec get upd = (name, \<lambda>r. None, \<lambda>j r. map_option (\<lambda>x. upd (\<lambda>_. x) r) (dec j (get r)))"

definition find_field :: "'r field list \<Rightarrow> bytes \<Rightarrow> (json \<Rightarrow> 'r \<Rightarrow> 'r option) option" where
  "find_field fs k =
     (case find (\<lambda>f. fst f = k) fs of
        Some f \<Rightarrow> Some (snd (snd f))
      | None \<Rightarrow> map_option (snd \<circ> snd) (find (\<lambda>f. foldName (fst f) = foldName k) fs))"

fun dec_members :: "'r field list \<Rightarrow> (bytes \<times> json) list \<Rightarrow> 'r \<Rightarrow> 'r option" where
  "dec_members fs [] r = Some r"
| "dec_members fs ((k, j) # ms) r =
     (case find_field fs k of
        None \<Rightarrow> dec_members fs ms r
      | Some store \<Rightarrow> (case store j r of None \<Rightarrow> None | Some r \<Rightarrow> dec_members fs ms r))"

fun dec_struct :: "'r field list \<Rightarrow> json \<Rightarrow> 'r \<Rightarrow> 'r option" where
  "dec_struct fs (JObj ms) r = dec_members fs ms r"
| "dec_struct fs JNull r = Some r"
| "dec_struct fs _ r = None"

section \<open>Encoding\<close>

definition enc_int :: "int \<Rightarrow> json" where "enc_int i = JNum (FormatInt i)"

definition enc_uint :: "nat \<Rightarrow> json" where "enc_uint n = enc_int (int n)"

definition enc_ptr :: "('a \<Rightarrow> json) \<Rightarrow> 'a option \<Rightarrow> json" where
  "enc_ptr enc p = (case p of None \<Rightarrow> JNull | Some x \<Rightarrow> enc x)"

definition enc_slice :: "('a \<Rightarrow> json) \<Rightarrow> 'a list \<Rightarrow> json" where
  "enc_slice enc xs = (if xs = [] then JNull else JArr (map enc xs))"

definition enc_pair :: "string \<times> string \<Rightarrow> json" where
  "enc_pair p = JArr [JStr (fst p), JStr (snd p)]"

text \<open>The keys of a map are sorted.\<close>

definition enc_map :: "('a \<Rightarrow> json) \<Rightarrow> (string \<rightharpoonup> 'a) \<Rightarrow> json" where
  "enc_map enc m =
     (if m = Map.empty then JNull
      else JObj (map (\<lambda>k. (k, enc (the (m k)))) (sorted_list_of_set (dom m))))"

definition enc_struct :: "'r field list \<Rightarrow> 'r \<Rightarrow> json" where
  "enc_struct fs r = JObj (List.map_filter (\<lambda>f. map_option (Pair (fst f)) (fst (snd f) r)) fs)"

section \<open>Documents\<close>

text \<open>
  \<open>json.Unmarshal\<close> into a fresh variable and \<open>json.Marshal\<close>, for values whose types have an encoding. None is any
  error of the decoder; the decoder first scans the whole document, so a value is stored only from a document that
  is well-formed.
\<close>

definition Unmarshal :: "(json \<Rightarrow> 'a \<Rightarrow> 'a option) \<Rightarrow> 'a \<Rightarrow> bytes \<Rightarrow> 'a option" where
  "Unmarshal dec zero payload = (case parse_json payload of None \<Rightarrow> None | Some j \<Rightarrow> dec j zero)"

definition json_Marshal :: "('a \<Rightarrow> json) \<Rightarrow> 'a \<Rightarrow> bytes" where
  "json_Marshal enc x = print_json (enc x)"

section \<open>Round trips\<close>


text \<open>
  A codec: what is written is read back over the zero value, and it fits into a document with \<open>h\<close> levels of
  nesting. \<open>ok\<close> says which values can be written without loss; what is read from a document with well-formed
  texts is one of them.
\<close>

named_theorems codec_ok \<open>what is read satisfies the predicate of its codec\<close>

locale json_codec =
  fixes enc :: "'a \<Rightarrow> json" and dec :: "json \<Rightarrow> 'a \<Rightarrow> 'a option" and zero :: 'a and ok :: "'a \<Rightarrow> bool" and h :: nat
  assumes dec_enc [simp]: "ok x \<Longrightarrow> dec (enc x) zero = Some x"
    and enc_fits [simp]: "ok x \<Longrightarrow> h \<le> d \<Longrightarrow> json_ok d (enc x)"
    and zero_ok [simp]: "ok zero"
    and dec_ok [codec_ok]: "dec j x = Some y \<Longrightarrow> texts j \<Longrightarrow> ok x \<Longrightarrow> ok y"
begin

lemma through_text:
  assumes "ok x" and "h \<le> maxNestingDepth"
  shows "Unmarshal dec zero (json_Marshal enc x) = Some x"
  using assms by (simp add: Unmarshal_def json_Marshal_def parse_print)

lemma read_ok: "Unmarshal dec zero payload = Some x \<Longrightarrow> ok x"
  by (auto simp: Unmarshal_def split: option.splits intro: dec_ok parse_texts)

lemma elements: "\<forall>x\<in>set xs. ok x \<Longrightarrow> dec_elems dec zero (map enc xs) [] = Some xs"
  by (induction xs) simp_all

lemma slice [simp]: "\<forall>x\<in>set xs. ok x \<Longrightarrow> dec_slice dec zero (enc_slice enc xs) [] = Some xs"
  by (simp add: enc_slice_def elements)

lemma slice_fits [simp]: "\<forall>x\<in>set xs. ok x \<Longrightarrow> Suc h \<le> d \<Longrightarrow> json_ok d (enc_slice enc xs)"
  by (auto simp: enc_slice_def intro!: enc_fits)

lemma ptr_ok [codec_ok]:
  "dec_ptr dec zero j p = Some q \<Longrightarrow> texts j \<Longrightarrow> \<forall>x\<in>set_option p. ok x \<Longrightarrow> x \<in> set_option q \<Longrightarrow> ok x"
  by (auto simp: dec_ptr_def split: if_splits option.splits intro: dec_ok)

lemma elems_ok:
  "dec_elems dec zero js xs = Some ys \<Longrightarrow> \<forall>j\<in>set js. texts j \<Longrightarrow> \<forall>x\<in>set xs. ok x \<Longrightarrow> \<forall>y\<in>set ys. ok y"
proof (induction js arbitrary: xs ys)
  case (Cons j js)
  from Cons.prems obtain y zs where y: "dec j (case xs of [] \<Rightarrow> zero | x # _ \<Rightarrow> x) = Some y"
    and zs: "dec_elems dec zero js (tl xs) = Some zs" "ys = y # zs" by (auto split: option.splits)
  have "ok y" using dec_ok [OF y] Cons.prems by (auto split: list.splits)
  moreover have "\<forall>x\<in>set (tl xs). ok x" using Cons.prems by (cases xs) auto
  ultimately show ?case using Cons.IH [OF zs(1)] Cons.prems zs(2) by simp
qed simp

lemma slice_ok [codec_ok]:
  "dec_slice dec zero j xs = Some ys \<Longrightarrow> texts j \<Longrightarrow> \<forall>x\<in>set xs. ok x \<Longrightarrow> y \<in> set ys \<Longrightarrow> ok y"
  by (cases j) (auto dest: elems_ok)

lemma entries_ok:
  "dec_entries dec zero ms m = Some n \<Longrightarrow> \<forall>e\<in>set ms. valid_utf8 (fst e) \<and> texts (snd e) \<Longrightarrow>
   finite (dom m) \<and> (\<forall>k\<in>dom m. valid_utf8 k) \<and> (\<forall>x\<in>ran m. ok x) \<Longrightarrow>
   finite (dom n) \<and> (\<forall>k\<in>dom n. valid_utf8 k) \<and> (\<forall>x\<in>ran n. ok x)"
proof (induction ms arbitrary: m)
  case (Cons e ms)
  obtain k j where e: "e = (k, j)" by force
  from Cons.prems(1) obtain x where x: "dec j zero = Some x" and n: "dec_entries dec zero ms (m(k \<mapsto> x)) = Some n"
    by (auto simp: e split: option.splits)
  have "ok x" using dec_ok [OF x] Cons.prems(2) by (simp add: e)
  moreover have "ran (m(k \<mapsto> x)) \<subseteq> insert x (ran m)" by (auto simp: ran_def)
  ultimately have "\<forall>x\<in>ran (m(k \<mapsto> x)). ok x" using Cons.prems(3) by blast
  moreover have "finite (dom (m(k \<mapsto> x)))" "dom (m(k \<mapsto> x)) = insert k (dom m)" using Cons.prems(3) by simp_all
  moreover have "valid_utf8 k" "\<forall>e\<in>set ms. valid_utf8 (fst e) \<and> texts (snd e)" using Cons.prems(2) by (simp_all add: e)
  ultimately show ?case using Cons.prems(3) by (intro Cons.IH [OF n]) (blast, metis insert_iff)
qed simp

lemma entries:
  "\<forall>k\<in>set ks. \<exists>x. m k = Some x \<and> ok x \<Longrightarrow>
   dec_entries dec zero (map (\<lambda>k. (k, enc (the (m k)))) ks) m0 = Some (m0 ++ (m |` set ks))"
proof (induction ks arbitrary: m0)
  case (Cons k ks)
  then obtain x where x: "m k = Some x" "ok x" by auto
  have "m0(k \<mapsto> x) ++ (m |` set ks) = m0 ++ (m |` set (k # ks))"
    using x by (auto simp: map_add_def restrict_map_def fun_eq_iff split: option.split)
  with Cons x show ?case by simp
qed (simp add: restrict_map_def)

lemma entries_all:
  assumes "finite (dom m)" and "\<forall>x\<in>ran m. ok x"
  shows "dec_map dec zero (enc_map enc m) Map.empty = Some m"
proof (cases "m = Map.empty")
  case False
  have "\<forall>k\<in>set (sorted_list_of_set (dom m)). \<exists>x. m k = Some x \<and> ok x" using assms by (auto intro: ranI)
  from entries [OF this, of Map.empty] False assms(1) show ?thesis
    by (simp add: enc_map_def restrict_map_def fun_eq_iff) (auto simp: domIff)
qed (simp add: enc_map_def)

lemma entries_fit:
  "finite (dom m) \<Longrightarrow> \<forall>k\<in>dom m. valid_utf8 k \<Longrightarrow> \<forall>x\<in>ran m. ok x \<Longrightarrow> Suc h \<le> d \<Longrightarrow> json_ok d (enc_map enc m)"
  by (auto simp: enc_map_def intro!: enc_fits ranI)

end
text \<open>A structure is read back field by field.\<close>

definition put_field :: "'r \<Rightarrow> 'r field \<Rightarrow> 'r \<Rightarrow> 'r option" where
  "put_field r f acc = (case fst (snd f) r of None \<Rightarrow> Some acc | Some j \<Rightarrow> snd (snd f) j acc)"

fun put_fields :: "'r \<Rightarrow> 'r field list \<Rightarrow> 'r \<Rightarrow> 'r option" where
  "put_fields r [] acc = Some acc"
| "put_fields r (f # fs) acc = Option.bind (put_field r f acc) (put_fields r fs)"

lemma find_field_member: "distinct (map fst fs) \<Longrightarrow> f \<in> set fs \<Longrightarrow> find_field fs (fst f) = Some (snd (snd f))"
proof -
  assume "distinct (map fst fs)" and "f \<in> set fs"
  then have "find (\<lambda>g. fst g = fst f) fs = Some f" by (induction fs) (auto simp: image_iff)
  then show ?thesis by (simp add: find_field_def)
qed

lemma dec_members_put:
  assumes "distinct (map fst fs)"
  shows "set gs \<subseteq> set fs \<Longrightarrow>
    dec_members fs (List.map_filter (\<lambda>f. map_option (Pair (fst f)) (fst (snd f) r)) gs) acc = put_fields r gs acc"
proof (induction gs arbitrary: acc)
  case (Cons g gs)
  then show ?case
    by (cases "fst (snd g) r"; cases "put_field r g acc")
      (auto simp: map_filter_simps put_field_def find_field_member [OF assms])
qed (simp add: map_filter_simps)

lemma dec_enc_struct: "distinct (map fst fs) \<Longrightarrow> dec_struct fs (enc_struct fs r) zero = put_fields r fs zero"
  by (simp add: enc_struct_def dec_members_put)

lemma put_fld [simp]:
  "dec (enc (get r)) (get acc) = Some (get r) \<Longrightarrow> put_field r (fld n enc dec get upd) acc = Some (upd (\<lambda>_. get r) acc)"
  by (simp add: put_field_def fld_def)

lemma put_omitempty [simp]:
  "get acc = zero \<Longrightarrow> upd (\<lambda>_. zero) acc = acc \<Longrightarrow> (get r \<noteq> zero \<Longrightarrow> dec (enc (get r)) zero = Some (get r)) \<Longrightarrow>
   put_field r (omitempty n zero enc dec get upd) acc = Some (upd (\<lambda>_. get r) acc)"
  by (simp add: put_field_def omitempty_def)

definition field_fits :: "nat \<Rightarrow> 'r \<Rightarrow> 'r field \<Rightarrow> bool" where
  "field_fits d r f \<longleftrightarrow> (case fst (snd f) r of None \<Rightarrow> True | Some j \<Rightarrow> json_ok d j)"

lemma field_fits_simps [simp]:
  "field_fits d r (fld n enc dec get upd) \<longleftrightarrow> json_ok d (enc (get r))"
  "field_fits d r (omitempty n zero enc dec get upd) \<longleftrightarrow> (get r \<noteq> zero \<longrightarrow> json_ok d (enc (get r)))"
  by (simp_all add: field_fits_def fld_def omitempty_def)

lemma field_name [simp]:
  "fst (fld n enc dec get upd) = n" "fst (omitempty n zero enc dec get upd) = n"
  by (simp_all add: fld_def omitempty_def)

lemma enc_struct_fits:
  assumes "list_all (is_ascii \<circ> fst) fs" and "list_all (field_fits (d - 1) r) fs" and "0 < d"
  shows "json_ok d (enc_struct fs r)"
proof -
  have "\<forall>f\<in>set fs. valid_utf8 (fst f)" using assms(1) by (simp add: list_all_iff valid_utf8_ascii)
  with assms(2,3) show ?thesis
    unfolding list_all_iff by (auto simp: enc_struct_def field_fits_def map_filter_def split: option.splits)
qed

text \<open>Storing a document into a field keeps a property of the structure.\<close>

definition keeps :: "('r \<Rightarrow> bool) \<Rightarrow> 'r field \<Rightarrow> bool" where
  "keeps ok f \<longleftrightarrow> (\<forall>j r y. snd (snd f) j r = Some y \<longrightarrow> texts j \<longrightarrow> ok r \<longrightarrow> ok y)"

lemma keeps_simps [simp]:
  "keeps ok (fld n enc dec get upd) \<longleftrightarrow> (\<forall>j r x. dec j (get r) = Some x \<longrightarrow> texts j \<longrightarrow> ok r \<longrightarrow> ok (upd (\<lambda>_. x) r))"
  "keeps ok (omitempty n zero enc dec get upd) \<longleftrightarrow> (\<forall>j r x. dec j (get r) = Some x \<longrightarrow> texts j \<longrightarrow> ok r \<longrightarrow> ok (upd (\<lambda>_. x) r))"
  by (auto simp: keeps_def fld_def omitempty_def)

lemma find_field_set: "find_field fs k = Some st \<Longrightarrow> \<exists>f\<in>set fs. st = snd (snd f)"
  by (auto simp: find_field_def find_Some_iff split: option.splits) (metis nth_mem snd_conv)+

lemma dec_members_keep:
  assumes "list_all (keeps ok) fs"
  shows "dec_members fs ms r = Some y \<Longrightarrow> \<forall>m\<in>set ms. texts (snd m) \<Longrightarrow> ok r \<Longrightarrow> ok y"
proof (induction ms arbitrary: r)
  case (Cons m ms)
  obtain k j where m: "m = (k, j)" by force
  show ?case
  proof (cases "find_field fs k")
    case None
    with Cons m show ?thesis by simp
  next
    case (Some st)
    with Cons.prems obtain r' where r': "st j r = Some r'" "dec_members fs ms r' = Some y" by (auto simp: m split: option.splits)
    from find_field_set [OF Some] assms r'(1) Cons.prems m have "ok r'" by (auto simp: list_all_iff keeps_def)
    with Cons.IH [OF r'(2)] Cons.prems show ?thesis by simp
  qed
qed simp

lemma dec_struct_keep: "dec_struct fs j r = Some y \<Longrightarrow> list_all (keeps ok) fs \<Longrightarrow> texts j \<Longrightarrow> ok r \<Longrightarrow> ok y"
  by (cases j) (auto intro: dec_members_keep)

lemma keeps_read_fld [simp]:
  "keeps ok (read_fld n dec get upd) \<longleftrightarrow> (\<forall>j r x. dec j (get r) = Some x \<longrightarrow> texts j \<longrightarrow> ok r \<longrightarrow> ok (upd (\<lambda>_. x) r))"
  by (auto simp: keeps_def read_fld_def)

lemma dec_assoc_distinct: "dec_assoc dec zero j m = Some n \<Longrightarrow> distinct (map fst m) \<Longrightarrow> distinct (map fst n)"
proof (cases j)
  case (JObj ms)
  have "dec_pairs dec zero ms m = Some n \<Longrightarrow> distinct (map fst m) \<Longrightarrow> distinct (map fst n)"
    by (induction ms arbitrary: m) (auto simp: distinct_update split: option.splits)
  then show "dec_assoc dec zero j m = Some n \<Longrightarrow> distinct (map fst m) \<Longrightarrow> distinct (map fst n)" by (simp add: JObj)
qed simp_all

lemma struct_codec:
  assumes "distinct (map fst fs)" and "list_all (is_ascii \<circ> fst) fs"
    and "\<And>r. ok r \<Longrightarrow> put_fields r fs zero = Some r"
    and "\<And>r d. ok r \<Longrightarrow> h \<le> d \<Longrightarrow> list_all (field_fits d r) fs"
    and "ok zero" and "list_all (keeps ok) fs"
  shows "json_codec (enc_struct fs) (dec_struct fs) zero ok (Suc h)"
proof
  fix r d assume "ok r"
  then show "dec_struct fs (enc_struct fs r) zero = Some r" using assms(1,3) by (simp add: dec_enc_struct)
  show "json_ok d (enc_struct fs r)" if "Suc h \<le> d" using that assms(2,4) \<open>ok r\<close> by (intro enc_struct_fits) simp_all
next
  fix j x y assume "dec_struct fs j x = Some y" and "texts j" and "ok x"
  with assms(6) show "ok y" by (metis dec_struct_keep)
qed (rule assms(5))

text \<open>Texts, truth values and integers.\<close>

definition uint64 :: "nat \<Rightarrow> bool" where
  "uint64 n \<longleftrightarrow> n < 2 ^ 64"

lemma dec_enc_leaf [simp]:
  "int64 i \<Longrightarrow> dec_int (enc_int i) j = Some i" "uint64 n \<Longrightarrow> dec_uint (enc_uint n) k = Some n"
proof -
  show "int64 i \<Longrightarrow> dec_int (enc_int i) j = Some i" by (simp add: enc_int_def Atoi_FormatInt)
  show "uint64 n \<Longrightarrow> dec_uint (enc_uint n) k = Some n"
    by (simp add: uint64_def enc_int_def enc_uint_def FormatInt_def digits_val_nat_digits)
qed

lemma enc_leaf_fits [simp]: "json_ok d (enc_int i)" "json_ok d (enc_uint n)"
  by (auto simp: enc_int_def enc_uint_def)

lemma enc_int_not_null [simp]: "enc_int i \<noteq> JNull" "enc_struct fs r \<noteq> JNull" "enc_pair p \<noteq> JNull"
  by (simp_all add: enc_int_def enc_struct_def enc_pair_def)

lemma enc_ptr_fits [simp]: "json_ok d (enc_ptr enc p) \<longleftrightarrow> (\<forall>x\<in>set_option p. json_ok d (enc x))"
  by (simp add: enc_ptr_def split: option.split)

lemma dec_enc_ptr [simp]:
  "(\<And>x. p = Some x \<Longrightarrow> enc x \<noteq> JNull \<and> dec (enc x) zero = Some x) \<Longrightarrow> dec_ptr dec zero (enc_ptr enc p) None = Some p"
  by (cases p) (simp_all add: dec_ptr_def enc_ptr_def)

lemma dec_string_ok: "dec_string j x = Some y \<Longrightarrow> texts j \<Longrightarrow> valid_utf8 x \<Longrightarrow> valid_utf8 y"
  by (cases j) auto

lemma dec_int_ok: "dec_int j x = Some y \<Longrightarrow> int64 x \<Longrightarrow> int64 y"
  by (cases j) (auto intro: Atoi_range)

lemma dec_uint_ok: "dec_uint j x = Some y \<Longrightarrow> uint64 x \<Longrightarrow> uint64 y"
  by (cases j) (auto simp: uint64_def nat_less_iff split: option.splits if_splits)

definition pair_ok :: "string \<times> string \<Rightarrow> bool" where
  "pair_ok p \<longleftrightarrow> valid_utf8 (fst p) \<and> valid_utf8 (snd p)"

lemma dec_pair_ok: "dec_pair j p = Some q \<Longrightarrow> texts j \<Longrightarrow> pair_ok p \<Longrightarrow> pair_ok q"
  by (cases j) (auto simp: pair_ok_def split: list.splits option.splits intro: dec_string_ok)

lemma int64_0 [simp]: "int64 0"
  by (simp add: int64_def)

interpretation int_codec: json_codec enc_int dec_int 0 int64 0
  by unfold_locales (simp_all add: dec_int_ok)

interpretation uint_codec: json_codec enc_uint dec_uint 0 uint64 0
  by unfold_locales (simp_all add: dec_uint_ok uint64_def [of 0])

interpretation text_codec: json_codec JStr dec_string "[]" valid_utf8 0
  by unfold_locales (simp_all add: dec_string_ok)

interpretation pair_codec: json_codec enc_pair dec_pair "([], [])" pair_ok 1
  by unfold_locales (simp_all add: enc_pair_def pair_ok_def dec_pair_ok [unfolded pair_ok_def])
end
