(* ===== verification/Messages.thy ===== *)
theory Messages
  imports JsonCodec
begin

text \<open>
  The messages between the proxy module and the inspector (the types of src/internal/protocol/protocol.go) and their
  JSON form. Every structure has the table of its fields, from the tags in the source; encoding and decoding follow
  the tables, and each pair of them is a codec: what one side writes is what the other side reads. Go strings are
  byte strings, a pointer is an option, and an empty slice or map is nil.
\<close>

section \<open>Messages\<close>

definition Version :: int where "Version = 2"

record TLS =
  tls_Version :: string
  tls_SNI :: string
  tls_JA4 :: string

record Conn =
  c_ClientIP :: string
  c_ClientPort :: int
  c_ServerIP :: string
  c_ServerPort :: int
  c_TLS :: "TLS option"

type_synonym Header = "string \<times> string"

definition Header_Name :: "Header \<Rightarrow> string" where "Header_Name h = fst h"

definition Header_Value :: "Header \<Rightarrow> string" where "Header_Value h = snd h"

record HTTP =
  h_Method :: string
  h_Scheme :: string
  h_Host :: string
  h_URI :: string
  h_ArgsSize :: int
  h_Version :: string

record Response =
  rs_Status :: int
  rs_Headers :: "Header list"
  rs_UpstreamMS :: int

record Enc =
  e_Alg :: string
  e_KID :: string
  e_Nonce :: string

record Locator =
  l_Store :: string
  l_Driver :: string
  l_Key :: string
  l_Unavailable :: string
  l_Size :: int
  l_DeclaredSize :: int
  l_SHA256 :: string
  l_ProcessedSHA256 :: string
  l_Transformed :: bool
  l_Complete :: bool
  l_Truncated :: bool
  l_Encoding :: string
  l_ExpiresAt :: int
  l_Hint :: string
  l_Enc :: "Enc option"

definition Placed :: "Locator option \<Rightarrow> bool" where
  "Placed l = (case l of None \<Rightarrow> False
     | Some l \<Rightarrow> l_Unavailable l = [] \<and> l_Driver l \<noteq> [] \<and> l_Key l \<noteq> [])"

record Store =
  s_Headers :: "Locator option"
  s_Args :: "Locator option"
  s_Body :: "Locator option"

record Route =
  rt_ServerName :: string
  rt_Location :: string
  rt_Profile :: string

record ScoreState =
  sc_Total :: int
  sc_DenyAt :: int

definition DoChallenge :: string where "DoChallenge = ''challenge''"
definition DoThreshold :: string where "DoThreshold = ''threshold''"
definition DoSkip :: string where "DoSkip = ''skip''"
definition DoReauth :: string where "DoReauth = ''reauth''"
definition DoNote :: string where "DoNote = ''note''"
definition DoMutate :: string where "DoMutate = ''mutate''"

definition ApplyRequest :: string where "ApplyRequest = ''request''"

record Action =
  a_To :: string
  a_Do :: string
  a_Apply :: string
  a_Code :: string
  a_Delta :: int
  a_Value :: int
  a_Counter :: string
  a_Group :: string
  a_Set :: string

definition Scope :: "Action \<Rightarrow> string" where
  "Scope a = (if a_Apply a = [] then ApplyRequest else a_Apply a)"

record PriorVerdict =
  pv_Phase :: string
  pv_Inspector :: string
  pv_Verdict :: string
  pv_Score :: int
  pv_Actions :: "Action list"

record Stream =
  st_Protocol :: string
  st_Direction :: string
  st_Opcode :: string
  st_Fin :: bool
  st_Subprotocol :: string

record Release =
  rl_Token :: string
  rl_Reason :: string

record Resume =
  ru_Want :: bool
  ru_Token :: string
  ru_Require :: bool

record Request =
  r_V :: int
  r_RID :: string
  r_Ray :: string
  r_Phase :: string
  r_Wave :: int
  r_Inspector :: string
  r_DeadlineMS :: int
  r_AuditSubject :: "string option"
  r_Node :: string
  r_Conn :: Conn
  r_HTTP :: HTTP
  r_Vars :: "string \<rightharpoonup> string"
  r_Needs :: "string list"
  r_Store :: Store
  r_Route :: Route
  r_Score :: ScoreState
  r_Prior :: "PriorVerdict list"
  r_Response :: "Response option"
  r_RequestStore :: Store
  r_Resume :: "Resume option"
  r_Release :: "Release option"
  r_ConnID :: string
  r_Seq :: nat
  r_Stream :: "Stream option"

definition PhaseRequest :: string where "PhaseRequest = ''request''"
definition PhaseResponse :: string where "PhaseResponse = ''response''"
definition PhaseFrame :: string where "PhaseFrame = ''frame''"

lemmas phase_defs = PhaseRequest_def PhaseResponse_def PhaseFrame_def

definition NeedHeaders :: string where "NeedHeaders = ''headers''"
definition NeedArgs :: string where "NeedArgs = ''args''"
definition NeedBody :: string where "NeedBody = ''body''"

lemmas need_defs = NeedHeaders_def NeedArgs_def NeedBody_def

definition Needed :: "Request \<Rightarrow> string \<Rightarrow> bool" where
  "Needed r obj = list_ex (\<lambda>n. n = obj) (r_Needs r)"

definition VerdictAllow :: string where "VerdictAllow = ''allow''"
definition VerdictScore :: string where "VerdictScore = ''score''"
definition VerdictRedirect :: string where "VerdictRedirect = ''redirect''"
definition VerdictDeny :: string where "VerdictDeny = ''deny''"
definition VerdictError :: string where "VerdictError = ''error''"

lemmas verdict_defs =
  VerdictAllow_def VerdictScore_def VerdictRedirect_def VerdictDeny_def VerdictError_def

record Reason =
  rn_Code :: string
  rn_Class :: string

record RedirectRef =
  rd_URL :: string
  rd_Status :: int

record HeaderOps =
  ho_Set :: "string \<rightharpoonup> string"
  ho_Unset :: "string list"

record RewriteBody =
  rb_Key :: string
  rb_Size :: int
  rb_SHA256 :: string

record Rewrite =
  rw_Body :: "RewriteBody option"
  rw_Groups :: "string list"

record Continue =
  ct_Subject :: string
  ct_TTLMS :: int

text \<open>The field \<open>Response\<close> of a reply is a structure with one field, the record name.\<close>

record Reply =
  y_V :: int
  y_RID :: string
  y_Inspector :: string
  y_Verdict :: string
  y_Score :: "int option"
  y_Reason :: "Reason option"
  y_Response :: "string option"
  y_Redirect :: "RedirectRef option"
  y_Headers :: "HeaderOps option"
  y_Rewrite :: "Rewrite option"
  y_Continue :: "Continue option"
  y_Actions :: "Action list"

section \<open>Zero values\<close>

definition zero_TLS :: TLS where
  "zero_TLS = \<lparr>tls_Version = [], tls_SNI = [], tls_JA4 = []\<rparr>"

definition zero_Conn :: Conn where
  "zero_Conn = \<lparr>c_ClientIP = [], c_ClientPort = 0, c_ServerIP = [], c_ServerPort = 0, c_TLS = None\<rparr>"

definition zero_HTTP :: HTTP where
  "zero_HTTP = \<lparr>h_Method = [], h_Scheme = [], h_Host = [], h_URI = [], h_ArgsSize = 0, h_Version = []\<rparr>"

definition zero_Response :: Response where
  "zero_Response = \<lparr>rs_Status = 0, rs_Headers = [], rs_UpstreamMS = 0\<rparr>"

definition zero_Enc :: Enc where
  "zero_Enc = \<lparr>e_Alg = [], e_KID = [], e_Nonce = []\<rparr>"

definition zero_Locator :: Locator where
  "zero_Locator = \<lparr>l_Store = [], l_Driver = [], l_Key = [], l_Unavailable = [], l_Size = 0, l_DeclaredSize = 0, l_SHA256 =
     [], l_ProcessedSHA256 = [], l_Transformed = False, l_Complete = False, l_Truncated = False, l_Encoding =
     [], l_ExpiresAt = 0, l_Hint = [], l_Enc = None\<rparr>"

definition zero_store :: Store where
  "zero_store = \<lparr>s_Headers = None, s_Args = None, s_Body = None\<rparr>"

definition zero_Route :: Route where
  "zero_Route = \<lparr>rt_ServerName = [], rt_Location = [], rt_Profile = []\<rparr>"

definition zero_ScoreState :: ScoreState where
  "zero_ScoreState = \<lparr>sc_Total = 0, sc_DenyAt = 0\<rparr>"

definition zero_Action :: Action where
  "zero_Action = \<lparr>a_To = [], a_Do = [], a_Apply = [], a_Code = [], a_Delta = 0, a_Value = 0, a_Counter = [], a_Group = [],
     a_Set = []\<rparr>"

definition zero_PriorVerdict :: PriorVerdict where
  "zero_PriorVerdict = \<lparr>pv_Phase = [], pv_Inspector = [], pv_Verdict = [], pv_Score = 0, pv_Actions = []\<rparr>"

definition zero_Stream :: Stream where
  "zero_Stream = \<lparr>st_Protocol = [], st_Direction = [], st_Opcode = [], st_Fin = False, st_Subprotocol = []\<rparr>"

definition zero_Release :: Release where
  "zero_Release = \<lparr>rl_Token = [], rl_Reason = []\<rparr>"

definition zero_Resume :: Resume where
  "zero_Resume = \<lparr>ru_Want = False, ru_Token = [], ru_Require = False\<rparr>"

definition zero_request :: Request where
  "zero_request = \<lparr>r_V = 0, r_RID = [], r_Ray = [], r_Phase = [], r_Wave = 0, r_Inspector = [], r_DeadlineMS = 0,
     r_AuditSubject = None, r_Node = [], r_Conn = zero_Conn, r_HTTP = zero_HTTP, r_Vars = Map.empty, r_Needs =
     [], r_Store = zero_store, r_Route = zero_Route, r_Score = zero_ScoreState, r_Prior = [], r_Response =
     None, r_RequestStore = zero_store, r_Resume = None, r_Release = None, r_ConnID = [], r_Seq = 0, r_Stream
     = None\<rparr>"

definition zero_Reason :: Reason where
  "zero_Reason = \<lparr>rn_Code = [], rn_Class = []\<rparr>"

definition zero_RedirectRef :: RedirectRef where
  "zero_RedirectRef = \<lparr>rd_URL = [], rd_Status = 0\<rparr>"

definition zero_HeaderOps :: HeaderOps where
  "zero_HeaderOps = \<lparr>ho_Set = Map.empty, ho_Unset = []\<rparr>"

definition zero_RewriteBody :: RewriteBody where
  "zero_RewriteBody = \<lparr>rb_Key = [], rb_Size = 0, rb_SHA256 = []\<rparr>"

definition zero_Rewrite :: Rewrite where
  "zero_Rewrite = \<lparr>rw_Body = None, rw_Groups = []\<rparr>"

definition zero_Continue :: Continue where
  "zero_Continue = \<lparr>ct_Subject = [], ct_TTLMS = 0\<rparr>"

definition zero_Reply :: Reply where
  "zero_Reply = \<lparr>y_V = 0, y_RID = [], y_Inspector = [], y_Verdict = [], y_Score = None, y_Reason = None, y_Response =
     None, y_Redirect = None, y_Headers = None, y_Rewrite = None, y_Continue = None, y_Actions = []\<rparr>"

lemmas zero_defs =
  zero_TLS_def zero_Conn_def zero_HTTP_def zero_Response_def zero_Enc_def zero_Locator_def
  zero_store_def zero_Route_def zero_ScoreState_def zero_Action_def zero_PriorVerdict_def
  zero_Stream_def zero_Release_def zero_Resume_def zero_request_def zero_Reason_def
  zero_RedirectRef_def zero_HeaderOps_def zero_RewriteBody_def zero_Rewrite_def zero_Continue_def
  zero_Reply_def

section \<open>The fields and their tags\<close>

definition TLS_fields :: "TLS field list" where
  "TLS_fields =
     [fld ''version'' JStr dec_string tls_Version tls_Version_update,
      fld ''sni'' JStr dec_string tls_SNI tls_SNI_update,
      fld ''ja4'' JStr dec_string tls_JA4 tls_JA4_update]"

definition Conn_fields :: "Conn field list" where
  "Conn_fields =
     [fld ''client_ip'' JStr dec_string c_ClientIP c_ClientIP_update,
      fld ''client_port'' enc_int dec_int c_ClientPort c_ClientPort_update,
      fld ''server_ip'' JStr dec_string c_ServerIP c_ServerIP_update,
      fld ''server_port'' enc_int dec_int c_ServerPort c_ServerPort_update,
      fld ''tls'' (enc_ptr (enc_struct TLS_fields)) (dec_ptr (dec_struct TLS_fields) zero_TLS) c_TLS c_TLS_update]"

definition HTTP_fields :: "HTTP field list" where
  "HTTP_fields =
     [fld ''method'' JStr dec_string h_Method h_Method_update,
      fld ''scheme'' JStr dec_string h_Scheme h_Scheme_update,
      fld ''host'' JStr dec_string h_Host h_Host_update,
      fld ''uri'' JStr dec_string h_URI h_URI_update,
      fld ''args_size'' enc_int dec_int h_ArgsSize h_ArgsSize_update,
      fld ''version'' JStr dec_string h_Version h_Version_update]"

definition Response_fields :: "Response field list" where
  "Response_fields =
     [fld ''status'' enc_int dec_int rs_Status rs_Status_update,
      fld ''headers'' (enc_slice enc_pair) (dec_slice dec_pair ([], [])) rs_Headers rs_Headers_update,
      fld ''upstream_ms'' enc_int dec_int rs_UpstreamMS rs_UpstreamMS_update]"

definition Enc_fields :: "Enc field list" where
  "Enc_fields =
     [fld ''alg'' JStr dec_string e_Alg e_Alg_update,
      fld ''kid'' JStr dec_string e_KID e_KID_update,
      fld ''nonce'' JStr dec_string e_Nonce e_Nonce_update]"

definition Locator_fields :: "Locator field list" where
  "Locator_fields =
     [fld ''store'' JStr dec_string l_Store l_Store_update,
      fld ''driver'' JStr dec_string l_Driver l_Driver_update,
      fld ''key'' JStr dec_string l_Key l_Key_update,
      fld ''unavailable'' JStr dec_string l_Unavailable l_Unavailable_update,
      fld ''size'' enc_int dec_int l_Size l_Size_update,
      fld ''declared_size'' enc_int dec_int l_DeclaredSize l_DeclaredSize_update,
      fld ''sha256'' JStr dec_string l_SHA256 l_SHA256_update,
      fld ''processed_sha256'' JStr dec_string l_ProcessedSHA256 l_ProcessedSHA256_update,
      fld ''transformed'' JBool dec_bool l_Transformed l_Transformed_update,
      fld ''complete'' JBool dec_bool l_Complete l_Complete_update,
      fld ''truncated'' JBool dec_bool l_Truncated l_Truncated_update,
      fld ''encoding'' JStr dec_string l_Encoding l_Encoding_update,
      fld ''expires_at'' enc_int dec_int l_ExpiresAt l_ExpiresAt_update,
      fld ''hint'' JStr dec_string l_Hint l_Hint_update,
      fld ''enc'' (enc_ptr (enc_struct Enc_fields)) (dec_ptr (dec_struct Enc_fields) zero_Enc) l_Enc l_Enc_update]"

definition Store_fields :: "Store field list" where
  "Store_fields =
     [fld ''headers'' (enc_ptr (enc_struct Locator_fields)) (dec_ptr (dec_struct Locator_fields) zero_Locator) s_Headers s_Headers_update,
      fld ''args'' (enc_ptr (enc_struct Locator_fields)) (dec_ptr (dec_struct Locator_fields) zero_Locator) s_Args s_Args_update,
      fld ''body'' (enc_ptr (enc_struct Locator_fields)) (dec_ptr (dec_struct Locator_fields) zero_Locator) s_Body s_Body_update]"

definition Route_fields :: "Route field list" where
  "Route_fields =
     [fld ''server_name'' JStr dec_string rt_ServerName rt_ServerName_update,
      fld ''location'' JStr dec_string rt_Location rt_Location_update,
      fld ''profile'' JStr dec_string rt_Profile rt_Profile_update]"

definition ScoreState_fields :: "ScoreState field list" where
  "ScoreState_fields =
     [fld ''total'' enc_int dec_int sc_Total sc_Total_update,
      fld ''deny_at'' enc_int dec_int sc_DenyAt sc_DenyAt_update]"

definition Action_fields :: "Action field list" where
  "Action_fields =
     [omitempty ''to'' [] JStr dec_string a_To a_To_update,
      fld ''do'' JStr dec_string a_Do a_Do_update,
      fld ''apply'' JStr dec_string a_Apply a_Apply_update,
      omitempty ''code'' [] JStr dec_string a_Code a_Code_update,
      omitempty ''delta'' 0 enc_int dec_int a_Delta a_Delta_update,
      omitempty ''value'' 0 enc_int dec_int a_Value a_Value_update,
      omitempty ''counter'' [] JStr dec_string a_Counter a_Counter_update,
      omitempty ''group'' [] JStr dec_string a_Group a_Group_update,
      omitempty ''set'' [] JStr dec_string a_Set a_Set_update]"

definition PriorVerdict_fields :: "PriorVerdict field list" where
  "PriorVerdict_fields =
     [fld ''phase'' JStr dec_string pv_Phase pv_Phase_update,
      fld ''inspector'' JStr dec_string pv_Inspector pv_Inspector_update,
      fld ''verdict'' JStr dec_string pv_Verdict pv_Verdict_update,
      fld ''score'' enc_int dec_int pv_Score pv_Score_update,
      fld ''actions'' (enc_slice (enc_struct Action_fields)) (dec_slice (dec_struct Action_fields) zero_Action) pv_Actions pv_Actions_update]"

definition Stream_fields :: "Stream field list" where
  "Stream_fields =
     [fld ''protocol'' JStr dec_string st_Protocol st_Protocol_update,
      fld ''direction'' JStr dec_string st_Direction st_Direction_update,
      fld ''opcode'' JStr dec_string st_Opcode st_Opcode_update,
      fld ''fin'' JBool dec_bool st_Fin st_Fin_update,
      fld ''subprotocol'' JStr dec_string st_Subprotocol st_Subprotocol_update]"

definition Release_fields :: "Release field list" where
  "Release_fields =
     [fld ''token'' JStr dec_string rl_Token rl_Token_update,
      fld ''reason'' JStr dec_string rl_Reason rl_Reason_update]"

definition Resume_fields :: "Resume field list" where
  "Resume_fields =
     [fld ''want'' JBool dec_bool ru_Want ru_Want_update,
      fld ''token'' JStr dec_string ru_Token ru_Token_update,
      fld ''require'' JBool dec_bool ru_Require ru_Require_update]"

definition Request_fields :: "Request field list" where
  "Request_fields =
     [fld ''v'' enc_int dec_int r_V r_V_update,
      fld ''rid'' JStr dec_string r_RID r_RID_update,
      fld ''ray'' JStr dec_string r_Ray r_Ray_update,
      fld ''phase'' JStr dec_string r_Phase r_Phase_update,
      fld ''wave'' enc_int dec_int r_Wave r_Wave_update,
      fld ''inspector'' JStr dec_string r_Inspector r_Inspector_update,
      fld ''deadline_ms'' enc_int dec_int r_DeadlineMS r_DeadlineMS_update,
      fld ''audit_subject'' (enc_ptr JStr) (dec_ptr dec_string []) r_AuditSubject r_AuditSubject_update,
      fld ''node'' JStr dec_string r_Node r_Node_update,
      fld ''conn'' (enc_struct Conn_fields) (dec_struct Conn_fields) r_Conn r_Conn_update,
      fld ''http'' (enc_struct HTTP_fields) (dec_struct HTTP_fields) r_HTTP r_HTTP_update,
      fld ''vars'' (enc_map JStr) (dec_map dec_string []) r_Vars r_Vars_update,
      fld ''needs'' (enc_slice JStr) (dec_slice dec_string []) r_Needs r_Needs_update,
      fld ''store'' (enc_struct Store_fields) (dec_struct Store_fields) r_Store r_Store_update,
      fld ''route'' (enc_struct Route_fields) (dec_struct Route_fields) r_Route r_Route_update,
      fld ''score'' (enc_struct ScoreState_fields) (dec_struct ScoreState_fields) r_Score r_Score_update,
      fld ''prior'' (enc_slice (enc_struct PriorVerdict_fields)) (dec_slice (dec_struct PriorVerdict_fields) zero_PriorVerdict) r_Prior r_Prior_update,
      fld ''response'' (enc_ptr (enc_struct Response_fields)) (dec_ptr (dec_struct Response_fields) zero_Response) r_Response r_Response_update,
      fld ''request_store'' (enc_struct Store_fields) (dec_struct Store_fields) r_RequestStore r_RequestStore_update,
      fld ''resume'' (enc_ptr (enc_struct Resume_fields)) (dec_ptr (dec_struct Resume_fields) zero_Resume) r_Resume r_Resume_update,
      fld ''release'' (enc_ptr (enc_struct Release_fields)) (dec_ptr (dec_struct Release_fields) zero_Release) r_Release r_Release_update,
      fld ''conn_id'' JStr dec_string r_ConnID r_ConnID_update,
      fld ''seq'' enc_uint dec_uint r_Seq r_Seq_update,
      fld ''stream'' (enc_ptr (enc_struct Stream_fields)) (dec_ptr (dec_struct Stream_fields) zero_Stream) r_Stream r_Stream_update]"

definition Reason_fields :: "Reason field list" where
  "Reason_fields =
     [fld ''code'' JStr dec_string rn_Code rn_Code_update,
      omitempty ''class'' [] JStr dec_string rn_Class rn_Class_update]"

definition RedirectRef_fields :: "RedirectRef field list" where
  "RedirectRef_fields =
     [fld ''url'' JStr dec_string rd_URL rd_URL_update,
      omitempty ''status'' 0 enc_int dec_int rd_Status rd_Status_update]"

definition HeaderOps_fields :: "HeaderOps field list" where
  "HeaderOps_fields =
     [omitempty ''set'' Map.empty (enc_map JStr) (dec_map dec_string []) ho_Set ho_Set_update,
      omitempty ''unset'' [] (enc_slice JStr) (dec_slice dec_string []) ho_Unset ho_Unset_update]"

definition RewriteBody_fields :: "RewriteBody field list" where
  "RewriteBody_fields =
     [fld ''key'' JStr dec_string rb_Key rb_Key_update,
      fld ''size'' enc_int dec_int rb_Size rb_Size_update,
      omitempty ''sha256'' [] JStr dec_string rb_SHA256 rb_SHA256_update]"

definition Rewrite_fields :: "Rewrite field list" where
  "Rewrite_fields =
     [omitempty ''body'' None (enc_ptr (enc_struct RewriteBody_fields)) (dec_ptr (dec_struct RewriteBody_fields) zero_RewriteBody) rw_Body rw_Body_update,
      omitempty ''groups'' [] (enc_slice JStr) (dec_slice dec_string []) rw_Groups rw_Groups_update]"

definition Continue_fields :: "Continue field list" where
  "Continue_fields =
     [fld ''subject'' JStr dec_string ct_Subject ct_Subject_update,
      fld ''ttl_ms'' enc_int dec_int ct_TTLMS ct_TTLMS_update]"

definition ResponseRef_fields :: "string field list" where
  "ResponseRef_fields = [fld ''name'' JStr dec_string (\<lambda>s. s) (\<lambda>f. f)]"

definition Reply_fields :: "Reply field list" where
  "Reply_fields =
     [fld ''v'' enc_int dec_int y_V y_V_update,
      fld ''rid'' JStr dec_string y_RID y_RID_update,
      fld ''inspector'' JStr dec_string y_Inspector y_Inspector_update,
      fld ''verdict'' JStr dec_string y_Verdict y_Verdict_update,
      omitempty ''score'' None (enc_ptr enc_int) (dec_ptr dec_int 0) y_Score y_Score_update,
      omitempty ''reason'' None (enc_ptr (enc_struct Reason_fields)) (dec_ptr (dec_struct Reason_fields) zero_Reason) y_Reason y_Reason_update,
      omitempty ''response'' None (enc_ptr (enc_struct ResponseRef_fields)) (dec_ptr (dec_struct ResponseRef_fields) []) y_Response y_Response_update,
      omitempty ''redirect'' None (enc_ptr (enc_struct RedirectRef_fields)) (dec_ptr (dec_struct RedirectRef_fields) zero_RedirectRef) y_Redirect y_Redirect_update,
      omitempty ''headers'' None (enc_ptr (enc_struct HeaderOps_fields)) (dec_ptr (dec_struct HeaderOps_fields) zero_HeaderOps) y_Headers y_Headers_update,
      omitempty ''rewrite'' None (enc_ptr (enc_struct Rewrite_fields)) (dec_ptr (dec_struct Rewrite_fields) zero_Rewrite) y_Rewrite y_Rewrite_update,
      omitempty ''continue'' None (enc_ptr (enc_struct Continue_fields)) (dec_ptr (dec_struct Continue_fields) zero_Continue) y_Continue y_Continue_update,
      omitempty ''actions'' [] (enc_slice (enc_struct Action_fields)) (dec_slice (dec_struct Action_fields) zero_Action) y_Actions y_Actions_update]"

lemmas fields_defs =
  TLS_fields_def Conn_fields_def HTTP_fields_def Response_fields_def Enc_fields_def Locator_fields_def
  Store_fields_def Route_fields_def ScoreState_fields_def Action_fields_def PriorVerdict_fields_def
  Stream_fields_def Release_fields_def Resume_fields_def Request_fields_def Reason_fields_def
  RedirectRef_fields_def HeaderOps_fields_def RewriteBody_fields_def Rewrite_fields_def
  Continue_fields_def Reply_fields_def ResponseRef_fields_def

section \<open>Messages that can be written without loss\<close>

text \<open>Texts are well-formed UTF-8, integers have 64 bits, maps are finite.\<close>

definition texts_ok :: "(string \<rightharpoonup> string) \<Rightarrow> bool" where
  "texts_ok m \<longleftrightarrow> finite (dom m) \<and> (\<forall>k\<in>dom m. valid_utf8 k) \<and> (\<forall>x\<in>ran m. valid_utf8 x)"

definition TLS_wf :: "TLS \<Rightarrow> bool" where
  "TLS_wf r \<longleftrightarrow>
     valid_utf8 (tls_Version r) \<and> valid_utf8 (tls_SNI r) \<and> valid_utf8 (tls_JA4 r)"

definition Conn_wf :: "Conn \<Rightarrow> bool" where
  "Conn_wf r \<longleftrightarrow>
     valid_utf8 (c_ClientIP r) \<and> int64 (c_ClientPort r) \<and> valid_utf8 (c_ServerIP r) \<and>
     int64 (c_ServerPort r) \<and> (\<forall>x\<in>set_option (c_TLS r). TLS_wf x)"

definition HTTP_wf :: "HTTP \<Rightarrow> bool" where
  "HTTP_wf r \<longleftrightarrow>
     valid_utf8 (h_Method r) \<and> valid_utf8 (h_Scheme r) \<and> valid_utf8 (h_Host r) \<and> valid_utf8 (h_URI r)
     \<and> int64 (h_ArgsSize r) \<and> valid_utf8 (h_Version r)"

definition Response_wf :: "Response \<Rightarrow> bool" where
  "Response_wf r \<longleftrightarrow>
     int64 (rs_Status r) \<and> (\<forall>p\<in>set (rs_Headers r). pair_ok p) \<and>
     int64 (rs_UpstreamMS r)"

definition Enc_wf :: "Enc \<Rightarrow> bool" where
  "Enc_wf r \<longleftrightarrow>
     valid_utf8 (e_Alg r) \<and> valid_utf8 (e_KID r) \<and> valid_utf8 (e_Nonce r)"

definition Locator_wf :: "Locator \<Rightarrow> bool" where
  "Locator_wf r \<longleftrightarrow>
     valid_utf8 (l_Store r) \<and> valid_utf8 (l_Driver r) \<and> valid_utf8 (l_Key r) \<and>
     valid_utf8 (l_Unavailable r) \<and> int64 (l_Size r) \<and> int64 (l_DeclaredSize r) \<and> valid_utf8 (l_SHA256 r)
     \<and> valid_utf8 (l_ProcessedSHA256 r) \<and> valid_utf8 (l_Encoding r) \<and> int64 (l_ExpiresAt r) \<and>
     valid_utf8 (l_Hint r) \<and> (\<forall>x\<in>set_option (l_Enc r). Enc_wf x)"

definition Store_wf :: "Store \<Rightarrow> bool" where
  "Store_wf r \<longleftrightarrow>
     (\<forall>x\<in>set_option (s_Headers r). Locator_wf x) \<and> (\<forall>x\<in>set_option (s_Args r). Locator_wf x)
     \<and> (\<forall>x\<in>set_option (s_Body r). Locator_wf x)"

definition Route_wf :: "Route \<Rightarrow> bool" where
  "Route_wf r \<longleftrightarrow>
     valid_utf8 (rt_ServerName r) \<and> valid_utf8 (rt_Location r) \<and> valid_utf8 (rt_Profile r)"

definition ScoreState_wf :: "ScoreState \<Rightarrow> bool" where
  "ScoreState_wf r \<longleftrightarrow>
     int64 (sc_Total r) \<and> int64 (sc_DenyAt r)"

definition Action_wf :: "Action \<Rightarrow> bool" where
  "Action_wf r \<longleftrightarrow>
     valid_utf8 (a_To r) \<and> valid_utf8 (a_Do r) \<and> valid_utf8 (a_Apply r) \<and> valid_utf8 (a_Code r) \<and>
     int64 (a_Delta r) \<and> int64 (a_Value r) \<and> valid_utf8 (a_Counter r) \<and> valid_utf8 (a_Group r) \<and>
     valid_utf8 (a_Set r)"

definition PriorVerdict_wf :: "PriorVerdict \<Rightarrow> bool" where
  "PriorVerdict_wf r \<longleftrightarrow>
     valid_utf8 (pv_Phase r) \<and> valid_utf8 (pv_Inspector r) \<and> valid_utf8 (pv_Verdict r) \<and>
     int64 (pv_Score r) \<and> (\<forall>x\<in>set (pv_Actions r). Action_wf x)"

definition Stream_wf :: "Stream \<Rightarrow> bool" where
  "Stream_wf r \<longleftrightarrow>
     valid_utf8 (st_Protocol r) \<and> valid_utf8 (st_Direction r) \<and> valid_utf8 (st_Opcode r) \<and>
     valid_utf8 (st_Subprotocol r)"

definition Release_wf :: "Release \<Rightarrow> bool" where
  "Release_wf r \<longleftrightarrow>
     valid_utf8 (rl_Token r) \<and> valid_utf8 (rl_Reason r)"

definition Resume_wf :: "Resume \<Rightarrow> bool" where
  "Resume_wf r \<longleftrightarrow>
     valid_utf8 (ru_Token r)"

definition Request_wf :: "Request \<Rightarrow> bool" where
  "Request_wf r \<longleftrightarrow>
     int64 (r_V r) \<and> valid_utf8 (r_RID r) \<and> valid_utf8 (r_Ray r) \<and> valid_utf8 (r_Phase r) \<and>
     int64 (r_Wave r) \<and> valid_utf8 (r_Inspector r) \<and> int64 (r_DeadlineMS r) \<and>
     (\<forall>s\<in>set_option (r_AuditSubject r). valid_utf8 s) \<and> valid_utf8 (r_Node r) \<and> Conn_wf (r_Conn r)
     \<and> HTTP_wf (r_HTTP r) \<and> texts_ok (r_Vars r) \<and> (\<forall>s\<in>set (r_Needs r). valid_utf8 s) \<and>
     Store_wf (r_Store r) \<and> Route_wf (r_Route r) \<and> ScoreState_wf (r_Score r) \<and>
     (\<forall>x\<in>set (r_Prior r). PriorVerdict_wf x) \<and>
     (\<forall>x\<in>set_option (r_Response r). Response_wf x) \<and> Store_wf (r_RequestStore r) \<and>
     (\<forall>x\<in>set_option (r_Resume r). Resume_wf x) \<and>
     (\<forall>x\<in>set_option (r_Release r). Release_wf x) \<and> valid_utf8 (r_ConnID r) \<and> uint64 (r_Seq r)
     \<and> (\<forall>x\<in>set_option (r_Stream r). Stream_wf x)"

definition Reason_wf :: "Reason \<Rightarrow> bool" where
  "Reason_wf r \<longleftrightarrow>
     valid_utf8 (rn_Code r) \<and> valid_utf8 (rn_Class r)"

definition RedirectRef_wf :: "RedirectRef \<Rightarrow> bool" where
  "RedirectRef_wf r \<longleftrightarrow>
     valid_utf8 (rd_URL r) \<and> int64 (rd_Status r)"

definition HeaderOps_wf :: "HeaderOps \<Rightarrow> bool" where
  "HeaderOps_wf r \<longleftrightarrow>
     texts_ok (ho_Set r) \<and> (\<forall>s\<in>set (ho_Unset r). valid_utf8 s)"

definition RewriteBody_wf :: "RewriteBody \<Rightarrow> bool" where
  "RewriteBody_wf r \<longleftrightarrow>
     valid_utf8 (rb_Key r) \<and> int64 (rb_Size r) \<and> valid_utf8 (rb_SHA256 r)"

definition Rewrite_wf :: "Rewrite \<Rightarrow> bool" where
  "Rewrite_wf r \<longleftrightarrow>
     (\<forall>x\<in>set_option (rw_Body r). RewriteBody_wf x) \<and> (\<forall>s\<in>set (rw_Groups r). valid_utf8 s)"

definition Continue_wf :: "Continue \<Rightarrow> bool" where
  "Continue_wf r \<longleftrightarrow>
     valid_utf8 (ct_Subject r) \<and> int64 (ct_TTLMS r)"

definition Reply_wf :: "Reply \<Rightarrow> bool" where
  "Reply_wf r \<longleftrightarrow>
     int64 (y_V r) \<and> valid_utf8 (y_RID r) \<and> valid_utf8 (y_Inspector r) \<and> valid_utf8 (y_Verdict r) \<and>
     (\<forall>i\<in>set_option (y_Score r). int64 i) \<and> (\<forall>x\<in>set_option (y_Reason r). Reason_wf x)
     \<and> (\<forall>s\<in>set_option (y_Response r). valid_utf8 s) \<and>
     (\<forall>x\<in>set_option (y_Redirect r). RedirectRef_wf x) \<and>
     (\<forall>x\<in>set_option (y_Headers r). HeaderOps_wf x) \<and>
     (\<forall>x\<in>set_option (y_Rewrite r). Rewrite_wf x) \<and>
     (\<forall>x\<in>set_option (y_Continue r). Continue_wf x) \<and> (\<forall>x\<in>set (y_Actions r). Action_wf x)"

section \<open>Round trips\<close>

lemma texts_codec [simp]:
  "texts_ok m \<Longrightarrow> dec_map dec_string [] (enc_map JStr m) Map.empty = Some m"
  "texts_ok m \<Longrightarrow> 0 < d \<Longrightarrow> json_ok d (enc_map JStr m)"
  by (simp_all add: texts_ok_def text_codec.entries_all text_codec.entries_fit)

lemma texts_ok_empty [simp]: "texts_ok Map.empty"
  by (simp add: texts_ok_def)

lemma texts_codec_ok [codec_ok]: "dec_map dec_string [] j m = Some n \<Longrightarrow> texts j \<Longrightarrow> texts_ok m \<Longrightarrow> texts_ok n"
proof (cases j)
  case (JObj ms)
  assume "dec_map dec_string [] j m = Some n" and "texts j" and "texts_ok m"
  then show "texts_ok n"
    unfolding JObj dec_map.simps texts.simps texts_ok_def by (rule text_codec.entries_ok)
qed auto

interpretation ResponseRef_codec: json_codec "enc_struct ResponseRef_fields" "dec_struct ResponseRef_fields" "[]" valid_utf8 "Suc 0"
  by (rule struct_codec) (simp_all add: ResponseRef_fields_def is_ascii_def, auto intro: codec_ok)

interpretation TLS_codec: json_codec "enc_struct TLS_fields" "dec_struct TLS_fields" zero_TLS TLS_wf "Suc 0"
  by (rule struct_codec) (simp_all add: TLS_wf_def TLS_fields_def zero_TLS_def is_ascii_def, auto intro: codec_ok)

interpretation Conn_codec: json_codec "enc_struct Conn_fields" "dec_struct Conn_fields" zero_Conn Conn_wf "Suc 1"
  by (rule struct_codec) (simp_all add: Conn_wf_def Conn_fields_def zero_Conn_def is_ascii_def, auto intro: codec_ok)

interpretation HTTP_codec: json_codec "enc_struct HTTP_fields" "dec_struct HTTP_fields" zero_HTTP HTTP_wf "Suc 0"
  by (rule struct_codec) (simp_all add: HTTP_wf_def HTTP_fields_def zero_HTTP_def is_ascii_def, auto intro: codec_ok)

interpretation Response_codec: json_codec "enc_struct Response_fields" "dec_struct Response_fields" zero_Response Response_wf "Suc 2"
  by (rule struct_codec) (simp_all add: Response_wf_def Response_fields_def zero_Response_def is_ascii_def, auto intro: codec_ok)

interpretation Enc_codec: json_codec "enc_struct Enc_fields" "dec_struct Enc_fields" zero_Enc Enc_wf "Suc 0"
  by (rule struct_codec) (simp_all add: Enc_wf_def Enc_fields_def zero_Enc_def is_ascii_def, auto intro: codec_ok)

interpretation Locator_codec: json_codec "enc_struct Locator_fields" "dec_struct Locator_fields" zero_Locator Locator_wf "Suc 1"
  by (rule struct_codec) (simp_all add: Locator_wf_def Locator_fields_def zero_Locator_def is_ascii_def, auto intro: codec_ok)

interpretation Store_codec: json_codec "enc_struct Store_fields" "dec_struct Store_fields" zero_store Store_wf "Suc 2"
  by (rule struct_codec) (simp_all add: Store_wf_def Store_fields_def zero_store_def is_ascii_def, auto intro: codec_ok)

interpretation Route_codec: json_codec "enc_struct Route_fields" "dec_struct Route_fields" zero_Route Route_wf "Suc 0"
  by (rule struct_codec) (simp_all add: Route_wf_def Route_fields_def zero_Route_def is_ascii_def, auto intro: codec_ok)

interpretation ScoreState_codec: json_codec "enc_struct ScoreState_fields" "dec_struct ScoreState_fields" zero_ScoreState ScoreState_wf "Suc 0"
  by (rule struct_codec) (simp_all add: ScoreState_wf_def ScoreState_fields_def zero_ScoreState_def is_ascii_def, auto intro: codec_ok)

interpretation Action_codec: json_codec "enc_struct Action_fields" "dec_struct Action_fields" zero_Action Action_wf "Suc 0"
  by (rule struct_codec) (simp_all add: Action_wf_def Action_fields_def zero_Action_def is_ascii_def, auto intro: codec_ok)

interpretation PriorVerdict_codec: json_codec "enc_struct PriorVerdict_fields" "dec_struct PriorVerdict_fields" zero_PriorVerdict PriorVerdict_wf "Suc 2"
  by (rule struct_codec) (simp_all add: PriorVerdict_wf_def PriorVerdict_fields_def zero_PriorVerdict_def is_ascii_def, auto intro: codec_ok)

interpretation Stream_codec: json_codec "enc_struct Stream_fields" "dec_struct Stream_fields" zero_Stream Stream_wf "Suc 0"
  by (rule struct_codec) (simp_all add: Stream_wf_def Stream_fields_def zero_Stream_def is_ascii_def, auto intro: codec_ok)

interpretation Release_codec: json_codec "enc_struct Release_fields" "dec_struct Release_fields" zero_Release Release_wf "Suc 0"
  by (rule struct_codec) (simp_all add: Release_wf_def Release_fields_def zero_Release_def is_ascii_def, auto intro: codec_ok)

interpretation Resume_codec: json_codec "enc_struct Resume_fields" "dec_struct Resume_fields" zero_Resume Resume_wf "Suc 0"
  by (rule struct_codec) (simp_all add: Resume_wf_def Resume_fields_def zero_Resume_def is_ascii_def, auto intro: codec_ok)

interpretation Request_codec: json_codec "enc_struct Request_fields" "dec_struct Request_fields" zero_request Request_wf "Suc 4"
  by (rule struct_codec) (simp_all add: Request_wf_def Request_fields_def zero_request_def is_ascii_def, auto intro: codec_ok)

interpretation Reason_codec: json_codec "enc_struct Reason_fields" "dec_struct Reason_fields" zero_Reason Reason_wf "Suc 0"
  by (rule struct_codec) (simp_all add: Reason_wf_def Reason_fields_def zero_Reason_def is_ascii_def, auto intro: codec_ok)

interpretation RedirectRef_codec: json_codec "enc_struct RedirectRef_fields" "dec_struct RedirectRef_fields" zero_RedirectRef RedirectRef_wf "Suc 0"
  by (rule struct_codec) (simp_all add: RedirectRef_wf_def RedirectRef_fields_def zero_RedirectRef_def is_ascii_def, auto intro: codec_ok)

interpretation HeaderOps_codec: json_codec "enc_struct HeaderOps_fields" "dec_struct HeaderOps_fields" zero_HeaderOps HeaderOps_wf "Suc 1"
  by (rule struct_codec) (simp_all add: HeaderOps_wf_def HeaderOps_fields_def zero_HeaderOps_def is_ascii_def, auto intro: codec_ok)

interpretation RewriteBody_codec: json_codec "enc_struct RewriteBody_fields" "dec_struct RewriteBody_fields" zero_RewriteBody RewriteBody_wf "Suc 0"
  by (rule struct_codec) (simp_all add: RewriteBody_wf_def RewriteBody_fields_def zero_RewriteBody_def is_ascii_def, auto intro: codec_ok)

interpretation Rewrite_codec: json_codec "enc_struct Rewrite_fields" "dec_struct Rewrite_fields" zero_Rewrite Rewrite_wf "Suc 1"
  by (rule struct_codec) (simp_all add: Rewrite_wf_def Rewrite_fields_def zero_Rewrite_def is_ascii_def, auto intro: codec_ok)

interpretation Continue_codec: json_codec "enc_struct Continue_fields" "dec_struct Continue_fields" zero_Continue Continue_wf "Suc 0"
  by (rule struct_codec) (simp_all add: Continue_wf_def Continue_fields_def zero_Continue_def is_ascii_def, auto intro: codec_ok)

interpretation Reply_codec: json_codec "enc_struct Reply_fields" "dec_struct Reply_fields" zero_Reply Reply_wf "Suc 2"
  by (rule struct_codec) (simp_all add: Reply_wf_def Reply_fields_def zero_Reply_def is_ascii_def, auto intro: codec_ok)

section \<open>The messages as bytes\<close>

definition decodeRequest :: "bytes \<Rightarrow> Request option" where
  "decodeRequest = Unmarshal (dec_struct Request_fields) zero_request"

definition encodeRequest :: "Request \<Rightarrow> bytes" where
  "encodeRequest = json_Marshal (enc_struct Request_fields)"

definition decodeReply :: "bytes \<Rightarrow> Reply option" where
  "decodeReply = Unmarshal (dec_struct Reply_fields) zero_Reply"

definition encodeReply :: "Reply \<Rightarrow> bytes" where
  "encodeReply = json_Marshal (enc_struct Reply_fields)"

definition decodeHeaders :: "bytes \<Rightarrow> Header list option" where
  "decodeHeaders = Unmarshal (dec_slice dec_pair ([], [])) []"

lemma decode_encode:
  "Request_wf r \<Longrightarrow> decodeRequest (encodeRequest r) = Some r"
  "Reply_wf y \<Longrightarrow> decodeReply (encodeReply y) = Some y"
  by (simp_all add: decodeRequest_def encodeRequest_def Request_codec.through_text decodeReply_def encodeReply_def
      Reply_codec.through_text maxNestingDepth_def)

lemma decoded_ok:
  "decodeRequest data = Some r \<Longrightarrow> Request_wf r"
  "decodeReply data = Some y \<Longrightarrow> Reply_wf y"
  by (auto simp: decodeRequest_def decodeReply_def intro: Request_codec.read_ok Reply_codec.read_ok)

end
