(* ===== verification/GoRegexp.thy ===== *)
theory GoRegexp
  imports GoStrings
begin

text \<open>
  Go's package regexp, as far as the program uses it. A compiled expression is its simplified
  syntax tree (the operators of regexp/syntax after \<open>Simplify\<close>, so without counted
  repetition), the number of its groups and their names. Matching is leftmost-first: the tree
  is explored in priority order and the first way to match wins. \<open>FindAllSubmatchIndex\<close>,
  \<open>Expand\<close> and their helpers follow the library's loops over the matches and over the
  template. How a pattern's text is parsed into its tree is not modelled: the components that
  compile patterns take the parser as a parameter.
\<close>

section \<open>Expressions and the ways to match\<close>

text \<open>The flag of a repetition says whether it is greedy.\<close>

datatype regex =
    NoMatch
  | EmptyMatch
  | CharClass "(nat \<times> nat) list"
  | BeginLine | EndLine | BeginText | EndText
  | WordBoundary | NoWordBoundary
  | Capture nat regex
  | Star bool regex
  | Plus bool regex
  | Quest bool regex
  | Concat regex regex
  | Alternate regex regex

record regexp =
  re_ast :: regex
  re_numSubexp :: nat
  re_subexpNames :: "string list"

text \<open>A thread of the search: its position and the bounds of the groups closed so far.\<close>

type_synonym caps = "(int \<times> int) list"
type_synonym thread = "nat \<times> caps"

definition is_word_byte :: "char \<Rightarrow> bool" where
  "is_word_byte c \<longleftrightarrow> (let b = byte_val c in
     (48 \<le> b \<and> b \<le> 57) \<or> (65 \<le> b \<and> b \<le> 90) \<or> b = 95 \<or> (97 \<le> b \<and> b \<le> 122))"

definition word_before :: "bytes \<Rightarrow> nat \<Rightarrow> bool" where
  "word_before b p \<longleftrightarrow> 0 < p \<and> p \<le> length b \<and> is_word_byte (b ! (p - 1))"

definition word_after :: "bytes \<Rightarrow> nat \<Rightarrow> bool" where
  "word_after b p \<longleftrightarrow> p < length b \<and> is_word_byte (b ! p)"

text \<open>Stay where the assertion holds, die where it does not.\<close>

definition assertion :: "bool \<Rightarrow> thread \<Rightarrow> thread list" where
  "assertion ok st = (if ok then [st] else [])"

text \<open>Consume one code point of the class; an ill-formed byte counts as U+FFFD.\<close>

definition consume :: "(nat \<times> nat) list \<Rightarrow> bytes \<Rightarrow> thread \<Rightarrow> thread list" where
  "consume ranges b st =
     (if fst st < length b
      then (let (r, w) = DecodeRune (drop (fst st) b)
            in if list_ex (\<lambda>(lo, hi). lo \<le> r \<and> r \<le> hi) ranges then [(fst st + w, snd st)] else [])
      else [])"

text \<open>
  One or more rounds of \<open>body\<close>. A round that moved forward may be followed by another one;
  an empty round ends the repetition, as the library's search never revisits an instruction at
  the same position.
\<close>

function plus_iter :: "bool \<Rightarrow> nat \<Rightarrow> (thread \<Rightarrow> thread list) \<Rightarrow> thread \<Rightarrow> thread list" where
  "plus_iter greedy len body st =
     concat (map (\<lambda>st'.
       if fst st < fst st' \<and> fst st' \<le> len
       then (if greedy then plus_iter greedy len body st' @ [st'] else st' # plus_iter greedy len body st')
       else [st']) (body st))"
  by pat_completeness auto
termination
  by (relation "measure (\<lambda>(greedy, len, body, st). len - fst st)") auto

declare plus_iter.simps [simp del]

text \<open>All ways to match, the preferred one first.\<close>

primrec outcomes :: "regex \<Rightarrow> bytes \<Rightarrow> thread \<Rightarrow> thread list" where
  "outcomes NoMatch b st = []"
| "outcomes EmptyMatch b st = [st]"
| "outcomes (CharClass ranges) b st = consume ranges b st"
| "outcomes BeginLine b st = assertion (fst st = 0 \<or> (fst st \<le> length b \<and> b ! (fst st - 1) = CHR 0x0A)) st"
| "outcomes EndLine b st = assertion (fst st = length b \<or> (fst st < length b \<and> b ! fst st = CHR 0x0A)) st"
| "outcomes BeginText b st = assertion (fst st = 0) st"
| "outcomes EndText b st = assertion (fst st = length b) st"
| "outcomes WordBoundary b st = assertion (word_before b (fst st) \<noteq> word_after b (fst st)) st"
| "outcomes NoWordBoundary b st = assertion (word_before b (fst st) = word_after b (fst st)) st"
| "outcomes (Capture k r) b st =
     map (\<lambda>st'. (fst st', (snd st')[k - 1 := (int (fst st), int (fst st'))])) (outcomes r b st)"
| "outcomes (Star greedy r) b st =
     (if greedy then plus_iter greedy (length b) (outcomes r b) st @ [st]
      else st # plus_iter greedy (length b) (outcomes r b) st)"
| "outcomes (Plus greedy r) b st = plus_iter greedy (length b) (outcomes r b) st"
| "outcomes (Quest greedy r) b st =
     (if greedy then outcomes r b st @ [st] else st # outcomes r b st)"
| "outcomes (Concat r s) b st = concat (map (outcomes s b) (outcomes r b st))"
| "outcomes (Alternate r s) b st = outcomes r b st @ outcomes s b st"

section \<open>What a thread satisfies\<close>

definition cap_ok :: "nat \<Rightarrow> nat \<Rightarrow> int \<times> int \<Rightarrow> bool" where
  "cap_ok lo hi c \<longleftrightarrow> c = (-1, -1) \<or> (int lo \<le> fst c \<and> fst c \<le> snd c \<and> snd c \<le> int hi)"

definition thread_ok :: "nat \<Rightarrow> nat \<Rightarrow> nat \<Rightarrow> nat \<Rightarrow> thread \<Rightarrow> bool" where
  "thread_ok n len lo p st \<longleftrightarrow>
     p \<le> fst st \<and> fst st \<le> len \<and> length (snd st) = n \<and> (\<forall>c\<in>set (snd st). cap_ok lo (fst st) c)"

lemma thread_ok_trans:
  "thread_ok n len lo p st \<Longrightarrow> thread_ok n len lo (fst st) st' \<Longrightarrow> thread_ok n len lo p st'"
  by (auto simp: thread_ok_def)

lemma thread_ok_refl: "thread_ok n len lo p st \<Longrightarrow> thread_ok n len lo (fst st) st"
  by (auto simp: thread_ok_def)

lemma cap_ok_mono: "cap_ok lo hi c \<Longrightarrow> hi \<le> hi' \<Longrightarrow> cap_ok lo hi' c"
  by (auto simp: cap_ok_def)

text \<open>Every operation that only moves forward from a good thread gives good threads.\<close>

definition advancing :: "nat \<Rightarrow> nat \<Rightarrow> nat \<Rightarrow> (thread \<Rightarrow> thread list) \<Rightarrow> bool" where
  "advancing n len lo f \<longleftrightarrow>
     (\<forall>st st'. lo \<le> fst st \<longrightarrow> thread_ok n len lo (fst st) st \<longrightarrow> st' \<in> set (f st) \<longrightarrow> thread_ok n len lo (fst st) st')"

lemma advancingI:
  "(\<And>st st'. lo \<le> fst st \<Longrightarrow> thread_ok n len lo (fst st) st \<Longrightarrow> st' \<in> set (f st) \<Longrightarrow> thread_ok n len lo (fst st) st')
    \<Longrightarrow> advancing n len lo f"
  by (simp add: advancing_def)

lemma advancingD:
  "advancing n len lo f \<Longrightarrow> lo \<le> fst st \<Longrightarrow> thread_ok n len lo (fst st) st \<Longrightarrow> st' \<in> set (f st)
    \<Longrightarrow> thread_ok n len lo (fst st) st'"
  unfolding advancing_def by blast

lemma advancing_assertion: "advancing n len lo (\<lambda>st. assertion (P st) st)"
  by (rule advancingI) (simp add: assertion_def split: if_splits)

lemma advancing_consume: "advancing n (length b) lo (consume ranges b)"
proof (rule advancingI)
  fix st st' :: thread
  assume ok: "thread_ok n (length b) lo (fst st) st" and "st' \<in> set (consume ranges b st)"
  then have lt: "fst st < length b" and st': "st' = (fst st + snd (DecodeRune (drop (fst st) b)), snd st)"
    by (auto simp: consume_def case_prod_beta Let_def split: if_splits)
  from lt DecodeRune_width [of "drop (fst st) b"]
  have "snd (DecodeRune (drop (fst st) b)) \<le> length b - fst st" by simp
  with ok lt st' show "thread_ok n (length b) lo (fst st) st'"
    by (auto simp: thread_ok_def intro: cap_ok_mono)
qed

lemma set_plus_iter:
  "st' \<in> set (plus_iter greedy len body st) \<longleftrightarrow>
     (\<exists>mid\<in>set (body st). st' = mid \<or>
        (fst st < fst mid \<and> fst mid \<le> len \<and> st' \<in> set (plus_iter greedy len body mid)))"
  by (subst plus_iter.simps) auto

lemma advancing_plus_iter:
  assumes "advancing n len lo body" and "lo \<le> fst st" and "thread_ok n len lo (fst st) st"
    and "st' \<in> set (plus_iter greedy len body st)"
  shows "thread_ok n len lo (fst st) st'"
  using assms
proof (induction greedy len body st arbitrary: st' rule: plus_iter.induct)
  case (1 greedy len body st)
  from "1.prems"(4) obtain mid where mid: "mid \<in> set (body st)"
    and alt: "st' = mid \<or> (fst st < fst mid \<and> fst mid \<le> len \<and> st' \<in> set (plus_iter greedy len body mid))"
    using set_plus_iter [of st' greedy len body st] by blast
  have ok: "thread_ok n len lo (fst st) mid"
    by (rule advancingD [OF "1.prems"(1-3) mid])
  from alt show ?case
  proof
    assume "st' = mid"
    with ok show ?thesis by simp
  next
    assume deep: "fst st < fst mid \<and> fst mid \<le> len \<and> st' \<in> set (plus_iter greedy len body mid)"
    have mid_ok: "lo \<le> fst mid" "thread_ok n len lo (fst mid) mid"
      using deep "1.prems"(2) ok by (auto intro: thread_ok_refl)
    have "thread_ok n len lo (fst mid) st'"
      using "1.IH"(1) [OF mid] "1.IH"(2) [OF mid] deep mid_ok "1.prems"(1) by (cases greedy) auto
    with ok show ?thesis by (rule thread_ok_trans)
  qed
qed

lemma advancing_comp:
  "advancing n len lo f \<Longrightarrow> advancing n len lo g \<Longrightarrow> advancing n len lo (\<lambda>st. concat (map g (f st)))"
proof (rule advancingI)
  fix st st' :: thread
  assume f: "advancing n len lo f" and g: "advancing n len lo g"
    and lo: "lo \<le> fst st" and ok: "thread_ok n len lo (fst st) st"
    and "st' \<in> set (concat (map g (f st)))"
  then obtain mid where mid: "mid \<in> set (f st)" and st': "st' \<in> set (g mid)" by auto
  have mid_ok: "thread_ok n len lo (fst st) mid" by (rule advancingD [OF f lo ok mid])
  with lo have "lo \<le> fst mid" by (simp add: thread_ok_def)
  from advancingD [OF g this thread_ok_refl [OF mid_ok] st'] mid_ok
  show "thread_ok n len lo (fst st) st'" by (blast intro: thread_ok_trans)
qed

lemma outcomes_advancing: "advancing n (length b) lo (outcomes r b)"
proof (induction r)
  case (CharClass ranges)
  have "outcomes (CharClass ranges) b = consume ranges b" by (rule ext) simp
  then show ?case by (simp add: advancing_consume)
next
  case (Capture k r)
  show ?case
  proof (rule advancingI)
    fix st st' :: thread
    assume lo: "lo \<le> fst st" and ok: "thread_ok n (length b) lo (fst st) st"
      and "st' \<in> set (outcomes (Capture k r) b st)"
    then obtain mid where mid: "mid \<in> set (outcomes r b st)"
      and st': "st' = (fst mid, (snd mid)[k - 1 := (int (fst st), int (fst mid))])" by auto
    have mid_ok: "thread_ok n (length b) lo (fst st) mid" by (rule advancingD [OF Capture lo ok mid])
    moreover have "cap_ok lo (fst mid) (int (fst st), int (fst mid))"
      using lo mid_ok by (simp add: cap_ok_def thread_ok_def)
    ultimately show "thread_ok n (length b) lo (fst st) st'"
      unfolding st' thread_ok_def by (auto dest!: set_update_subset_insert [THEN subsetD])
  qed
next
  case (Star greedy r)
  show ?case
    by (rule advancingI) (auto intro: advancing_plus_iter [OF Star.IH] split: if_splits)
next
  case (Plus greedy r)
  show ?case
    by (rule advancingI) (auto intro: advancing_plus_iter [OF Plus.IH])
next
  case (Quest greedy r)
  show ?case
    by (rule advancingI) (auto intro: advancingD [OF Quest.IH] split: if_splits)
next
  case (Concat r s)
  have "outcomes (Concat r s) b = (\<lambda>st. concat (map (outcomes s b) (outcomes r b st)))"
    by (rule ext) simp
  with Concat.IH show ?case by (simp only: advancing_comp)
next
  case (Alternate r s)
  show ?case
    by (rule advancingI) (auto intro: advancingD [OF Alternate.IH(1)] advancingD [OF Alternate.IH(2)])
qed (rule advancingI, simp add: assertion_def split: if_splits)+

section \<open>Finding matches\<close>

text \<open>
  The unanchored search from \<open>pos\<close>: the first start position at which there is a way to
  match, and there the preferred way. The result is Go's index vector: the bounds of the whole
  match, then of each group, \<open>-1\<close> for a group that took no part.
\<close>

definition no_caps :: "nat \<Rightarrow> caps" where
  "no_caps n = replicate n (-1, -1)"

definition index_vector :: "nat \<Rightarrow> thread \<Rightarrow> int list" where
  "index_vector start st = int start # int (fst st) # concat (map (\<lambda>(a, c). [a, c]) (snd st))"

function doExecute :: "regexp \<Rightarrow> bytes \<Rightarrow> nat \<Rightarrow> int list option" where
  "doExecute re b pos =
     (if pos \<le> length b
      then (case outcomes (re_ast re) b (pos, no_caps (re_numSubexp re)) of
              st # _ \<Rightarrow> Some (index_vector pos st)
            | [] \<Rightarrow> (let w = snd (DecodeRune (drop pos b))
                     in if w = 0 then None else doExecute re b (pos + w)))
      else None)"
  by pat_completeness auto
termination
  by (relation "measure (\<lambda>(re, b, pos). Suc (length b) - pos)") auto

declare doExecute.simps [simp del]

text \<open>What every index vector satisfies, for a search that started at \<open>pos\<close>.\<close>

definition match_ok :: "nat \<Rightarrow> nat \<Rightarrow> int \<Rightarrow> int list \<Rightarrow> bool" where
  "match_ok n len pos m \<longleftrightarrow>
     length m = 2 * (1 + n) \<and> pos \<le> m ! 0 \<and> m ! 0 \<le> m ! 1 \<and> m ! 1 \<le> int len \<and>
     (\<forall>k. 2 * k + 1 < length m \<longrightarrow> 0 \<le> m ! (2 * k) \<longrightarrow>
          m ! (2 * k) \<le> m ! (2 * k + 1) \<and> m ! (2 * k + 1) \<le> int len)"

lemma length_index_vector: "length (index_vector start st) = 2 + 2 * length (snd st)"
proof -
  have "length (concat (map (\<lambda>(a, c). [a, c]) cs)) = 2 * length cs" for cs :: caps
    by (induction cs) auto
  then show ?thesis by (simp add: index_vector_def)
qed

lemma nth_pairs:
  "k < length cs \<Longrightarrow>
     concat (map (\<lambda>(a, c). [a, c]) cs) ! (2 * k) = fst (cs ! k) \<and>
     concat (map (\<lambda>(a, c). [a, c]) cs) ! Suc (2 * k) = snd (cs ! k)"
  by (induction cs arbitrary: k) (auto simp: less_Suc_eq_0_disj)

lemma index_vector_ok:
  assumes "thread_ok n len start start st"
  shows "match_ok n len (int start) (index_vector start st)"
proof -
  let ?m = "index_vector start st"
  have pair: "?m ! (2 * k) \<le> ?m ! Suc (2 * k) \<and> ?m ! Suc (2 * k) \<le> int len"
    if k: "Suc (2 * k) < length ?m" and nonneg: "0 \<le> ?m ! (2 * k)" for k
  proof (cases k)
    case 0
    with assms show ?thesis by (simp add: index_vector_def thread_ok_def)
  next
    case (Suc j)
    with k have j: "j < length (snd st)" by (simp add: length_index_vector)
    have nth: "?m ! (2 * k) = fst (snd st ! j)" "?m ! Suc (2 * k) = snd (snd st ! j)"
      using nth_pairs [OF j] by (simp_all add: Suc index_vector_def)
    from assms j have "cap_ok start (fst st) (snd st ! j)" by (simp add: thread_ok_def)
    with nonneg nth assms show ?thesis by (auto simp: cap_ok_def thread_ok_def)
  qed
  moreover have "length ?m = 2 * (1 + n)"
    using assms by (simp add: length_index_vector thread_ok_def)
  ultimately show ?thesis
    using assms by (auto simp: match_ok_def index_vector_def thread_ok_def)
qed

lemma match_ok_mono: "match_ok n len pos m \<Longrightarrow> pos' \<le> pos \<Longrightarrow> match_ok n len pos' m"
  by (auto simp: match_ok_def)

lemma doExecute_ok:
  "doExecute re b pos = Some m \<Longrightarrow> match_ok (re_numSubexp re) (length b) (int pos) m"
proof (induction re b pos arbitrary: m rule: doExecute.induct)
  case (1 re b pos)
  let ?st0 = "(pos, no_caps (re_numSubexp re))"
  from "1.prems" have le: "pos \<le> length b" by (subst (asm) doExecute.simps) (simp split: if_splits)
  show ?case
  proof (cases "outcomes (re_ast re) b ?st0")
    case Nil
    let ?w = "snd (DecodeRune (drop pos b))"
    from le Nil have "doExecute re b pos = (if ?w = 0 then None else doExecute re b (pos + ?w))"
      by (simp add: doExecute.simps [of re b pos] Let_def)
    with "1.prems" have w: "?w \<noteq> 0" and rest: "doExecute re b (pos + ?w) = Some m"
      by (auto split: if_splits)
    from "1.IH" [OF le Nil refl w rest] show ?thesis by (rule match_ok_mono) simp
  next
    case (Cons st rest)
    with "1.prems" le have m: "m = index_vector pos st" by (subst (asm) doExecute.simps) simp
    have "thread_ok (re_numSubexp re) (length b) pos (fst ?st0) ?st0"
      using le by (auto simp: thread_ok_def no_caps_def cap_ok_def)
    moreover have "st \<in> set (outcomes (re_ast re) b ?st0)" by (simp add: Cons)
    moreover have "pos \<le> fst ?st0" by simp
    ultimately have "thread_ok (re_numSubexp re) (length b) pos (fst ?st0) st"
      using advancingD [OF outcomes_advancing] by blast
    then have "thread_ok (re_numSubexp re) (length b) pos pos st" by simp
    then show ?thesis unfolding m by (rule index_vector_ok)
  qed
qed

text \<open>
  \<open>allMatches\<close>: successive non-overlapping matches. After a match that ends where the search
  began the search moves on by one code point, and an empty match right after the previous
  match is not reported.
\<close>

definition next_pos :: "bytes \<Rightarrow> nat \<Rightarrow> int list \<Rightarrow> nat" where
  "next_pos b pos m =
     (if m ! 1 = int pos
      then (let w = snd (DecodeRune (drop pos b)) in if 0 < w then pos + w else length b + 1)
      else nat (m ! 1))"

lemma next_pos_bounds:
  assumes "match_ok n (length b) (int pos) m" and "pos \<le> length b"
  shows "pos < next_pos b pos m" and "m ! 1 \<le> int (next_pos b pos m)"
  using assms by (auto simp: match_ok_def next_pos_def Let_def)

function allMatches :: "regexp \<Rightarrow> bytes \<Rightarrow> int \<Rightarrow> nat \<Rightarrow> int \<Rightarrow> int list list" where
  "allMatches re b n pos prevMatchEnd =
     (if n \<le> 0 \<or> length b < pos then []
      else (case doExecute re b pos of
              None \<Rightarrow> []
            | Some m \<Rightarrow>
                if m ! 1 = int pos \<and> m ! 0 = prevMatchEnd
                then allMatches re b n (next_pos b pos m) (m ! 1)
                else m # allMatches re b (n - 1) (next_pos b pos m) (m ! 1)))"
  by pat_completeness auto
termination
  by (relation "measure (\<lambda>(re, b, n, pos, prev). Suc (length b) - pos)")
    (auto simp: not_less dest!: doExecute_ok dest: next_pos_bounds(1) intro!: diff_less_mono2)

declare allMatches.simps [simp del]

definition FindAllSubmatchIndex :: "regexp \<Rightarrow> bytes \<Rightarrow> int \<Rightarrow> int list list" where
  "FindAllSubmatchIndex re b n = allMatches re b (if n < 0 then int (length b) + 1 else n) 0 (-1)"

definition MatchString :: "regexp \<Rightarrow> string \<Rightarrow> bool" where
  "MatchString re s \<longleftrightarrow> doExecute re s 0 \<noteq> None"

text \<open>Matches one after the other, none starting before the end of the one before.\<close>

fun ordered_matches :: "nat \<Rightarrow> nat \<Rightarrow> int \<Rightarrow> int list list \<Rightarrow> bool" where
  "ordered_matches n len at [] = True"
| "ordered_matches n len at (m # ms) =
     (match_ok n len at m \<and> ordered_matches n len (m ! 1) ms)"

lemma ordered_matches_mono:
  "ordered_matches n len at ms \<Longrightarrow> at' \<le> at \<Longrightarrow> ordered_matches n len at' ms"
  by (cases ms) (auto intro: match_ok_mono)

lemma allMatches_ordered:
  "ordered_matches (re_numSubexp re) (length b) (int pos) (allMatches re b n pos prev)"
proof (induction re b n pos prev rule: allMatches.induct)
  case (1 re b n pos prev)
  show ?case
  proof (cases "n \<le> 0 \<or> length b < pos \<or> doExecute re b pos = None")
    case True
    then show ?thesis by (subst allMatches.simps) auto
  next
    case False
    then obtain m where m: "doExecute re b pos = Some m" and go: "\<not> (n \<le> 0 \<or> length b < pos)" by auto
    have ok: "match_ok (re_numSubexp re) (length b) (int pos) m" by (rule doExecute_ok [OF m])
    from go next_pos_bounds [OF ok]
    have np: "int pos \<le> int (next_pos b pos m)" "m ! 1 \<le> int (next_pos b pos m)" by auto
    show ?thesis
    proof (cases "m ! 1 = int pos \<and> m ! 0 = prev")
      case True
      with ordered_matches_mono [OF "1.IH"(1) [OF go m True] np(1)] m go show ?thesis
        by (subst allMatches.simps) simp
    next
      case False
      with ordered_matches_mono [OF "1.IH"(2) [OF go m False] np(2)] ok m go show ?thesis
        by (subst allMatches.simps) auto
    qed
  qed
qed

lemma allMatches_length: "0 \<le> n \<Longrightarrow> int (length (allMatches re b n pos prev)) \<le> n"
proof (induction re b n pos prev rule: allMatches.induct)
  case (1 re b n pos prev)
  show ?case
  proof (cases "n \<le> 0 \<or> length b < pos \<or> doExecute re b pos = None")
    case True
    with "1.prems" show ?thesis by (subst allMatches.simps) auto
  next
    case False
    then obtain m where m: "doExecute re b pos = Some m" and go: "\<not> (n \<le> 0 \<or> length b < pos)" by auto
    then show ?thesis
      using "1.IH"(1) [OF go m] "1.IH"(2) [OF go m]
      by (subst allMatches.simps) auto
  qed
qed

lemma FindAll_ordered: "ordered_matches (re_numSubexp re) (length b) 0 (FindAllSubmatchIndex re b n)"
  unfolding FindAllSubmatchIndex_def using allMatches_ordered [where pos = 0] by simp

lemma FindAll_length: "0 \<le> n \<Longrightarrow> int (length (FindAllSubmatchIndex re b n)) \<le> n"
  unfolding FindAllSubmatchIndex_def by (simp add: allMatches_length)

section \<open>Replacement templates\<close>

text \<open>The number of leading bytes of a group name in a template.\<close>

function name_span :: "unicode \<Rightarrow> string \<Rightarrow> nat" where
  "name_span U s =
     (if s = [] then 0
      else (let (r, w) = DecodeRune s
            in if IsLetter U r \<or> IsDigit U r \<or> r = 95 then w + name_span U (drop w s) else 0))"
  by pat_completeness auto
termination
  by (relation "measure (\<lambda>(U, s). length s)") (auto dest: DecodeRune_progress)

declare name_span.simps [simp del]

lemma name_span_le: "name_span U s \<le> length s"
proof (induction U s rule: name_span.induct)
  case (1 U s)
  show ?case
  proof (cases "s = []")
    case False
    obtain r w where rw: "DecodeRune s = (r, w)" by fastforce
    with False DecodeRune_width [of s] have "w \<le> length s" by simp
    with "1.IH" [OF False rw [symmetric]] False rw show ?thesis
      by (subst name_span.simps) (auto simp: Let_def)
  qed (simp add: name_span.simps)
qed

text \<open>A group number: decimal digits, \<open>-1\<close> for a name or a number that is too large.\<close>

fun name_num :: "int \<Rightarrow> string \<Rightarrow> int" where
  "name_num acc [] = acc"
| "name_num acc (c # cs) =
     (case digit_val c of
        None \<Rightarrow> -1
      | Some d \<Rightarrow> if 100000000 \<le> acc then -1 else name_num (acc * 10 + d) cs)"

text \<open>
  \<open>extract\<close>: a leading \<open>name\<close> or \<open>{name}\<close> of the text after a dollar sign: its name, its
  number (negative for a proper name), and the rest. \<open>None\<close> where it is malformed.
\<close>

definition extract_ref :: "unicode \<Rightarrow> string \<Rightarrow> (string \<times> int \<times> string) option" where
  "extract_ref U str =
     (if str = [] then None
      else (let brace = (hd str = CHR ''{'');
                s = (if brace then tl str else str);
                i = name_span U s;
                name = take i s
            in if i = 0 then None
               else if brace \<and> (length s \<le> i \<or> s ! i \<noteq> CHR ''}'') then None
               else (let num = (if hd name = CHR ''0'' \<and> 1 < length name then -1 else name_num 0 name)
                     in Some (name, num, drop (if brace then i + 1 else i) s))))"

lemma Cut_shorter: "(a, y) = Cut s c \<Longrightarrow> (b, True) = y \<Longrightarrow> length b < length s"
  by (drule sym, drule sym, simp, drule Cut_found) simp

lemma extract_ref_shorter: "extract_ref U s = Some (name, num, rest) \<Longrightarrow> length rest < length s"
  using name_span_le [of U "tl s"]
  by (auto simp: extract_ref_def Let_def split: if_splits)

text \<open>The text of group number \<open>k\<close>, nothing for a group that is not there or took no part.\<close>

definition group_text :: "bytes \<Rightarrow> int list \<Rightarrow> nat \<Rightarrow> panic + bytes" where
  "group_text src m k =
     (if 2 * k + 1 < length m \<and> 0 \<le> m ! (2 * k) then slice src (m ! (2 * k)) (m ! (2 * k + 1)) else Inr [])"

definition named_group :: "regexp \<Rightarrow> string \<Rightarrow> int list \<Rightarrow> nat option" where
  "named_group re name m =
     find (\<lambda>i. re_subexpNames re ! i = name \<and> 2 * i + 1 < length m \<and> 0 \<le> m ! (2 * i))
       [0..<length (re_subexpNames re)]"

definition reference_text :: "regexp \<Rightarrow> string \<Rightarrow> int \<Rightarrow> bytes \<Rightarrow> int list \<Rightarrow> panic + bytes" where
  "reference_text re name num src m =
     (if 0 \<le> num then group_text src m (nat num)
      else (case named_group re name m of None \<Rightarrow> Inr [] | Some i \<Rightarrow> group_text src m i))"

function expand :: "unicode \<Rightarrow> regexp \<Rightarrow> bytes \<Rightarrow> string \<Rightarrow> bytes \<Rightarrow> int list \<Rightarrow> panic + bytes" where
  "expand U re dst template src m =
     (case Cut template (CHR ''$'') of
        (before, after, ok) \<Rightarrow>
          if \<not> ok then Inr (dst @ template)
          else if after \<noteq> [] \<and> hd after = CHR ''$'' then expand U re (dst @ before @ ''$'') (tl after) src m
          else (case extract_ref U after of
                  None \<Rightarrow> expand U re (dst @ before @ ''$'') after src m
                | Some (name, num, rest) \<Rightarrow>
                    rbind (reference_text re name num src m)
                      (\<lambda>txt. expand U re (dst @ before @ txt) rest src m)))"
  by pat_completeness auto
termination
  by (relation "measure (\<lambda>(U, re, dst, template, src, m). length template)")
    (auto dest!: Cut_shorter dest: extract_ref_shorter)

declare expand.simps [simp del]

text \<open>Group bounds of an index vector are in range, so a template never makes the code panic.\<close>

lemma group_text_total:
  assumes "match_ok n (length src) at m"
  shows "\<exists>t. group_text src m k = Inr t"
proof (cases "2 * k + 1 < length m \<and> 0 \<le> m ! (2 * k)")
  case True
  with assms have "m ! (2 * k) \<le> m ! (2 * k + 1)" and "m ! (2 * k + 1) \<le> int (length src)"
    by (auto simp: match_ok_def)
  with True show ?thesis by (auto simp: group_text_def slice_Inr)
qed (auto simp: group_text_def)

lemma reference_text_total:
  "match_ok n (length src) at m \<Longrightarrow> \<exists>t. reference_text re name num src m = Inr t"
  by (auto simp: reference_text_def group_text_total split: option.splits)

lemma expand_total:
  "match_ok n (length src) at m \<Longrightarrow> \<exists>out. expand U re dst template src m = Inr (dst @ out)"
proof (induction U re dst template src m rule: expand.induct)
  case (1 U re dst template src m)
  obtain before after ok where cut: "Cut template (CHR ''$'') = (before, after, ok)" by (cases "Cut template (CHR ''$'')")
  note unfold = expand.simps [of U re dst template src m] cut
  consider (none) "\<not> ok" | (dollar) "ok" "after \<noteq> [] \<and> hd after = CHR ''$''"
    | (raw) "ok" "\<not> (after \<noteq> [] \<and> hd after = CHR ''$'')" "extract_ref U after = None"
    | (ref) name num rest where "ok" "\<not> (after \<noteq> [] \<and> hd after = CHR ''$'')"
        "extract_ref U after = Some (name, num, rest)"
    by (cases "extract_ref U after") auto
  then show ?case
  proof cases
    case none
    then show ?thesis by (simp add: unfold)
  next
    case dollar
    with "1.IH"(1) [OF cut [symmetric] refl] "1.prems" show ?thesis by (auto simp: unfold)
  next
    case raw
    with "1.IH"(2) [OF cut [symmetric] refl] "1.prems" show ?thesis by (auto simp: unfold)
  next
    case ref
    obtain t where t: "reference_text re name num src m = Inr t"
      using reference_text_total [OF "1.prems"] by blast
    from ref "1.IH"(3) [OF cut [symmetric] refl _ _ ref(3) refl refl t] "1.prems" t
    show ?thesis by (auto simp: unfold)
  qed
qed

section \<open>Building expressions\<close>

definition literal_char :: "char \<Rightarrow> regex" where
  "literal_char c = CharClass [(byte_val c, byte_val c)]"

text \<open>An ASCII literal, and \<open>r{0,n}\<close> as \<open>Simplify\<close> expands it.\<close>

fun literal_re :: "string \<Rightarrow> regex" where
  "literal_re [] = EmptyMatch"
| "literal_re [c] = literal_char c"
| "literal_re (c # cs) = Concat (literal_char c) (literal_re cs)"

fun upto_re :: "nat \<Rightarrow> regex \<Rightarrow> regex" where
  "upto_re 0 r = EmptyMatch"
| "upto_re (Suc n) r = Quest True (Concat r (upto_re n r))"

definition plain_regexp :: "regex \<Rightarrow> regexp" where
  "plain_regexp r = \<lparr>re_ast = r, re_numSubexp = 0, re_subexpNames = [[]]\<rparr>"

section \<open>Anchored expressions over ASCII classes\<close>

text \<open>
  The program's own patterns for names have the shape \<open>^[A][B]{0,n}$\<close> with ASCII classes.
  Such an expression matches exactly the strings it spells out.
\<close>

definition in_class :: "(nat \<times> nat) list \<Rightarrow> char \<Rightarrow> bool" where
  "in_class ranges c = list_ex (\<lambda>(lo, hi). lo \<le> byte_val c \<and> byte_val c \<le> hi) ranges"

definition ascii_class :: "(nat \<times> nat) list \<Rightarrow> bool" where
  "ascii_class ranges = list_all (\<lambda>(lo, hi). hi < 128) ranges"

lemma consume_ascii:
  assumes "ascii_class ranges"
  shows "consume ranges b (p, cs) = (if p < length b \<and> in_class ranges (b ! p) then [(Suc p, cs)] else [])"
proof (cases "p < length b")
  case True
  then have b: "drop p b = b ! p # drop (Suc p) b" by (simp add: Cons_nth_drop_Suc)
  show ?thesis
  proof (cases "byte_val (b ! p) < 128")
    case True
    with \<open>p < length b\<close> show ?thesis by (simp add: consume_def b DecodeRune_ascii in_class_def)
  next
    case False
    then have "128 \<le> fst (DecodeRune (drop p b))" unfolding b by (intro DecodeRune_non_ascii) simp
    with False assms have "\<not> list_ex (\<lambda>(lo, hi). lo \<le> r \<and> r \<le> hi) ranges"
      if "r = fst (DecodeRune (drop p b)) \<or> r = byte_val (b ! p)" for r
      using that by (fastforce simp: ascii_class_def list_all_iff list_ex_iff)
    then show ?thesis
      by (simp add: consume_def in_class_def case_prod_beta Let_def)
  qed
qed (simp add: consume_def)

lemma set_upto_outcomes:
  assumes "ascii_class ranges"
  shows "(q, ds) \<in> set (outcomes (upto_re n (CharClass ranges)) b (p, cs)) \<longleftrightarrow>
     ds = cs \<and> p \<le> q \<and> q \<le> p + n \<and> (\<forall>i. p \<le> i \<and> i < q \<longrightarrow> i < length b \<and> in_class ranges (b ! i))"
proof (induction n arbitrary: p)
  case 0
  show ?case by auto
next
  case (Suc n)
  have step: "(q, ds) \<in> set (outcomes (upto_re (Suc n) (CharClass ranges)) b (p, cs)) \<longleftrightarrow>
      (p < length b \<and> in_class ranges (b ! p) \<and> (q, ds) \<in> set (outcomes (upto_re n (CharClass ranges)) b (Suc p, cs)))
      \<or> (q = p \<and> ds = cs)"
    by (auto simp: consume_ascii [OF assms])
  let ?P = "\<lambda>i. i < length b \<and> in_class ranges (b ! i)"
  have split: "(\<forall>i. p \<le> i \<and> i < q \<longrightarrow> ?P i) \<longleftrightarrow> ?P p \<and> (\<forall>i. Suc p \<le> i \<and> i < q \<longrightarrow> ?P i)" if "p < q"
    using that by (auto simp: Suc_le_eq dest: le_neq_implies_less)
  show ?case
  proof (cases "p < q")
    case True
    then show ?thesis unfolding step Suc split [OF True] by (simp add: Suc_le_eq) blast
  next
    case False
    then show ?thesis unfolding step Suc by auto
  qed
qed

definition anchored_name :: "(nat \<times> nat) list \<Rightarrow> (nat \<times> nat) list \<Rightarrow> nat \<Rightarrow> regexp" where
  "anchored_name A B n = plain_regexp
     (Concat BeginText (Concat (CharClass A) (Concat (upto_re n (CharClass B)) EndText)))"

lemma outcomes_anchored_pos: "0 < pos \<Longrightarrow> outcomes (re_ast (anchored_name A B n)) b (pos, cs) = []"
  by (simp add: anchored_name_def plain_regexp_def assertion_def)

lemma doExecute_nothing:
  "(\<And>q. pos \<le> q \<Longrightarrow> outcomes (re_ast re) b (q, no_caps (re_numSubexp re)) = []) \<Longrightarrow> doExecute re b pos = None"
proof (induction re b pos rule: doExecute.induct)
  case (1 re b pos)
  then show ?case by (subst doExecute.simps) (auto simp: Let_def)
qed

lemma doExecute_anchored:
  "doExecute (anchored_name A B n) b 0 \<noteq> None \<longleftrightarrow> outcomes (re_ast (anchored_name A B n)) b (0, []) \<noteq> []"
proof -
  have none: "doExecute (anchored_name A B n) b pos = None" if "0 < pos" for pos
    using that by (intro doExecute_nothing outcomes_anchored_pos) simp
  have caps: "no_caps (re_numSubexp (anchored_name A B n)) = []"
    by (simp add: no_caps_def anchored_name_def plain_regexp_def)
  show ?thesis
    by (subst doExecute.simps) (auto simp: Let_def none caps split: list.split)
qed

lemma outcomes_anchored_0:
  assumes "ascii_class A" and "ascii_class B"
  shows "outcomes (re_ast (anchored_name A B n)) s (0, []) \<noteq> [] \<longleftrightarrow>
     s \<noteq> [] \<and> in_class A (hd s) \<and> length s \<le> Suc n \<and> (\<forall>c\<in>set (tl s). in_class B c)"
proof (cases s)
  case Nil
  then show ?thesis
    by (simp add: anchored_name_def plain_regexp_def assertion_def consume_ascii [OF assms(1)])
next
  case (Cons c t)
  let ?rest = "outcomes (upto_re n (CharClass B)) s (1, [])"
  have "outcomes (re_ast (anchored_name A B n)) s (0, []) \<noteq> [] \<longleftrightarrow>
      in_class A c \<and> (\<exists>st\<in>set ?rest. fst st = length s)"
    by (auto simp: anchored_name_def plain_regexp_def assertion_def consume_ascii [OF assms(1)] Cons)
  also have "(\<exists>st\<in>set ?rest. fst st = length s) \<longleftrightarrow> (\<exists>ds. (length s, ds) \<in> set ?rest)" by force
  also have "\<dots> \<longleftrightarrow> length s \<le> 1 + n \<and> (\<forall>i. 1 \<le> i \<and> i < length s \<longrightarrow> in_class B (s ! i))"
    by (auto simp: set_upto_outcomes [OF assms(2)] Cons)
  also have "(\<forall>i. 1 \<le> i \<and> i < length s \<longrightarrow> in_class B (s ! i)) \<longleftrightarrow> (\<forall>c\<in>set t. in_class B c)"
    by (force simp: Cons all_set_conv_all_nth nth_Cons' Suc_le_eq)
  finally show ?thesis by (simp add: Cons)
qed

lemma MatchString_anchored:
  "ascii_class A \<Longrightarrow> ascii_class B \<Longrightarrow> MatchString (anchored_name A B n) s \<longleftrightarrow>
     s \<noteq> [] \<and> in_class A (hd s) \<and> length s \<le> Suc n \<and> (\<forall>c\<in>set (tl s). in_class B c)"
  unfolding MatchString_def doExecute_anchored by (rule outcomes_anchored_0)

end
