(* ===== verification/Protocol.thy ===== *)
theory Protocol
  imports Messages GoRegexp
begin

text \<open>
  Checking messages (src/internal/protocol): \<open>Parse\<close> with the recovery of a request id from an undecodable
  payload, the constructors of replies and \<open>Marshal\<close>.
\<close>

section \<open>Parsing requests\<close>

datatype parse_err =
    InvalidJSON
  | RidMissing
  | VMissing
  | InspectorMissing
  | PhaseInvalid string
  | ReleaseNoToken
  | NoMethodOrURI
  | MixesUnavailable string
  | HalfAddress string

record ParseError =
  pe_RID :: string
  pe_Err :: parse_err

definition Locator_validate :: "Locator option \<Rightarrow> string \<Rightarrow> parse_err option" where
  "Locator_validate l obj = (case l of None \<Rightarrow> None
     | Some l \<Rightarrow>
         if l_Unavailable l \<noteq> [] \<and> (l_Driver l \<noteq> [] \<or> l_Key l \<noteq> []) then Some (MixesUnavailable obj)
         else if (l_Driver l = []) \<noteq> (l_Key l = []) then Some (HalfAddress obj)
         else None)"

fun first_error :: "(string \<times> Locator option) list \<Rightarrow> parse_err option" where
  "first_error [] = None"
| "first_error ((name, loc) # rest) =
     (case Locator_validate loc name of Some e \<Rightarrow> Some e | None \<Rightarrow> first_error rest)"

definition store_entries :: "string \<Rightarrow> Store \<Rightarrow> (string \<times> Locator option) list" where
  "store_entries pre s =
     [(pre @ NeedHeaders, s_Headers s), (pre @ NeedArgs, s_Args s), (pre @ NeedBody, s_Body s)]"

text \<open>The pattern \<open>"rid"\s*:\s*"([0-9a-fA-F]{1,32})"\<close>.\<close>

definition re_space :: regex where
  "re_space = CharClass [(9, 10), (12, 13), (32, 32)]"

definition re_hex :: regex where
  "re_hex = CharClass [(48, 57), (65, 70), (97, 102)]"

definition ridPattern :: regexp where
  "ridPattern =
     \<lparr>re_ast =
        Concat (literal_re ''\"rid\"'')
        (Concat (Star True re_space)
        (Concat (literal_re '':'')
        (Concat (Star True re_space)
        (Concat (literal_re ''\"'')
        (Concat (Capture 1 (Concat re_hex (upto_re 31 re_hex)))
        (literal_re ''\"'')))))),
      re_numSubexp = 1, re_subexpNames = [[], []]\<rparr>"

text \<open>\<open>FindSubmatch\<close>: the text of the whole match and of each group.\<close>

definition FindSubmatch :: "regexp \<Rightarrow> bytes \<Rightarrow> slice list option" where
  "FindSubmatch re b = map_option (\<lambda>m.
     map (\<lambda>k. if 0 \<le> m ! (2 * k) then Some (take (nat (m ! (2 * k + 1)) - nat (m ! (2 * k))) (drop (nat (m ! (2 * k))) b))
              else None) [0..<1 + re_numSubexp re])
     (doExecute re b 0)"

definition sniffRID :: "bytes \<Rightarrow> string" where
  "sniffRID payload =
     (case FindSubmatch ridPattern payload of
        None \<Rightarrow> []
      | Some m \<Rightarrow> (case m ! 1 of None \<Rightarrow> [] | Some t \<Rightarrow> t))"

text \<open>
  \<open>Parse\<close>. The two final loops range over a Go map, whose order is not fixed: \<open>ord\<close> is the
  order the run happens to take.
\<close>

definition Parse ::
  "((string \<times> Locator option) list \<Rightarrow> (string \<times> Locator option) list)
   \<Rightarrow> bytes \<Rightarrow> ParseError + Request" where
  "Parse ord payload =
     (case decodeRequest payload of
        None \<Rightarrow> Inl \<lparr>pe_RID = sniffRID payload, pe_Err = InvalidJSON\<rparr>
      | Some req \<Rightarrow>
          (let fail = (\<lambda>e. Inl \<lparr>pe_RID = r_RID req, pe_Err = e\<rparr>) in
           if r_RID req = [] then Inl \<lparr>pe_RID = [], pe_Err = RidMissing\<rparr>
           else if r_V req = 0 then fail VMissing
           else if r_Inspector req = [] then fail InspectorMissing
           else if r_Phase req \<notin> {PhaseRequest, PhaseResponse, PhaseFrame}
             then fail (PhaseInvalid (r_Phase req))
           else (case r_Release req of
               Some rel \<Rightarrow> if rl_Token rel = [] then fail ReleaseNoToken else Inr req
             | None \<Rightarrow>
                 if h_Method (r_HTTP req) = [] \<or> h_URI (r_HTTP req) = [] then fail NoMethodOrURI
                 else (case first_error (ord (store_entries [] (r_Store req))) of
                     Some e \<Rightarrow> fail e
                   | None \<Rightarrow>
                       (case first_error (ord (store_entries ''request_'' (r_RequestStore req))) of
                          Some e \<Rightarrow> fail e
                        | None \<Rightarrow> Inr req)))))"

section \<open>Replies\<close>

definition NewReply :: "Request \<Rightarrow> string \<Rightarrow> Reply" where
  "NewReply req verdict =
     \<lparr>y_V = r_V req, y_RID = r_RID req, y_Inspector = r_Inspector req, y_Verdict = verdict,
      y_Score = None, y_Reason = None, y_Response = None, y_Redirect = None, y_Headers = None,
      y_Rewrite = None, y_Continue = None, y_Actions = []\<rparr>"

definition ErrorReply :: "Request \<Rightarrow> string \<Rightarrow> Reply" where
  "ErrorReply req code =
     (NewReply req VerdictError)\<lparr>y_Reason := Some \<lparr>rn_Code = code, rn_Class = []\<rparr>\<rparr>"

definition ClassOverload :: string where "ClassOverload = ''overload''"

definition ShedReply :: "Request \<Rightarrow> string \<Rightarrow> Reply" where
  "ShedReply req code =
     (let reply = ErrorReply req code
      in reply\<lparr>y_Reason := map_option (\<lambda>r. r\<lparr>rn_Class := ClassOverload\<rparr>) (y_Reason reply)\<rparr>)"

definition FallbackReply :: "string \<Rightarrow> string \<Rightarrow> string \<Rightarrow> Reply" where
  "FallbackReply rid inspector code =
     \<lparr>y_V = Version, y_RID = rid, y_Inspector = inspector, y_Verdict = VerdictError,
      y_Score = None, y_Reason = Some \<lparr>rn_Code = code, rn_Class = []\<rparr>, y_Response = None,
      y_Redirect = None, y_Headers = None, y_Rewrite = None, y_Continue = None, y_Actions = []\<rparr>"

datatype score_err = ErrScoreRange int

definition WithScore :: "Reply \<Rightarrow> int \<Rightarrow> score_err + Reply" where
  "WithScore r score =
     (if score < 0 \<or> 100 < score then Inl (ErrScoreRange score)
      else Inr (r\<lparr>y_Verdict := VerdictScore, y_Score := Some score\<rparr>))"

definition Marshal :: "Reply \<Rightarrow> score_err + bytes" where
  "Marshal r =
     (case y_Score r of
        Some s \<Rightarrow> if s < 0 \<or> 100 < s then Inl (ErrScoreRange s) else Inr (encodeReply r)
      | None \<Rightarrow> Inr (encodeReply r))"

section \<open>What an accepted request satisfies\<close>

text \<open>A locator names an address, or says that there is none, or is empty; never a mixture.\<close>

definition locator_ok :: "Locator option \<Rightarrow> bool" where
  "locator_ok l = (case l of None \<Rightarrow> True
     | Some l \<Rightarrow> (l_Unavailable l \<noteq> [] \<longrightarrow> l_Driver l = [] \<and> l_Key l = [])
                 \<and> (l_Driver l = [] \<longleftrightarrow> l_Key l = []))"

definition store_ok :: "Store \<Rightarrow> bool" where
  "store_ok s \<longleftrightarrow> locator_ok (s_Headers s) \<and> locator_ok (s_Args s) \<and> locator_ok (s_Body s)"

definition request_ok :: "Request \<Rightarrow> bool" where
  "request_ok r \<longleftrightarrow>
     r_RID r \<noteq> [] \<and> r_V r \<noteq> 0 \<and> r_Inspector r \<noteq> [] \<and>
     r_Phase r \<in> {PhaseRequest, PhaseResponse, PhaseFrame} \<and>
     (case r_Release r of
        Some rel \<Rightarrow> rl_Token rel \<noteq> []
      | None \<Rightarrow> h_Method (r_HTTP r) \<noteq> [] \<and> h_URI (r_HTTP r) \<noteq> [] \<and>
                store_ok (r_Store r) \<and> store_ok (r_RequestStore r))"

lemma Locator_validate_None_iff: "Locator_validate l obj = None \<longleftrightarrow> locator_ok l"
  by (auto simp: Locator_validate_def locator_ok_def split: option.splits)

lemma first_error_None_iff: "first_error xs = None \<longleftrightarrow> (\<forall>(name, loc)\<in>set xs. locator_ok loc)"
  by (induction xs rule: first_error.induct) (auto simp: option.case_eq_if Locator_validate_None_iff)

lemma first_error_store:
  "range_order ord \<Longrightarrow> first_error (ord (store_entries pre s)) = None \<longleftrightarrow> store_ok s"
  by (auto simp: first_error_None_iff range_order_set store_entries_def store_ok_def)

lemma Parse_ok:
  assumes "range_order ord" and "decodeRequest payload = Some r" and "request_ok r"
  shows "Parse ord payload = Inr r"
  using assms(3)
  by (cases "r_Release r")
    (auto simp: Parse_def assms(2) request_ok_def Let_def option.case_eq_if first_error_store [OF assms(1)])

lemma Parse_not_ok:
  assumes "range_order ord" and "decodeRequest payload = Some r" and "\<not> request_ok r"
  shows "\<exists>e. Parse ord payload = Inl e"
proof (cases "r_Release r")
  case None
  have "store_ok (r_Store r) \<longleftrightarrow> first_error (ord (store_entries [] (r_Store r))) = None"
    and "store_ok (r_RequestStore r) \<longleftrightarrow> first_error (ord (store_entries ''request_'' (r_RequestStore r))) = None"
    by (simp_all only: first_error_store [OF assms(1)])
  with assms(3) None show ?thesis
    by (simp add: Parse_def assms(2) request_ok_def Let_def split: option.split) (elim disjE exE; simp)
next
  case (Some rel)
  with assms(3) show ?thesis
    by (auto simp: Parse_def assms(2) request_ok_def Let_def)
qed

lemma Parse_Inr_iff:
  assumes "range_order ord"
  shows "Parse ord payload = Inr req \<longleftrightarrow> decodeRequest payload = Some req \<and> request_ok req"
proof (cases "decodeRequest payload")
  case None
  then show ?thesis by (simp add: Parse_def)
next
  case (Some r)
  then show ?thesis
    using assms Parse_ok [of ord payload r] Parse_not_ok [of ord payload r]
    by (cases "request_ok r") auto
qed

lemma reply_simps [simp]:
  "y_V (NewReply req v) = r_V req" "y_RID (NewReply req v) = r_RID req"
  "y_Inspector (NewReply req v) = r_Inspector req" "y_Verdict (NewReply req v) = v"
  "y_Score (NewReply req v) = None" "y_Reason (NewReply req v) = None"
  "y_Response (NewReply req v) = None" "y_Headers (NewReply req v) = None"
  "y_Rewrite (NewReply req v) = None"
  by (simp_all add: NewReply_def)

lemma Marshal_total: "y_Score r = None \<Longrightarrow> Marshal r = Inr (encodeReply r)"
  by (simp add: Marshal_def)

section \<open>A small example\<close>

text \<open>A request with the members that \<open>Parse\<close> requires.\<close>

definition example_request :: Request where
  "example_request = zero_request\<lparr>r_V := 2, r_RID := ''ab12'', r_Phase := ''request'',
     r_Inspector := ''rewrite'', r_DeadlineMS := 50, r_HTTP := (r_HTTP zero_request)\<lparr>h_Method := ''GET'', h_URI := ''/''\<rparr>\<rparr>"

lemma example_request_ok: "request_ok example_request"
  by (simp add: request_ok_def example_request_def zero_request_def zero_HTTP_def zero_store_def store_ok_def
      locator_ok_def phase_defs)

lemma example_request_wf: "Request_wf example_request"
  by (simp add: example_request_def Request_wf_def zero_defs Conn_wf_def HTTP_wf_def Store_wf_def Route_wf_def
      ScoreState_wf_def valid_utf8_ascii is_ascii_def int64_def uint64_def)

section \<open>Properties\<close>

text \<open>
  C21. \<open>Parse\<close> accepts exactly the payloads that decode to a well-formed request, whatever the order
  in which the two maps of locators are ranged over; it returns the request as decoded.
\<close>

theorem Parse_accepts_iff:
  assumes "range_order ord"
  shows "Parse ord payload = Inr req \<longleftrightarrow> decodeRequest payload = Some req \<and> request_ok req"
  using assms by (rule Parse_Inr_iff)

lemma reverse_order: "range_order (rev :: (string \<times> Locator option) list \<Rightarrow> _)"
  by (simp add: range_order_def)

theorem Parse_accepts_iff_witness: "Parse rev (encodeRequest example_request) = Inr example_request"
  using Parse_accepts_iff [OF reverse_order, of "encodeRequest example_request" example_request]
  by (simp add: example_request_ok example_request_wf decode_encode)


lemma truncated_payload: "parse_json ''{\"rid\": \"7f\"'' = None"
  by code_simp




text \<open>
  C23. A well-formed request survives the wire: written as JSON by a client and read by \<open>Parse\<close>, it arrives
  unchanged.
\<close>

theorem request_survives:
  assumes "Request_wf req" and "request_ok req" and "range_order ord"
  shows "Parse ord (encodeRequest req) = Inr req"
  using assms by (simp add: Parse_Inr_iff decode_encode)

theorem request_survives_witness: "Parse rev (encodeRequest example_request) = Inr example_request"
  by (rule request_survives [OF example_request_wf example_request_ok reverse_order])

text \<open>
  A reply survives the wire: unless its score is out of range it is written, and the reader gets the same reply,
  with absent members absent again.
\<close>

theorem reply_survives:
  assumes "Reply_wf y" and "\<forall>s\<in>set_option (y_Score y). 0 \<le> s \<and> s \<le> 100"
  shows "\<exists>data. Marshal y = Inr data \<and> decodeReply data = Some y"
  using assms by (auto simp: Marshal_def decode_encode split: option.split)

theorem reply_survives_witness:
  "\<exists>data. Marshal (ShedReply example_request ''OVERLOAD'') = Inr data \<and> decodeReply data = Some (ShedReply example_request ''OVERLOAD'')"
  by (rule reply_survives)
    (simp_all add: ShedReply_def ErrorReply_def NewReply_def Reply_wf_def Reason_wf_def example_request_def zero_defs verdict_defs
      ClassOverload_def valid_utf8_ascii is_ascii_def int64_def)

end
