(* ===== verification/Profile.thy ===== *)
theory Profile
  imports Protocol
begin

text \<open>
  Profiles: the configuration of one rewriting policy (src/internal/config/profile.go). The
  data types, the selection predicates of a group, and the validation that also fills in
  defaults and compiles the patterns. A pointer in a list that YAML can set to null is an
  option; reading through it panics. \<open>recomp\<close> is \<open>regexp.Compile\<close> and \<open>decode\<close> the YAML decoder
  over the default profile.
\<close>

section \<open>Constants\<close>

definition ModeEnforce :: string where "ModeEnforce = ''enforce''"
definition ModeObserve :: string where "ModeObserve = ''observe''"
definition ModeOff :: string where "ModeOff = ''off''"

lemmas mode_defs = ModeEnforce_def ModeObserve_def ModeOff_def

definition OnResponse :: string where "OnResponse = ''response''"
definition OnFrame :: string where "OnFrame = ''frame''"

definition DirectionC2S :: string where "DirectionC2S = ''c2s''"
definition DirectionS2C :: string where "DirectionS2C = ''s2c''"

definition OpcodeText :: string where "OpcodeText = ''text''"
definition OpcodeBinary :: string where "OpcodeBinary = ''binary''"
definition OpcodeContinuation :: string where "OpcodeContinuation = ''continuation''"

definition DefaultName :: string where "DefaultName = ''default''"
definition ProbeName :: string where "ProbeName = ''_probe''"
definition DefaultDenyResponse :: string where "DefaultDenyResponse = ''rewrite_failed''"

definition MaxGroups :: nat where "MaxGroups = 16"
definition MaxOpsPerGroup :: nat where "MaxOpsPerGroup = 32"
definition MaxMatchesPerOp :: int where "MaxMatchesPerOp = 4096"
definition DefaultMaxMatch :: int where "DefaultMaxMatch = 256"
definition MatchBudget :: int where "MatchBudget = 4096"
definition MaxPatternLength :: nat where "MaxPatternLength = 512"

lemmas limit_defs = MaxGroups_def MaxOpsPerGroup_def MaxMatchesPerOp_def DefaultMaxMatch_def
  MatchBudget_def MaxPatternLength_def

text \<open>The pattern \<open>^[a-z_][a-z0-9_-]{0,63}$\<close>.\<close>

definition nameRe :: regexp where
  "nameRe = anchored_name [(95, 95), (97, 122)] [(45, 45), (48, 57), (95, 95), (97, 122)] 63"

definition forbiddenHeader :: "string list" where
  "forbiddenHeader =
     [''host'', ''authorization'', ''cookie'', ''content-length'', ''transfer-encoding'',
      ''content-encoding'', ''connection'', ''upgrade'', ''keep-alive'', ''proxy-authenticate'',
      ''proxy-authorization'', ''te'', ''trailer'', ''location'', ''date'']"

definition OpRemove :: string where "OpRemove = ''remove''"
definition OpReplace :: string where "OpReplace = ''replace''"
definition OpInsertBefore :: string where "OpInsertBefore = ''insert_before''"
definition OpInsertAfter :: string where "OpInsertAfter = ''insert_after''"
definition OpSet :: string where "OpSet = ''set''"
definition OpUnset :: string where "OpUnset = ''unset''"

lemmas op_defs =
  OpRemove_def OpReplace_def OpInsertBefore_def OpInsertAfter_def OpSet_def OpUnset_def

section \<open>Data\<close>

record BodyOp =
  b_Op :: string
  b_Pattern :: string
  b_To :: string
  b_Text :: string
  b_MaxMatches :: int
  b_re :: "regexp option"

definition BodyOp_Regexp :: "BodyOp \<Rightarrow> regexp option" where
  "BodyOp_Regexp op = b_re op"

record HeaderOp =
  hp_Op :: string
  hp_Name :: string
  hp_Value :: string

record Group =
  g_Name :: string
  g_Default :: bool
  g_On :: string
  g_Status :: "int list"
  g_ContentType :: "string list"
  g_Direction :: "string list"
  g_Opcode :: "string list"
  g_Body :: "BodyOp option list"
  g_Headers :: "HeaderOp list"

definition AnyInspector :: string where "AnyInspector = ''*''"

record PriorRule =
  pr_From :: string
  pr_Accept :: "string list"
  pr_Codes :: "string list"

definition SetOn :: string where "SetOn = ''on''"
definition SetOff :: string where "SetOff = ''off''"

text \<open>The field \<open>Trigger\<close> holds one list, the prior rules.\<close>

record Profile =
  p_Name :: string
  p_Description :: string
  p_Mode :: string
  p_DenyResponse :: string
  p_Groups :: "Group option list"
  p_Prior :: "PriorRule list"

section \<open>Selection\<close>

definition Group_OnFrame :: "Group \<Rightarrow> bool" where
  "Group_OnFrame g \<longleftrightarrow> g_On g = OnFrame"

definition hasFold :: "unicode \<Rightarrow> string list \<Rightarrow> string \<Rightarrow> bool" where
  "hasFold U xs want = list_ex (\<lambda>item. EqualFold U item want) xs"

definition MatchesFrame :: "unicode \<Rightarrow> Group \<Rightarrow> string \<Rightarrow> string \<Rightarrow> bool" where
  "MatchesFrame U g direction opcode =
     (if g_Direction g \<noteq> [] \<and> \<not> hasFold U (g_Direction g) direction then False
      else g_Opcode g = [] \<or> hasFold U (g_Opcode g) opcode)"

definition typeAllowed :: "unicode \<Rightarrow> string list \<Rightarrow> string \<Rightarrow> bool" where
  "typeAllowed U want contentType =
     (if want = [] then True
      else (let ct = ToLower U (TrimSpace contentType);
                ct = (case Cut ct (CHR '';'') of (a, _, found) \<Rightarrow> if found then TrimSpace a else ct)
            in list_ex (\<lambda>w. let w = ToLower U (TrimSpace w)
                            in if prefix ''+'' w then suffix w ct else ct = w) want))"

definition Matches :: "unicode \<Rightarrow> Group \<Rightarrow> int \<Rightarrow> string \<Rightarrow> bool" where
  "Matches U g status contentType =
     (if g_Status g \<noteq> [] \<and> \<not> list_ex (\<lambda>s. s = status) (g_Status g) then False
      else typeAllowed U (g_ContentType g) contentType)"

definition HasBody :: "Group \<Rightarrow> bool" where
  "HasBody g \<longleftrightarrow> g_Body g \<noteq> []"

definition Accepts :: "PriorRule \<Rightarrow> string \<Rightarrow> bool" where
  "Accepts r verb = list_ex (\<lambda>v. v = verb) (pr_Accept r)"

definition WantsCode :: "PriorRule \<Rightarrow> string \<Rightarrow> bool" where
  "WantsCode r code = (if pr_Codes r = [] then True else list_ex (\<lambda>c. c = code) (pr_Codes r))"

section \<open>Validation\<close>

datatype berr =
    BadBodyOp string | PatternEmpty | PatternTooLong | PatternInvalid
  | TextOnReplace | ToNotReplace | TextEmpty | MaxMatchesRange int

datatype herr =
    BadHeaderOp string | BadHeaderName string | ForbiddenHeader string
  | SetCookieSet | ContentTypeUnset | ValueControl string | ValueOnUnset

datatype gerr =
    NoOperations | FrameSelectors | FrameHeaders | ResponseSelectors
  | BadDirection string | BadOpcode string | BadOn string | TooManyOps nat | BadStatus int
  | InBody nat berr | InHeaders nat herr

datatype perr =
    PriorFromEmpty | PriorAnyInspector | PriorAcceptEmpty | PriorNotOurs string | PriorUnknownVerb string

datatype verr =
    BadMode string | DenyResponseEmpty | TooManyGroups nat
  | GroupEmpty nat | BadGroupName nat string | DuplicateGroup nat string
  | InGroup string gerr | InPrior nat perr

definition compile :: "(string \<Rightarrow> regexp option) \<Rightarrow> BodyOp option \<Rightarrow> berr fault + BodyOp option" where
  "compile recomp op =
     (case op of
        None \<Rightarrow> Inl (Panics NilDereference)
      | Some ob \<Rightarrow>
          if b_Op ob \<notin> {OpRemove, OpReplace, OpInsertBefore, OpInsertAfter} then Inl (Fails (BadBodyOp (b_Op ob)))
          else if b_Pattern ob = [] then Inl (Fails PatternEmpty)
          else if MaxPatternLength < length (b_Pattern ob) then Inl (Fails PatternTooLong)
          else (case recomp (b_Pattern ob) of
              None \<Rightarrow> Inl (Fails PatternInvalid)
            | Some re \<Rightarrow>
                (let ob = ob\<lparr>b_re := Some re\<rparr> in
                 if b_Op ob = OpReplace \<and> b_Text ob \<noteq> [] then Inl (Fails TextOnReplace)
                 else if b_Op ob \<noteq> OpReplace \<and> b_To ob \<noteq> [] then Inl (Fails ToNotReplace)
                 else if (b_Op ob = OpInsertBefore \<or> b_Op ob = OpInsertAfter) \<and> b_Text ob = []
                   then Inl (Fails TextEmpty)
                 else (let ob = (if b_MaxMatches ob = 0 then ob\<lparr>b_MaxMatches := DefaultMaxMatch\<rparr> else ob) in
                   if b_MaxMatches ob < 0 \<or> MaxMatchesPerOp < b_MaxMatches ob
                   then Inl (Fails (MaxMatchesRange (b_MaxMatches ob)))
                   else Inr (Some ob)))))"

text \<open>The pattern \<open>^[A-Za-z0-9._~-]{1,128}$\<close>.\<close>

definition header_class :: "(nat \<times> nat) list" where
  "header_class = [(45, 46), (48, 57), (65, 90), (95, 95), (97, 122), (126, 126)]"

definition headerNameRe :: regexp where
  "headerNameRe = anchored_name header_class header_class 127"

definition HeaderOp_validate :: "unicode \<Rightarrow> HeaderOp \<Rightarrow> herr fault + HeaderOp" where
  "HeaderOp_validate U o1 =
     (if hp_Op o1 \<notin> {OpSet, OpUnset} then Inl (Fails (BadHeaderOp (hp_Op o1)))
      else if \<not> MatchString headerNameRe (hp_Name o1) then Inl (Fails (BadHeaderName (hp_Name o1)))
      else (let lower = ToLower U (hp_Name o1) in
        if lower \<in> set forbiddenHeader then Inl (Fails (ForbiddenHeader (hp_Name o1)))
        else if hp_Op o1 = OpSet \<and> lower = ''set-cookie'' then Inl (Fails SetCookieSet)
        else if hp_Op o1 = OpUnset \<and> lower = ''content-type'' then Inl (Fails ContentTypeUnset)
        else if hp_Op o1 = OpSet \<and> ContainsAny (hp_Value o1) [CHR 0x0D, CHR 0x0A, CHR 0x00]
          then Inl (Fails (ValueControl (hp_Name o1)))
        else if hp_Op o1 \<noteq> OpSet \<and> hp_Value o1 \<noteq> [] then Inl (Fails ValueOnUnset)
        else Inr o1))"

text \<open>The part of \<open>Group.validate\<close> that depends on the phase the group is for.\<close>

definition validate_on :: "Group \<Rightarrow> gerr fault + Group" where
  "validate_on g =
     (if g_On g = OnResponse
      then (if g_Direction g \<noteq> [] \<or> g_Opcode g \<noteq> [] then Inl (Fails FrameSelectors) else Inr g)
      else if g_On g = OnFrame
      then (if g_Headers g \<noteq> [] then Inl (Fails FrameHeaders)
            else if g_Status g \<noteq> [] \<or> g_ContentType g \<noteq> [] then Inl (Fails ResponseSelectors)
            else (case find (\<lambda>d. d \<noteq> DirectionC2S \<and> d \<noteq> DirectionS2C) (g_Direction g) of
                Some d \<Rightarrow> Inl (Fails (BadDirection d))
              | None \<Rightarrow>
                  (case find (\<lambda>op. op \<noteq> OpcodeText \<and> op \<noteq> OpcodeBinary \<and> op \<noteq> OpcodeContinuation) (g_Opcode g) of
                     Some op \<Rightarrow> Inl (Fails (BadOpcode op))
                   | None \<Rightarrow> Inr (if g_Opcode g = [] then g\<lparr>g_Opcode := [OpcodeText]\<rparr> else g))))
      else Inl (Fails (BadOn (g_On g))))"

definition Group_validate :: "unicode \<Rightarrow> (string \<Rightarrow> regexp option) \<Rightarrow> Group \<Rightarrow> gerr fault + Group" where
  "Group_validate U recomp g =
     (if length (g_Body g) + length (g_Headers g) = 0 then Inl (Fails NoOperations)
      else rbind (validate_on (if g_On g = [] then g\<lparr>g_On := OnResponse\<rparr> else g)) (\<lambda>g.
        if MaxOpsPerGroup < length (g_Body g) + length (g_Headers g)
        then Inl (Fails (TooManyOps (length (g_Body g) + length (g_Headers g))))
        else (case find (\<lambda>s. s < 100 \<or> 599 < s) (g_Status g) of
            Some s \<Rightarrow> Inl (Fails (BadStatus s))
          | None \<Rightarrow>
              rbind (ifor_each (\<lambda>i op. wrap_err (InBody i) (compile recomp op)) 0 (g_Body g)) (\<lambda>body.
              rbind (ifor_each (\<lambda>i op. wrap_err (InHeaders i) (HeaderOp_validate U op)) 0 (g_Headers g)) (\<lambda>_.
                Inr (g\<lparr>g_Body := body\<rparr>))))))"

definition validatePrior :: "PriorRule \<Rightarrow> perr fault + PriorRule" where
  "validatePrior r =
     (if pr_From r = [] then Inl (Fails PriorFromEmpty)
      else if pr_From r = AnyInspector then Inl (Fails PriorAnyInspector)
      else if pr_Accept r = [] then Inl (Fails PriorAcceptEmpty)
      else (case find (\<lambda>verb. verb \<notin> {DoMutate, DoSkip}) (pr_Accept r) of
          Some verb \<Rightarrow>
            if verb \<in> {DoChallenge, DoReauth, DoThreshold, DoNote} then Inl (Fails (PriorNotOurs verb))
            else Inl (Fails (PriorUnknownVerb verb))
        | None \<Rightarrow> Inr r))"

fun validate_groups ::
  "unicode \<Rightarrow> (string \<Rightarrow> regexp option) \<Rightarrow> nat \<Rightarrow> string list \<Rightarrow> Group option list \<Rightarrow> verr fault + Group option list" where
  "validate_groups U recomp i seen [] = Inr []"
| "validate_groups U recomp i seen (None # gs) = Inl (Fails (GroupEmpty i))"
| "validate_groups U recomp i seen (Some g # gs) =
     (if \<not> MatchString nameRe (g_Name g) then Inl (Fails (BadGroupName i (g_Name g)))
      else if g_Name g \<in> set seen then Inl (Fails (DuplicateGroup i (g_Name g)))
      else rbind (wrap_err (InGroup (g_Name g)) (Group_validate U recomp g)) (\<lambda>g'.
           rbind (validate_groups U recomp (Suc i) (g_Name g # seen) gs) (\<lambda>gs'.
             Inr (Some g' # gs'))))"

definition Validate :: "unicode \<Rightarrow> (string \<Rightarrow> regexp option) \<Rightarrow> Profile \<Rightarrow> verr fault + Profile" where
  "Validate U recomp p =
     (if p_Mode p \<notin> {ModeEnforce, ModeObserve, ModeOff} then Inl (Fails (BadMode (p_Mode p)))
      else if p_DenyResponse p = [] then Inl (Fails DenyResponseEmpty)
      else if MaxGroups < length (p_Groups p) then Inl (Fails (TooManyGroups (length (p_Groups p))))
      else rbind (validate_groups U recomp 0 [] (p_Groups p)) (\<lambda>gs.
           rbind (ifor_each (\<lambda>i r. wrap_err (InPrior i) (validatePrior r)) 0 (p_Prior p)) (\<lambda>_.
             Inr (p\<lparr>p_Groups := gs\<rparr>))))"

definition defaults :: "string \<Rightarrow> Profile" where
  "defaults name =
     \<lparr>p_Name = name, p_Description = [], p_Mode = ModeEnforce, p_DenyResponse = DefaultDenyResponse,
      p_Groups = [], p_Prior = []\<rparr>"

definition ParseProfile :: "(Profile \<Rightarrow> bytes \<Rightarrow> Profile option) \<Rightarrow> string \<Rightarrow> bytes \<Rightarrow> Profile option" where
  "ParseProfile decode name raw =
     map_option (\<lambda>p. p\<lparr>p_Name := name\<rparr>) (decode (defaults name) raw)"

section \<open>Well-formed configuration\<close>

definition body_op_ok :: "(string \<Rightarrow> regexp option) \<Rightarrow> BodyOp option \<Rightarrow> bool" where
  "body_op_ok recomp op = (case op of None \<Rightarrow> False
     | Some ob \<Rightarrow>
         b_Op ob \<in> {OpRemove, OpReplace, OpInsertBefore, OpInsertAfter} \<and>
         b_Pattern ob \<noteq> [] \<and> length (b_Pattern ob) \<le> MaxPatternLength \<and>
         b_re ob \<noteq> None \<and> recomp (b_Pattern ob) = b_re ob \<and>
         (b_Op ob = OpReplace \<longrightarrow> b_Text ob = []) \<and> (b_Op ob \<noteq> OpReplace \<longrightarrow> b_To ob = []) \<and>
         (b_Op ob \<in> {OpInsertBefore, OpInsertAfter} \<longrightarrow> b_Text ob \<noteq> []) \<and>
         1 \<le> b_MaxMatches ob \<and> b_MaxMatches ob \<le> MaxMatchesPerOp)"

definition header_op_ok :: "unicode \<Rightarrow> HeaderOp \<Rightarrow> bool" where
  "header_op_ok U h \<longleftrightarrow>
     hp_Op h \<in> {OpSet, OpUnset} \<and> MatchString headerNameRe (hp_Name h) \<and>
     ToLower U (hp_Name h) \<notin> set forbiddenHeader \<and>
     (hp_Op h = OpSet \<longrightarrow> ToLower U (hp_Name h) \<noteq> ''set-cookie'' \<and>
        \<not> ContainsAny (hp_Value h) [CHR 0x0D, CHR 0x0A, CHR 0x00]) \<and>
     (hp_Op h = OpUnset \<longrightarrow> ToLower U (hp_Name h) \<noteq> ''content-type'' \<and> hp_Value h = [])"

definition phase_ok :: "Group \<Rightarrow> bool" where
  "phase_ok g \<longleftrightarrow>
     (g_On g = OnResponse \<and> g_Direction g = [] \<and> g_Opcode g = []) \<or>
     (g_On g = OnFrame \<and> g_Headers g = [] \<and> g_Status g = [] \<and> g_ContentType g = [] \<and>
      set (g_Direction g) \<subseteq> {DirectionC2S, DirectionS2C} \<and>
      g_Opcode g \<noteq> [] \<and> set (g_Opcode g) \<subseteq> {OpcodeText, OpcodeBinary, OpcodeContinuation})"

definition group_ok :: "unicode \<Rightarrow> (string \<Rightarrow> regexp option) \<Rightarrow> Group \<Rightarrow> bool" where
  "group_ok U recomp g \<longleftrightarrow>
     phase_ok g \<and>
     0 < length (g_Body g) + length (g_Headers g) \<and>
     length (g_Body g) + length (g_Headers g) \<le> MaxOpsPerGroup \<and>
     (\<forall>s\<in>set (g_Status g). 100 \<le> s \<and> s \<le> 599) \<and>
     (\<forall>op\<in>set (g_Body g). body_op_ok recomp op) \<and> (\<forall>h\<in>set (g_Headers g). header_op_ok U h)"

definition prior_ok :: "PriorRule \<Rightarrow> bool" where
  "prior_ok r \<longleftrightarrow>
     pr_From r \<noteq> [] \<and> pr_From r \<noteq> AnyInspector \<and> pr_Accept r \<noteq> [] \<and> set (pr_Accept r) \<subseteq> {DoMutate, DoSkip}"

definition group_names :: "Group option list \<Rightarrow> string list" where
  "group_names gs = map (\<lambda>g. g_Name (the g)) gs"

definition groups_ok :: "unicode \<Rightarrow> (string \<Rightarrow> regexp option) \<Rightarrow> Group option list \<Rightarrow> bool" where
  "groups_ok U recomp gs \<longleftrightarrow>
     (\<forall>g\<in>set gs. \<exists>g'. g = Some g' \<and> MatchString nameRe (g_Name g') \<and> group_ok U recomp g') \<and>
     distinct (group_names gs)"

definition profile_ok :: "unicode \<Rightarrow> (string \<Rightarrow> regexp option) \<Rightarrow> Profile \<Rightarrow> bool" where
  "profile_ok U recomp p \<longleftrightarrow>
     p_Mode p \<in> {ModeEnforce, ModeObserve, ModeOff} \<and> p_DenyResponse p \<noteq> [] \<and>
     length (p_Groups p) \<le> MaxGroups \<and> groups_ok U recomp (p_Groups p) \<and> (\<forall>r\<in>set (p_Prior p). prior_ok r)"

interpretation body_op: normaliser "compile recomp" "body_op_ok recomp" for recomp
proof
  fix x y assume "compile recomp x = Inr y"
  then show "body_op_ok recomp y"
    by (auto simp: compile_def body_op_ok_def Let_def limit_defs op_defs
        split: option.splits if_splits)
next
  fix y assume "body_op_ok recomp y"
  then show "compile recomp y = Inr y"
    by (cases y) (auto simp: compile_def body_op_ok_def Let_def op_defs)
qed

interpretation header_op: normaliser "HeaderOp_validate U" "header_op_ok U" for U
proof
  fix x y assume "HeaderOp_validate U x = Inr y"
  then show "header_op_ok U y"
    by (auto simp: HeaderOp_validate_def header_op_ok_def Let_def op_defs split: if_splits)
next
  fix y assume "header_op_ok U y"
  then show "HeaderOp_validate U y = Inr y"
    by (auto simp: HeaderOp_validate_def header_op_ok_def Let_def op_defs)
qed

interpretation group_phase: normaliser validate_on phase_ok
proof
  fix x y assume "validate_on x = Inr y"
  then show "phase_ok y"
    by (auto simp: validate_on_def phase_ok_def find_None_iff split: if_splits option.splits)
next
  fix y assume ok: "phase_ok y"
  then have "find (\<lambda>d. d \<noteq> DirectionC2S \<and> d \<noteq> DirectionS2C) (g_Direction y) = None"
    and "find (\<lambda>op. op \<noteq> OpcodeText \<and> op \<noteq> OpcodeBinary \<and> op \<noteq> OpcodeContinuation) (g_Opcode y) = None"
    by (auto simp: phase_ok_def find_None_iff)
  with ok show "validate_on y = Inr y"
    by (auto simp: validate_on_def phase_ok_def OnResponse_def OnFrame_def)
qed

interpretation prior_rule: normaliser validatePrior prior_ok
proof
  fix x y assume "validatePrior x = Inr y"
  then show "prior_ok y"
    by (auto simp: validatePrior_def prior_ok_def find_None_iff split: if_splits option.splits)
next
  fix y assume ok: "prior_ok y"
  then have "find (\<lambda>verb. verb \<notin> {DoMutate, DoSkip}) (pr_Accept y) = None"
    by (auto simp: prior_ok_def find_None_iff)
  with ok show "validatePrior y = Inr y"
    by (simp add: validatePrior_def prior_ok_def)
qed

text \<open>The parts of a group that the phase check leaves alone.\<close>

lemma validate_on_frame:
  "validate_on g = Inr g' \<Longrightarrow> g_Name g' = g_Name g \<and> g_Body g' = g_Body g \<and> g_Headers g' = g_Headers g \<and> g_Status g' = g_Status g"
  by (auto simp: validate_on_def split: if_splits option.splits)

lemma phase_ok_body: "phase_ok (g\<lparr>g_Body := b\<rparr>) = phase_ok g"
  by (simp add: phase_ok_def)

lemma phase_ok_on: "phase_ok g \<Longrightarrow> g_On g \<noteq> []"
  by (auto simp: phase_ok_def OnResponse_def OnFrame_def)

lemma Group_validate_Inr:
  assumes "Group_validate U recomp g = Inr g'"
  shows "group_ok U recomp g'" and "g_Name g' = g_Name g" and "g_Headers g' = g_Headers g"
proof -
  let ?g1 = "if g_On g = [] then g\<lparr>g_On := OnResponse\<rparr> else g"
  from assms obtain g2 body hs where on: "validate_on ?g1 = Inr g2"
    and ops: "\<not> MaxOpsPerGroup < length (g_Body g2) + length (g_Headers g2)"
    and status: "find (\<lambda>s. s < 100 \<or> 599 < s) (g_Status g2) = None"
    and body: "for_each (compile recomp) (g_Body g2) = Inr body"
    and heads: "for_each (HeaderOp_validate U) (g_Headers g2) = Inr hs"
    and g': "g' = g2\<lparr>g_Body := body\<rparr>"
    and some: "length (g_Body g) + length (g_Headers g) \<noteq> 0"
    by (auto simp: Group_validate_def rbind_Inr_iff ifor_each_wrap_Inr_iff split: if_splits option.splits)
  have same: "g_Body g2 = g_Body g" "g_Headers g2 = g_Headers g" "g_Name g2 = g_Name g"
    using validate_on_frame [OF on] by (auto split: if_splits)
  have "hs = g_Headers g2"
    by (rule for_each_pure_check [OF _ heads])
      (auto simp: HeaderOp_validate_def Let_def split: if_splits)
  with header_op.for_each_all_ok [OF heads] have "\<forall>h\<in>set (g_Headers g2). header_op_ok U h" by simp
  moreover have "\<forall>op\<in>set body. body_op_ok recomp op" by (rule body_op.for_each_all_ok [OF body])
  moreover have "phase_ok g2" by (rule group_phase.check_ok [OF on])
  moreover have "\<forall>s\<in>set (g_Status g2). 100 \<le> s \<and> s \<le> 599"
    using status by (auto simp: find_None_iff not_less)
  ultimately show "group_ok U recomp g'"
    using ops some same for_each_length [OF body] by (simp add: group_ok_def g' phase_ok_body)
  show "g_Name g' = g_Name g" and "g_Headers g' = g_Headers g" by (simp_all add: g' same)
qed

interpretation group_check: normaliser "Group_validate U recomp" "group_ok U recomp" for U recomp
proof
  fix x y assume "Group_validate U recomp x = Inr y"
  then show "group_ok U recomp y" by (rule Group_validate_Inr(1))
next
  fix y assume ok: "group_ok U recomp y"
  then have on: "validate_on y = Inr y" "g_On y \<noteq> []"
    by (auto simp: group_ok_def intro: group_phase.ok_check dest: phase_ok_on)
  have status: "find (\<lambda>s. s < 100 \<or> 599 < s) (g_Status y) = None"
    using ok by (auto simp: group_ok_def find_None_iff)
  have body: "ifor_each (\<lambda>i op. wrap_err (InBody i) (compile recomp op)) 0 (g_Body y) = Inr (g_Body y)"
    using ok by (simp add: group_ok_def ifor_each_wrap_Inr_iff body_op.for_each_accepts)
  have heads: "ifor_each (\<lambda>i op. wrap_err (InHeaders i) (HeaderOp_validate U op)) 0 (g_Headers y) = Inr (g_Headers y)"
    using ok by (simp add: group_ok_def ifor_each_wrap_Inr_iff header_op.for_each_accepts)
  from ok on status body heads show "Group_validate U recomp y = Inr y"
    by (auto simp: Group_validate_def group_ok_def)
qed

lemma validate_groups_Inr:
  "validate_groups U recomp i seen gs = Inr gs' \<Longrightarrow>
     groups_ok U recomp gs' \<and> group_names gs' = group_names gs \<and> set (group_names gs') \<inter> set seen = {}
     \<and> length gs' = length gs"
proof (induction U recomp i seen gs arbitrary: gs' rule: validate_groups.induct)
  case (3 U recomp i seen g gs)
  from "3.prems" obtain g1 gs1 where name: "MatchString nameRe (g_Name g)" "g_Name g \<notin> set seen"
    and g1: "Group_validate U recomp g = Inr g1"
    and gs1: "validate_groups U recomp (Suc i) (g_Name g # seen) gs = Inr gs1"
    and gs': "gs' = Some g1 # gs1"
    by (auto simp: rbind_Inr_iff split: if_splits)
  have "wrap_err (InGroup (g_Name g)) (Group_validate U recomp g) = Inr g1" using g1 by simp
  then have IH: "groups_ok U recomp gs1" "group_names gs1 = group_names gs"
      "set (group_names gs1) \<inter> set (g_Name g # seen) = {}" "length gs1 = length gs"
    using "3.IH" gs1 name by (metis rbind.simps(2))+
  with name Group_validate_Inr [OF g1] show ?case
    by (auto simp: gs' groups_ok_def group_names_def)
qed (auto simp: groups_ok_def group_names_def)

lemma validate_groups_accepts:
  "groups_ok U recomp gs \<Longrightarrow> set (group_names gs) \<inter> set seen = {} \<Longrightarrow> validate_groups U recomp i seen gs = Inr gs"
proof (induction U recomp i seen gs rule: validate_groups.induct)
  case (3 U recomp i seen g gs)
  then have "Group_validate U recomp g = Inr g"
    by (intro group_check.ok_check) (auto simp: groups_ok_def)
  with 3 show ?case
    by (auto simp: groups_ok_def group_names_def)
qed (auto simp: groups_ok_def)

interpretation profile_check: normaliser "Validate U recomp" "profile_ok U recomp" for U recomp
proof
  fix x y assume "Validate U recomp x = Inr y"
  then obtain gs rs where top: "p_Mode x \<in> {ModeEnforce, ModeObserve, ModeOff}" "p_DenyResponse x \<noteq> []"
      "\<not> MaxGroups < length (p_Groups x)"
    and gs: "validate_groups U recomp 0 [] (p_Groups x) = Inr gs"
    and rs: "for_each validatePrior (p_Prior x) = Inr rs" and y: "y = x\<lparr>p_Groups := gs\<rparr>"
    by (auto simp: Validate_def rbind_Inr_iff ifor_each_wrap_Inr_iff split: if_splits)
  have "rs = p_Prior x"
    by (rule for_each_pure_check [OF _ rs]) (auto simp: validatePrior_def split: if_splits option.splits)
  with prior_rule.for_each_all_ok [OF rs] have "\<forall>r\<in>set (p_Prior x). prior_ok r" by simp
  with top validate_groups_Inr [OF gs] show "profile_ok U recomp y"
    by (simp add: profile_ok_def y)
next
  fix y assume ok: "profile_ok U recomp y"
  then have "validate_groups U recomp 0 [] (p_Groups y) = Inr (p_Groups y)"
    by (intro validate_groups_accepts) (auto simp: profile_ok_def)
  moreover have "ifor_each (\<lambda>i r. wrap_err (InPrior i) (validatePrior r)) 0 (p_Prior y) = Inr (p_Prior y)"
    using ok by (simp add: profile_ok_def ifor_each_wrap_Inr_iff prior_rule.for_each_accepts)
  ultimately show "Validate U recomp y = Inr y"
    using ok by (auto simp: Validate_def profile_ok_def)
qed

section \<open>Properties\<close>

definition ascii_tables :: unicode where
  "ascii_tables = \<lparr>uc_lower = id, uc_fold = (=), uc_letter = (\<lambda>_. False), uc_digit = (\<lambda>_. False)\<rparr>"

definition literal_compile :: "string \<Rightarrow> regexp option" where
  "literal_compile pattern = Some (plain_regexp (literal_re pattern))"

definition example_re :: regexp where
  "example_re = plain_regexp (literal_re ''x'')"

lemma literal_compile_x [simp]: "literal_compile ''x'' = Some example_re"
  by (simp add: literal_compile_def example_re_def)

definition example_op :: BodyOp where
  "example_op = \<lparr>b_Op = ''remove'', b_Pattern = ''x'', b_To = [], b_Text = [], b_MaxMatches = 256,
     b_re = Some example_re\<rparr>"

definition example_group :: Group where
  "example_group = \<lparr>g_Name = ''mask'', g_Default = True, g_On = ''response'', g_Status = [200], g_ContentType = [],
     g_Direction = [], g_Opcode = [], g_Body = [Some example_op],
     g_Headers = [\<lparr>hp_Op = ''set'', hp_Name = ''X-Masked'', hp_Value = ''1''\<rparr>]\<rparr>"

definition example_profile :: Profile where
  "example_profile = (defaults ''default'')\<lparr>p_Groups := [Some example_group],
     p_Prior := [\<lparr>pr_From = ''bot'', pr_Accept = [''mutate'', ''skip''], pr_Codes = []\<rparr>]\<rparr>"

text \<open>The same profile as written in YAML: no phase, no limit, nothing compiled.\<close>

definition raw_profile :: Profile where
  "raw_profile = example_profile\<lparr>p_Groups :=
     [Some (example_group\<lparr>g_On := [], g_Body := [Some (example_op\<lparr>b_MaxMatches := 0, b_re := None\<rparr>)]\<rparr>)]\<rparr>"

lemma nameRe_iff:
  "MatchString nameRe s \<longleftrightarrow> s \<noteq> [] \<and> in_class [(95, 95), (97, 122)] (hd s) \<and> length s \<le> 64 \<and>
     (\<forall>c\<in>set (tl s). in_class [(45, 45), (48, 57), (95, 95), (97, 122)] c)"
  unfolding nameRe_def by (subst MatchString_anchored) (simp_all add: ascii_class_def)

lemma headerNameRe_iff:
  "MatchString headerNameRe s \<longleftrightarrow> s \<noteq> [] \<and> length s \<le> 128 \<and> (\<forall>c\<in>set s. in_class header_class c)"
  unfolding headerNameRe_def
  by (subst MatchString_anchored) (auto simp: ascii_class_def header_class_def neq_Nil_conv)

lemma example_names: "MatchString nameRe ''mask''" "MatchString headerNameRe ''X-Masked''"
  unfolding nameRe_iff headerNameRe_iff by (simp_all add: in_class_def header_class_def)

lemma example_header_ok: "header_op_ok ascii_tables \<lparr>hp_Op = ''set'', hp_Name = ''X-Masked'', hp_Value = ''1''\<rparr>"
proof -
  have "ToLower ascii_tables ''X-Masked'' = ''x-masked''" by code_simp
  then show ?thesis
    by (simp add: header_op_ok_def example_names op_defs forbiddenHeader_def ContainsAny_def)
qed

lemma example_profile_ok: "profile_ok ascii_tables literal_compile example_profile"
  by (simp add: profile_ok_def example_profile_def defaults_def mode_defs DefaultDenyResponse_def limit_defs
      groups_ok_def group_names_def group_ok_def example_group_def example_names example_header_ok
      phase_ok_def OnResponse_def body_op_ok_def example_op_def op_defs prior_ok_def
      AnyInspector_def DoMutate_def DoSkip_def)

lemma raw_profile_validates: "Validate ascii_tables literal_compile raw_profile = Inr example_profile"
proof -
  have "HeaderOp_validate ascii_tables \<lparr>hp_Op = ''set'', hp_Name = ''X-Masked'', hp_Value = ''1''\<rparr> =
      Inr \<lparr>hp_Op = ''set'', hp_Name = ''X-Masked'', hp_Value = ''1''\<rparr>"
    by (rule header_op.ok_check) (rule example_header_ok)
  then show ?thesis
    by (simp add: Validate_def raw_profile_def example_profile_def defaults_def mode_defs DefaultDenyResponse_def
        limit_defs example_names example_group_def Group_validate_def validate_on_def OnResponse_def compile_def
        example_op_def op_defs validatePrior_def AnyInspector_def DoMutate_def DoSkip_def Let_def)
qed

text \<open>
  C13. A profile that passes \<open>Validate\<close> is well formed after it (defaults filled in, patterns compiled,
  names valid and distinct, limits kept), and validating the result again changes nothing.
\<close>

theorem Validate_normalises:
  assumes "Validate U recomp p = Inr p'"
  shows "profile_ok U recomp p' \<and> Validate U recomp p' = Inr p'"
  using profile_check.check_ok [OF assms] profile_check.idempotent [OF assms] by simp

theorem Validate_normalises_witness:
  "profile_ok ascii_tables literal_compile example_profile
    \<and> Validate ascii_tables literal_compile example_profile = Inr example_profile"
  by (rule Validate_normalises [OF raw_profile_validates])

text \<open>
  C25. \<open>Validate\<close> accepts every well-formed profile as it is: the conditions of \<open>profile_ok\<close> are exactly
  those of the code for a profile with nothing left to fill in.
\<close>

theorem Validate_complete: "Validate U recomp p = Inr p \<longleftrightarrow> profile_ok U recomp p"
  using profile_check.ok_iff_fixpoint by blast




end
