(* ===== verification/Decide.thy ===== *)
theory Decide
  imports Profile
begin

text \<open>
  The decisions of the inspector (src/internal/decide): which groups of a profile are active
  after the requests of earlier inspectors (prior.go), and what applying them does to a body
  and to the headers (apply.go). Both are pure; a panic of the code (a null entry, a slice out
  of range) is the left summand of the result.
\<close>

section \<open>Codes\<close>

definition CodeSkipped :: string where "CodeSkipped = ''REWRITE_SKIPPED''"
definition CodeNoop :: string where "CodeNoop = ''REWRITE_NOOP''"
definition CodeApplied :: string where "CodeApplied = ''REWRITE_APPLIED''"
definition CodeObserve :: string where "CodeObserve = ''REWRITE_OBSERVE''"
definition CodeProfileOff :: string where "CodeProfileOff = ''REWRITE_PROFILE_OFF''"
definition CodeUnknownProfile :: string where "CodeUnknownProfile = ''REWRITE_UNKNOWN_PROFILE''"
definition CodePhaseNotSupported :: string where "CodePhaseNotSupported = ''REWRITE_PHASE_NOT_SUPPORTED''"
definition CodeBodyUnavailable :: string where "CodeBodyUnavailable = ''REWRITE_BODY_UNAVAILABLE''"
definition CodeStoreUnavailable :: string where "CodeStoreUnavailable = ''REWRITE_STORE_UNAVAILABLE''"
definition CodeStoreError :: string where "CodeStoreError = ''REWRITE_STORE_ERROR''"
definition CodeInternalError :: string where "CodeInternalError = ''REWRITE_INTERNAL_ERROR''"
definition CodeMalformedRequest :: string where "CodeMalformedRequest = ''REWRITE_MALFORMED_REQUEST''"
definition CodeUnsupportedVersion :: string where "CodeUnsupportedVersion = ''REWRITE_UNSUPPORTED_VERSION''"

definition OutcomeApplied :: string where "OutcomeApplied = ''applied''"
definition OutcomeNoRule :: string where "OutcomeNoRule = ''no_rule''"
definition OutcomeUnknownGroup :: string where "OutcomeUnknownGroup = ''unknown_group''"

section \<open>Requests of earlier inspectors\<close>

record ActionOutcome =
  o_From :: string
  o_Do :: string
  o_Apply :: string
  o_Code :: string
  o_Groups :: "string list"
  o_Outcome :: string

record Ask =
  k_Skip :: bool
  k_On :: "string set"
  k_Off :: "string set"
  k_Outcomes :: "ActionOutcome list"

definition Active :: "Ask \<Rightarrow> Profile \<Rightarrow> panic + Group list" where
  "Active a p = rbind (for_each deref (p_Groups p)) (\<lambda>gs.
     Inr (filter (\<lambda>g.
       let on = g_Default g;
           on = (if g_Name g \<in> k_On a then True else on);
           on = (if g_Name g \<in> k_Off a then False else on)
       in on) gs))"

text \<open>One turn of the loop over the rules.\<close>

definition deliver_rule :: "string \<Rightarrow> Action \<Rightarrow> string set \<Rightarrow> PriorRule \<Rightarrow> Ask \<times> ActionOutcome \<Rightarrow> Ask \<times> ActionOutcome" where
  "deliver_rule from act known r = (\<lambda>(a, out).
     if pr_From r \<noteq> from then (a, out)
     else if \<not> Accepts r (a_Do act) \<or> \<not> WantsCode r (a_Code act) then (a, out)
     else if Scope act \<noteq> ApplyRequest then (a, out)
     else if a_Do act = DoSkip then (a\<lparr>k_Skip := True\<rparr>, out\<lparr>o_Outcome := OutcomeApplied\<rparr>)
     else if a_Do act = DoMutate then
       (if a_Group act \<notin> known
        then (a, out\<lparr>o_Groups := o_Groups out @ [''?'' @ a_Group act], o_Outcome := OutcomeUnknownGroup\<rparr>)
        else if a_Set act = SetOff
        then (a\<lparr>k_Off := insert (a_Group act) (k_Off a)\<rparr>,
              out\<lparr>o_Groups := o_Groups out @ [''-'' @ a_Group act], o_Outcome := OutcomeApplied\<rparr>)
        else (a\<lparr>k_On := insert (a_Group act) (k_On a)\<rparr>,
              out\<lparr>o_Groups := o_Groups out @ [''+'' @ a_Group act], o_Outcome := OutcomeApplied\<rparr>))
     else (a, out))"

definition deliver :: "string \<Rightarrow> Action \<Rightarrow> PriorRule list \<Rightarrow> string set \<Rightarrow> Ask \<Rightarrow> Ask" where
  "deliver from act rules known a =
     (let out = \<lparr>o_From = from, o_Do = a_Do act, o_Apply = Scope act, o_Code = a_Code act,
                 o_Groups = [], o_Outcome = OutcomeNoRule\<rparr>;
          (a, out) = fold (deliver_rule from act known) rules (a, out)
      in a\<lparr>k_Outcomes := k_Outcomes a @ [out]\<rparr>)"

definition no_ask :: Ask where
  "no_ask = \<lparr>k_Skip = False, k_On = {}, k_Off = {}, k_Outcomes = []\<rparr>"

definition EvaluatePrior :: "PriorVerdict list \<Rightarrow> Profile option \<Rightarrow> panic + Ask" where
  "EvaluatePrior entries p =
     (case p of
        None \<Rightarrow> Inr no_ask
      | Some p \<Rightarrow>
          rbind (for_each deref (p_Groups p)) (\<lambda>gs.
            Inr (fold (\<lambda>v a. fold (\<lambda>act a. deliver (pv_Inspector v) act (p_Prior p) (set (map g_Name gs)) a)
                                  (pv_Actions v) a)
                      entries no_ask)))"

section \<open>Applying groups\<close>

record GroupRow =
  gr_Group :: string
  gr_Matches :: int
  gr_Headers :: int
  gr_Skipped :: string

record Applied =
  ap_Groups :: "string list"
  ap_Body :: slice
  ap_BodyChanged :: bool
  ap_Headers :: "HeaderOps option"
  ap_Rows :: "GroupRow list"
  ap_BudgetSpent :: bool

definition ForPhase :: "Group list \<Rightarrow> bool \<Rightarrow> Group list" where
  "ForPhase groups frame = filter (\<lambda>g. Group_OnFrame g = frame) groups"

text \<open>What one match adds to the output after the text before it.\<close>

definition emit_match :: "unicode \<Rightarrow> BodyOp \<Rightarrow> regexp \<Rightarrow> bytes \<Rightarrow> bytes \<Rightarrow> int list \<Rightarrow> panic + bytes" where
  "emit_match U ob re body out m =
     (if b_Op ob = OpRemove then Inr out
      else if b_Op ob = OpReplace then expand U re out (b_To ob) body m
      else if b_Op ob = OpInsertBefore
        then rbind (slice body (m ! 0) (m ! 1)) (\<lambda>t. Inr (out @ b_Text ob @ t))
      else if b_Op ob = OpInsertAfter
        then rbind (slice body (m ! 0) (m ! 1)) (\<lambda>t. Inr (out @ t @ b_Text ob))
      else Inr out)"

text \<open>The loop over the matches, and the text after the last one.\<close>

fun splice :: "unicode \<Rightarrow> BodyOp \<Rightarrow> regexp \<Rightarrow> bytes \<Rightarrow> bytes \<Rightarrow> int \<Rightarrow> int list list \<Rightarrow> panic + bytes" where
  "splice U ob re body out pos [] =
     rbind (slice body pos (int (length body))) (\<lambda>t. Inr (out @ t))"
| "splice U ob re body out pos (m # ms) =
     rbind (slice body pos (m ! 0)) (\<lambda>t.
     rbind (emit_match U ob re body (out @ t) m) (\<lambda>out.
       splice U ob re body out (m ! 1) ms))"

text \<open>The new body, the number of matches and what is left of the budget.\<close>

definition applyBodyOp :: "unicode \<Rightarrow> BodyOp option \<Rightarrow> slice \<Rightarrow> int \<Rightarrow> panic + (slice \<times> int \<times> int)" where
  "applyBodyOp U op body budget =
     rbind (deref op) (\<lambda>ob.
       let limit = (if budget < b_MaxMatches ob then budget else b_MaxMatches ob) in
       if limit \<le> 0 then Inr (body, 0, budget)
       else rbind (deref (BodyOp_Regexp ob)) (\<lambda>re.
         let idx = FindAllSubmatchIndex re (bytes_of body) limit in
         if idx = [] then Inr (body, 0, budget)
         else rbind (splice U ob re (bytes_of body) [] 0 idx) (\<lambda>out.
           Inr (Some out, int (length idx), budget - int (length idx)))))"

definition no_header_ops :: HeaderOps where
  "no_header_ops = \<lparr>ho_Set = Map.empty, ho_Unset = []\<rparr>"

definition applyHeaderOp :: "HeaderOp \<Rightarrow> Applied \<Rightarrow> Applied" where
  "applyHeaderOp op out =
     (let h = (case ap_Headers out of None \<Rightarrow> no_header_ops | Some h \<Rightarrow> h) in
      if hp_Op op = OpSet then out\<lparr>ap_Headers := Some (h\<lparr>ho_Set := (ho_Set h)(hp_Name op \<mapsto> hp_Value op)\<rparr>)\<rparr>
      else if hp_Op op = OpUnset then
        (if list_ex (\<lambda>have1. have1 = hp_Name op) (ho_Unset h) then out\<lparr>ap_Headers := Some h\<rparr>
         else out\<lparr>ap_Headers := Some (h\<lparr>ho_Unset := ho_Unset h @ [hp_Name op]\<rparr>)\<rparr>)
      else out\<lparr>ap_Headers := Some h\<rparr>)"

text \<open>The loop over the body operations of a group; it stops when the budget is spent.\<close>

fun apply_body_ops ::
  "unicode \<Rightarrow> BodyOp option list \<Rightarrow> Applied \<Rightarrow> int \<Rightarrow> GroupRow \<Rightarrow> panic + (Applied \<times> int \<times> GroupRow)" where
  "apply_body_ops U [] out budget row = Inr (out, budget, row)"
| "apply_body_ops U (op # ops) out budget row =
     (if budget \<le> 0 then Inr (out\<lparr>ap_BudgetSpent := True\<rparr>, budget, row\<lparr>gr_Skipped := ''budget''\<rparr>)
      else rbind (applyBodyOp U op (ap_Body out) budget) (\<lambda>(next, n, budget).
        if n \<noteq> 0
        then apply_body_ops U ops (out\<lparr>ap_Body := next, ap_BodyChanged := True\<rparr>) budget
               (row\<lparr>gr_Matches := gr_Matches row + n\<rparr>)
        else apply_body_ops U ops out budget row))"

definition apply_group ::
  "unicode \<Rightarrow> (Group \<Rightarrow> bool) \<Rightarrow> slice \<Rightarrow> Group \<Rightarrow> Applied \<times> int \<Rightarrow> panic + (Applied \<times> int)" where
  "apply_group U sel body g = (\<lambda>(out, budget).
     let row = \<lparr>gr_Group = g_Name g, gr_Matches = 0, gr_Headers = 0, gr_Skipped = []\<rparr> in
     if \<not> sel g then Inr (out\<lparr>ap_Rows := ap_Rows out @ [row\<lparr>gr_Skipped := ''conditions''\<rparr>]\<rparr>, budget)
     else if HasBody g \<and> body = None
       then Inr (out\<lparr>ap_Rows := ap_Rows out @ [row\<lparr>gr_Skipped := ''no_body''\<rparr>]\<rparr>, budget)
     else rbind (apply_body_ops U (g_Body g) out budget row) (\<lambda>(out, budget, row).
       let out = fold applyHeaderOp (g_Headers g) out;
           row = row\<lparr>gr_Headers := int (length (g_Headers g))\<rparr>
       in Inr (out\<lparr>ap_Groups := ap_Groups out @ [g_Name g], ap_Rows := ap_Rows out @ [row]\<rparr>, budget)))"

fun apply_loop ::
  "unicode \<Rightarrow> (Group \<Rightarrow> bool) \<Rightarrow> slice \<Rightarrow> Group list \<Rightarrow> Applied \<times> int \<Rightarrow> panic + (Applied \<times> int)" where
  "apply_loop U sel body [] st = Inr st"
| "apply_loop U sel body (g # gs) st = rbind (apply_group U sel body g st) (apply_loop U sel body gs)"

definition start_applied :: "slice \<Rightarrow> Applied" where
  "start_applied body =
     \<lparr>ap_Groups = [], ap_Body = body, ap_BodyChanged = False, ap_Headers = None, ap_Rows = [],
      ap_BudgetSpent = False\<rparr>"

definition apply_groups :: "unicode \<Rightarrow> Group list \<Rightarrow> (Group \<Rightarrow> bool) \<Rightarrow> slice \<Rightarrow> panic + Applied" where
  "apply_groups U groups sel body =
     rbind (apply_loop U sel body groups (start_applied body, MatchBudget)) (\<lambda>(out, _). Inr out)"

definition Apply :: "unicode \<Rightarrow> Group list \<Rightarrow> int \<Rightarrow> string \<Rightarrow> slice \<Rightarrow> panic + Applied" where
  "Apply U groups status contentType body =
     apply_groups U groups (\<lambda>g. Matches U g status contentType) body"

definition ApplyFrame :: "unicode \<Rightarrow> Group list \<Rightarrow> string \<Rightarrow> string \<Rightarrow> slice \<Rightarrow> panic + Applied" where
  "ApplyFrame U groups direction opcode body =
     apply_groups U groups (\<lambda>g. MatchesFrame U g direction opcode) body"

section \<open>What the requests of earlier inspectors amount to\<close>

text \<open>A rule takes a request when it names the sender, accepts the verb and the code, and the
  request is about this request only.\<close>

definition rule_hits :: "string \<Rightarrow> Action \<Rightarrow> PriorRule \<Rightarrow> bool" where
  "rule_hits from act r \<longleftrightarrow>
     pr_From r = from \<and> a_Do act \<in> set (pr_Accept r) \<and>
     (pr_Codes r = [] \<or> a_Code act \<in> set (pr_Codes r)) \<and> Scope act = ApplyRequest"

definition accepted :: "PriorRule list \<Rightarrow> string \<times> Action \<Rightarrow> bool" where
  "accepted rules fa \<longleftrightarrow> (\<exists>r\<in>set rules. rule_hits (fst fa) (snd fa) r)"

definition mutates :: "PriorRule list \<Rightarrow> string set \<Rightarrow> bool \<Rightarrow> string \<times> Action \<Rightarrow> bool" where
  "mutates rules known off fa \<longleftrightarrow>
     accepted rules fa \<and> a_Do (snd fa) = DoMutate \<and> a_Group (snd fa) \<in> known \<and> (a_Set (snd fa) = SetOff) = off"

definition all_actions :: "PriorVerdict list \<Rightarrow> (string \<times> Action) list" where
  "all_actions entries = concat (map (\<lambda>v. map (Pair (pv_Inspector v)) (pv_Actions v)) entries)"

lemma rule_hits_code:
  "rule_hits from act r \<longleftrightarrow>
     pr_From r = from \<and> Accepts r (a_Do act) \<and> WantsCode r (a_Code act) \<and> Scope act = ApplyRequest"
  by (auto simp: rule_hits_def Accepts_def WantsCode_def list_ex_iff)

lemma deliver_rule_miss: "\<not> rule_hits from act r \<Longrightarrow> deliver_rule from act known r st = st"
  by (cases st) (auto simp: deliver_rule_def rule_hits_code)

lemma DoSkip_not_DoMutate [simp]: "DoSkip \<noteq> DoMutate" "DoMutate \<noteq> DoSkip"
  by (simp_all add: DoSkip_def DoMutate_def)

lemma deliver_rule_hit:
  assumes "rule_hits from act r" and "deliver_rule from act known r (a, out) = (a', out')"
  shows "k_Skip a' \<longleftrightarrow> k_Skip a \<or> a_Do act = DoSkip"
    and "k_On a' = k_On a \<union> {g. g = a_Group act \<and> a_Do act = DoMutate \<and> g \<in> known \<and> a_Set act \<noteq> SetOff}"
    and "k_Off a' = k_Off a \<union> {g. g = a_Group act \<and> a_Do act = DoMutate \<and> g \<in> known \<and> a_Set act = SetOff}"
    and "k_Outcomes a' = k_Outcomes a" and "o_From out' = o_From out" and "o_Do out' = o_Do out"
  using assms by (auto simp: deliver_rule_def rule_hits_code split: if_splits)

lemma fold_deliver_rule:
  assumes "fold (deliver_rule from act known) rules (a, out) = (a', out')"
  shows "(k_Skip a' \<longleftrightarrow> k_Skip a \<or> (accepted rules (from, act) \<and> a_Do act = DoSkip)) \<and>
     k_On a' = k_On a \<union> {g. g = a_Group act \<and> mutates rules known False (from, act)} \<and>
     k_Off a' = k_Off a \<union> {g. g = a_Group act \<and> mutates rules known True (from, act)} \<and>
     k_Outcomes a' = k_Outcomes a \<and> o_From out' = o_From out \<and> o_Do out' = o_Do out"
  using assms
proof (induction rules arbitrary: a out)
  case Nil
  then show ?case by (simp add: accepted_def mutates_def)
next
  case (Cons r rules)
  obtain a1 out1 where step: "deliver_rule from act known r (a, out) = (a1, out1)" by fastforce
  with Cons.prems have rest: "fold (deliver_rule from act known) rules (a1, out1) = (a', out')" by simp
  show ?case
  proof (cases "rule_hits from act r")
    case True
    with deliver_rule_hit [OF True step] Cons.IH [OF rest] show ?thesis
      by (auto simp: accepted_def mutates_def)
  next
    case False
    with step deliver_rule_miss [OF False, of known "(a, out)"] have "a1 = a" "out1 = out" by auto
    with False Cons.IH [OF rest] show ?thesis by (auto simp: accepted_def mutates_def)
  qed
qed

lemma deliver_effect:
  shows "k_Skip (deliver from act rules known a) \<longleftrightarrow> k_Skip a \<or> (accepted rules (from, act) \<and> a_Do act = DoSkip)"
    and "k_On (deliver from act rules known a) = k_On a \<union> {g. g = a_Group act \<and> mutates rules known False (from, act)}"
    and "k_Off (deliver from act rules known a) = k_Off a \<union> {g. g = a_Group act \<and> mutates rules known True (from, act)}"
    and "map (\<lambda>o1. (o_From o1, o_Do o1)) (k_Outcomes (deliver from act rules known a)) =
      map (\<lambda>o1. (o_From o1, o_Do o1)) (k_Outcomes a) @ [(from, a_Do act)]"
proof -
  let ?out = "\<lparr>o_From = from, o_Do = a_Do act, o_Apply = Scope act, o_Code = a_Code act,
                 o_Groups = [], o_Outcome = OutcomeNoRule\<rparr>"
  obtain a' out' where f: "fold (deliver_rule from act known) rules (a, ?out) = (a', out')" by fastforce
  note e = fold_deliver_rule [OF f]
  have d: "deliver from act rules known a = a'\<lparr>k_Outcomes := k_Outcomes a' @ [out']\<rparr>"
    by (simp add: deliver_def f)
  show "k_Skip (deliver from act rules known a) \<longleftrightarrow> k_Skip a \<or> (accepted rules (from, act) \<and> a_Do act = DoSkip)"
    and "k_On (deliver from act rules known a) = k_On a \<union> {g. g = a_Group act \<and> mutates rules known False (from, act)}"
    and "k_Off (deliver from act rules known a) = k_Off a \<union> {g. g = a_Group act \<and> mutates rules known True (from, act)}"
    and "map (\<lambda>o1. (o_From o1, o_Do o1)) (k_Outcomes (deliver from act rules known a)) =
      map (\<lambda>o1. (o_From o1, o_Do o1)) (k_Outcomes a) @ [(from, a_Do act)]"
    unfolding d using e by simp_all
qed

lemma fold_entries:
  "fold (\<lambda>v a. fold (\<lambda>act a. deliver (pv_Inspector v) act rules known a) (pv_Actions v) a) entries a =
   fold (\<lambda>fa a. deliver (fst fa) (snd fa) rules known a) (all_actions entries) a"
proof (induction entries arbitrary: a)
  case (Cons v entries)
  have "fold (\<lambda>act a. deliver (pv_Inspector v) act rules known a) acts a =
      fold (\<lambda>fa a. deliver (fst fa) (snd fa) rules known a) (map (Pair (pv_Inspector v)) acts) a" for acts a
    by (induction acts arbitrary: a) auto
  with Cons show ?case by (simp add: all_actions_def)
qed (simp add: all_actions_def)

lemma fold_deliver:
  fixes acts rules known a
  defines "a' \<equiv> fold (\<lambda>fa a. deliver (fst fa) (snd fa) rules known a) acts a"
  shows "k_Skip a' \<longleftrightarrow> k_Skip a \<or> (\<exists>fa\<in>set acts. accepted rules fa \<and> a_Do (snd fa) = DoSkip)"
    and "k_On a' = k_On a \<union> (\<lambda>fa. a_Group (snd fa)) ` {fa \<in> set acts. mutates rules known False fa}"
    and "k_Off a' = k_Off a \<union> (\<lambda>fa. a_Group (snd fa)) ` {fa \<in> set acts. mutates rules known True fa}"
    and "map (\<lambda>o1. (o_From o1, o_Do o1)) (k_Outcomes a') =
      map (\<lambda>o1. (o_From o1, o_Do o1)) (k_Outcomes a) @ map (\<lambda>fa. (fst fa, a_Do (snd fa))) acts"
  unfolding a'_def
  by (induction acts arbitrary: a) (auto simp: deliver_effect)

lemma for_each_deref: "for_each deref xs = Inr ys \<longleftrightarrow> xs = map Some ys"
  by (induction xs arbitrary: ys) (auto simp: rbind_Inr_iff deref_def split: option.splits)

lemma for_each_deref_ok: "\<forall>x\<in>set xs. x \<noteq> None \<Longrightarrow> for_each deref xs = Inr (map the xs)"
  by (simp add: for_each_deref map_idI)

lemma EvaluatePrior_spec:
  assumes "EvaluatePrior entries (Some p) = Inr a" and "p_Groups p = map Some gs"
  defines "known \<equiv> set (map g_Name gs)"
  shows "k_Skip a \<longleftrightarrow> (\<exists>fa\<in>set (all_actions entries). accepted (p_Prior p) fa \<and> a_Do (snd fa) = DoSkip)"
    and "k_On a = (\<lambda>fa. a_Group (snd fa)) ` {fa \<in> set (all_actions entries). mutates (p_Prior p) known False fa}"
    and "k_Off a = (\<lambda>fa. a_Group (snd fa)) ` {fa \<in> set (all_actions entries). mutates (p_Prior p) known True fa}"
    and "map (\<lambda>o1. (o_From o1, o_Do o1)) (k_Outcomes a) = map (\<lambda>fa. (fst fa, a_Do (snd fa))) (all_actions entries)"
proof -
  have "for_each deref (p_Groups p) = Inr gs" by (simp add: assms(2) for_each_deref)
  with assms(1) have a: "a = fold (\<lambda>fa a. deliver (fst fa) (snd fa) (p_Prior p) known a) (all_actions entries) no_ask"
    by (simp add: EvaluatePrior_def fold_entries known_def)
  show "k_Skip a \<longleftrightarrow> (\<exists>fa\<in>set (all_actions entries). accepted (p_Prior p) fa \<and> a_Do (snd fa) = DoSkip)"
    and "k_On a = (\<lambda>fa. a_Group (snd fa)) ` {fa \<in> set (all_actions entries). mutates (p_Prior p) known False fa}"
    and "k_Off a = (\<lambda>fa. a_Group (snd fa)) ` {fa \<in> set (all_actions entries). mutates (p_Prior p) known True fa}"
    and "map (\<lambda>o1. (o_From o1, o_Do o1)) (k_Outcomes a) = map (\<lambda>fa. (fst fa, a_Do (snd fa))) (all_actions entries)"
    unfolding a by (simp_all add: fold_deliver no_ask_def)
qed

lemma Active_spec:
  assumes "p_Groups p = map Some gs"
  shows "Active a p = Inr (filter (\<lambda>g. (g_Default g \<or> g_Name g \<in> k_On a) \<and> g_Name g \<notin> k_Off a) gs)"
proof -
  have "for_each deref (p_Groups p) = Inr gs" by (simp add: assms for_each_deref)
  moreover have "(\<lambda>g :: Group. let on = g_Default g; on = (if g_Name g \<in> k_On a then True else on);
      on = (if g_Name g \<in> k_Off a then False else on) in on) =
      (\<lambda>g. (g_Default g \<or> g_Name g \<in> k_On a) \<and> g_Name g \<notin> k_Off a)"
    by (rule ext) (auto simp: Let_def)
  ultimately show ?thesis by (simp only: Active_def rbind.simps)
qed

lemma profile_ok_groups: "profile_ok U recomp p \<Longrightarrow> \<exists>gs. p_Groups p = map Some gs"
proof -
  assume "profile_ok U recomp p"
  then have "\<forall>g\<in>set (p_Groups p). g \<noteq> None" by (auto simp: profile_ok_def groups_ok_def)
  from for_each_deref_ok [OF this] show ?thesis unfolding for_each_deref ..
qed

section \<open>What one body operation does\<close>

text \<open>The template only appends to what is already written.\<close>

lemma expand_append:
  "expand U re (d @ e) template src m = map_sum id ((@) d) (expand U re e template src m)"
proof (induction U re e template src m rule: expand.induct)
  case (1 U re e template src m)
  obtain before after ok where cut: "Cut template (CHR ''$'') = (before, after, ok)"
    by (cases "Cut template (CHR ''$'')")
  note unfold = expand.simps [of U re e template src m] expand.simps [of U re "d @ e" template src m] cut
  consider (none) "\<not> ok" | (dollar) "ok" "after \<noteq> [] \<and> hd after = CHR ''$''"
    | (raw) "ok" "\<not> (after \<noteq> [] \<and> hd after = CHR ''$'')" "extract_ref U after = None"
    | (ref) name num rest where "ok" "\<not> (after \<noteq> [] \<and> hd after = CHR ''$'')"
        "extract_ref U after = Some (name, num, rest)"
    by (cases "extract_ref U after") auto
  then show ?case
  proof cases
    case none
    then show ?thesis by (simp add: unfold)
  next
    case dollar
    with "1.IH"(1) [OF cut [symmetric] refl] show ?thesis by (auto simp: unfold)
  next
    case raw
    with "1.IH"(2) [OF cut [symmetric] refl] show ?thesis by (auto simp: unfold)
  next
    case ref
    show ?thesis
    proof (cases "reference_text re name num src m")
      case (Inl p)
      with ref show ?thesis by (auto simp: unfold)
    next
      case (Inr t)
      with ref "1.IH"(3) [OF cut [symmetric] refl _ _ ref(3) refl refl Inr] show ?thesis
        by (auto simp: unfold)
    qed
  qed
qed

text \<open>
  The reference: the body cut into the text before each match and the match itself, and the
  text after the last match; and the text an operation puts in place of a match.
\<close>

fun segments :: "bytes \<Rightarrow> nat \<Rightarrow> int list list \<Rightarrow> (int list \<times> bytes \<times> bytes) list" where
  "segments body pos [] = []"
| "segments body pos (m # ms) =
     (m, take (nat (m ! 0) - pos) (drop pos body), take (nat (m ! 1) - nat (m ! 0)) (drop (nat (m ! 0)) body))
     # segments body (nat (m ! 1)) ms"

definition tail_after :: "bytes \<Rightarrow> nat \<Rightarrow> int list list \<Rightarrow> bytes" where
  "tail_after body pos ms = drop (if ms = [] then pos else nat (last ms ! 1)) body"

definition edit_text :: "unicode \<Rightarrow> BodyOp \<Rightarrow> regexp \<Rightarrow> bytes \<Rightarrow> int list \<Rightarrow> bytes \<Rightarrow> bytes" where
  "edit_text U ob re body m s =
     (if b_Op ob = OpReplace then (case expand U re [] (b_To ob) body m of Inl _ \<Rightarrow> [] | Inr x \<Rightarrow> x)
      else if b_Op ob = OpInsertBefore then b_Text ob @ s
      else if b_Op ob = OpInsertAfter then s @ b_Text ob
      else [])"

lemma tail_after_Cons: "tail_after body pos (m # ms) = tail_after body (nat (m ! 1)) ms"
  by (simp add: tail_after_def)

lemma segments_partition:
  "ordered_matches n (length body) (int pos) ms \<Longrightarrow> pos \<le> length body \<Longrightarrow>
     concat (map (\<lambda>(m, gap, s). gap @ s) (segments body pos ms)) @ tail_after body pos ms = drop pos body"
proof (induction ms arbitrary: pos)
  case Nil
  then show ?case by (simp add: tail_after_def)
next
  case (Cons m ms)
  let ?i = "nat (m ! 0)" and ?j = "nat (m ! 1)"
  from Cons.prems have b: "pos \<le> ?i" "?i \<le> ?j" "?j \<le> length body" and j: "int ?j = m ! 1"
    by (auto simp: match_ok_def)
  with Cons.prems have "ordered_matches n (length body) (int ?j) ms" by simp
  from Cons.IH [OF this b(3)]
  have "concat (map (\<lambda>(m, gap, s). gap @ s) (segments body ?j ms)) @ tail_after body ?j ms = drop ?j body" .
  with b show ?case by (simp add: tail_after_Cons take_drop_split)
qed

lemma emit_match_text:
  assumes "match_ok n (length body) at m" and "0 \<le> at"
  shows "emit_match U ob re body out m =
     Inr (out @ edit_text U ob re body m (take (nat (m ! 1) - nat (m ! 0)) (drop (nat (m ! 0)) body)))"
proof -
  from assms have "slice body (m ! 0) (m ! 1) = Inr (take (nat (m ! 1) - nat (m ! 0)) (drop (nat (m ! 0)) body))"
    by (intro slice_Inr) (auto simp: match_ok_def)
  moreover obtain x where "expand U re [] (b_To ob) body m = Inr x"
    using expand_total [OF assms(1), of U re "[]" "b_To ob"] by auto
  ultimately show ?thesis
    using expand_append [of U re out "[]" "b_To ob" body m]
    by (auto simp: emit_match_def edit_text_def op_defs)
qed

lemma splice_segments:
  "ordered_matches n (length body) (int pos) ms \<Longrightarrow> pos \<le> length body \<Longrightarrow>
     splice U ob re body out (int pos) ms =
       Inr (out @ concat (map (\<lambda>(m, gap, s). gap @ edit_text U ob re body m s) (segments body pos ms))
            @ tail_after body pos ms)"
proof (induction ms arbitrary: pos out)
  case Nil
  then show ?case by (simp add: tail_after_def slice_nat)
next
  case (Cons m ms)
  let ?i = "nat (m ! 0)" and ?j = "nat (m ! 1)"
  from Cons.prems have b: "pos \<le> ?i" "?i \<le> ?j" "?j \<le> length body"
    and ij: "m ! 0 = int ?i" "m ! 1 = int ?j" and m: "match_ok n (length body) (int pos) m"
    by (auto simp: match_ok_def)
  from Cons.prems ij have rest: "ordered_matches n (length body) (int ?j) ms" by simp
  have gap: "slice body (int pos) (m ! 0) = Inr (take (?i - pos) (drop pos body))"
    using m b by (simp add: slice_def match_ok_def)
  have next_eq: "splice U ob re body out' (m ! 1) ms =
      Inr (out' @ concat (map (\<lambda>(m, gap, s). gap @ edit_text U ob re body m s) (segments body ?j ms))
            @ tail_after body ?j ms)" for out'
    by (subst ij(2)) (rule Cons.IH [OF rest b(3)])
  show ?case
    using next_eq by (simp add: gap emit_match_text [OF m] tail_after_Cons)
qed

text \<open>The body after one operation, and the matches the operation took.\<close>

definition op_matches :: "BodyOp \<Rightarrow> regexp \<Rightarrow> bytes \<Rightarrow> int \<Rightarrow> int list list" where
  "op_matches ob re body budget = FindAllSubmatchIndex re body (min budget (b_MaxMatches ob))"

definition edited :: "unicode \<Rightarrow> BodyOp \<Rightarrow> regexp \<Rightarrow> bytes \<Rightarrow> int list list \<Rightarrow> bytes" where
  "edited U ob re body ms =
     concat (map (\<lambda>(m, gap, s). gap @ edit_text U ob re body m s) (segments body 0 ms)) @ tail_after body 0 ms"

lemma edited_Nil [simp]: "edited U ob re body [] = body"
  by (simp add: edited_def tail_after_def)

lemma applyBodyOp_edited:
  fixes body :: bytes
  assumes "body_op_ok recomp (Some ob)" and "b_re ob = Some re" and "0 < budget"
  defines "ms \<equiv> op_matches ob re body budget"
  shows "applyBodyOp U (Some ob) (Some body) budget =
     Inr (Some (edited U ob re body ms), int (length ms), budget - int (length ms))"
proof -
  have lim: "(if budget < b_MaxMatches ob then budget else b_MaxMatches ob) = min budget (b_MaxMatches ob)"
    by auto
  have pos: "\<not> min budget (b_MaxMatches ob) \<le> 0"
    using assms(1,3) by (auto simp: body_op_ok_def)
  have ord: "ordered_matches (re_numSubexp re) (length body) (int 0) ms"
    using FindAll_ordered by (simp add: ms_def op_matches_def)
  have "splice U ob re body [] (int 0) ms = Inr (edited U ob re body ms)"
    using splice_segments [OF ord] by (simp add: edited_def)
  then show ?thesis
    using pos by (simp add: applyBodyOp_def deref_def BodyOp_Regexp_def assms(2) lim bytes_of_def
        ms_def [symmetric] op_matches_def [symmetric] Let_def)
qed

lemma op_matches_length:
  "0 \<le> budget \<Longrightarrow> 0 \<le> b_MaxMatches ob \<Longrightarrow>
     int (length (op_matches ob re body budget)) \<le> budget \<and>
     int (length (op_matches ob re body budget)) \<le> b_MaxMatches ob"
  using FindAll_length [of "min budget (b_MaxMatches ob)" re body] by (simp add: op_matches_def)

lemma edited_total:
  assumes "ms = op_matches ob re body budget"
  shows "concat (map (\<lambda>(m, gap, s). gap @ s) (segments body 0 ms)) @ tail_after body 0 ms = body"
  using segments_partition [of "re_numSubexp re" body 0 ms] FindAll_ordered [of re body]
  by (simp add: assms op_matches_def)

lemma concat_map_length:
  "length (concat (map (\<lambda>(m, gap, s). gap @ f m s) xs)) =
     sum_list (map (\<lambda>(m, gap, s). length gap + length (f m s)) xs)"
  by (induction xs) auto

lemma subseq_concat:
  "(\<And>m gap s. (m, gap, s) \<in> set xs \<Longrightarrow> subseq (f m s) (g m s)) \<Longrightarrow>
     subseq (concat (map (\<lambda>(m, gap, s). gap @ f m s) xs)) (concat (map (\<lambda>(m, gap, s). gap @ g m s) xs))"
  by (induction xs) (auto intro!: list_emb_append_mono)

section \<open>What applying groups does\<close>

definition ops_ok :: "(string \<Rightarrow> regexp option) \<Rightarrow> Group \<Rightarrow> bool" where
  "ops_ok recomp g \<longleftrightarrow> (\<forall>op\<in>set (g_Body g). body_op_ok recomp op)"

lemma group_ok_ops: "group_ok U recomp g \<Longrightarrow> ops_ok recomp g"
  by (simp add: group_ok_def ops_ok_def)

lemma body_op_ok_Some: "body_op_ok recomp op \<Longrightarrow> \<exists>ob re. op = Some ob \<and> b_re ob = Some re"
  by (auto simp: body_op_ok_def split: option.splits)

text \<open>What the body operations of one group change, and by how much.\<close>

definition body_ops_post :: "Applied \<Rightarrow> int \<Rightarrow> GroupRow \<Rightarrow> Applied \<Rightarrow> int \<Rightarrow> GroupRow \<Rightarrow> bool" where
  "body_ops_post out budget row out' budget' row' \<longleftrightarrow>
     0 \<le> budget' \<and> gr_Matches row' + budget' = gr_Matches row + budget \<and> gr_Matches row \<le> gr_Matches row' \<and>
     (ap_Body out' = None \<longleftrightarrow> ap_Body out = None) \<and>
     (ap_BodyChanged out' \<longleftrightarrow> ap_BodyChanged out \<or> gr_Matches row < gr_Matches row') \<and>
     (gr_Matches row' = gr_Matches row \<longrightarrow> ap_Body out' = ap_Body out) \<and>
     ap_Groups out' = ap_Groups out \<and> ap_Rows out' = ap_Rows out \<and> ap_Headers out' = ap_Headers out \<and>
     gr_Group row' = gr_Group row \<and> gr_Headers row' = gr_Headers row"

lemma apply_body_ops_post:
  "\<forall>op\<in>set ops. body_op_ok recomp op \<Longrightarrow> 0 \<le> budget \<Longrightarrow> (ops \<noteq> [] \<longrightarrow> ap_Body out \<noteq> None) \<Longrightarrow>
     \<exists>out' budget' row'. apply_body_ops U ops out budget row = Inr (out', budget', row') \<and>
       body_ops_post out budget row out' budget' row'"
proof (induction U ops out budget row rule: apply_body_ops.induct)
  case (1 U out budget row)
  then show ?case by (simp add: body_ops_post_def)
next
  case (2 U op ops out budget row)
  show ?case
  proof (cases "budget \<le> 0")
    case True
    with "2.prems" show ?thesis by (simp add: body_ops_post_def)
  next
    case False
    from "2.prems"(3) obtain body where body: "ap_Body out = Some body" by auto
    from "2.prems"(1) body_op_ok_Some [of recomp op] obtain ob re
      where op: "op = Some ob" and re: "b_re ob = Some re" and ok: "body_op_ok recomp (Some ob)" by auto
    define ms where "ms = op_matches ob re body budget"
    have step: "applyBodyOp U op (ap_Body out) budget =
        Inr (Some (edited U ob re body ms), int (length ms), budget - int (length ms))"
      unfolding op body ms_def using False by (intro applyBodyOp_edited [OF ok re]) simp
    have le: "int (length ms) \<le> budget"
      unfolding ms_def using False ok op_matches_length [of budget ob re body] by (auto simp: body_op_ok_def)
    show ?thesis
    proof (cases "ms = []")
      case True
      have "\<exists>out' budget' row'. apply_body_ops U ops out budget row = Inr (out', budget', row') \<and>
          body_ops_post out budget row out' budget' row'"
        using "2.IH"(2) [OF False step refl refl] "2.prems" True body by simp
      then show ?thesis using False step True by simp
    next
      case False
      let ?out = "out\<lparr>ap_Body := Some (edited U ob re body ms), ap_BodyChanged := True\<rparr>"
      let ?row = "row\<lparr>gr_Matches := gr_Matches row + int (length ms)\<rparr>"
      have "\<exists>out' budget' row'. apply_body_ops U ops ?out (budget - int (length ms)) ?row = Inr (out', budget', row') \<and>
          body_ops_post ?out (budget - int (length ms)) ?row out' budget' row'"
        using "2.IH"(1) [OF \<open>\<not> budget \<le> 0\<close> step refl refl] "2.prems" False le by simp
      then obtain out' budget' row' where
        "apply_body_ops U ops ?out (budget - int (length ms)) ?row = Inr (out', budget', row')"
        and post: "body_ops_post ?out (budget - int (length ms)) ?row out' budget' row'" by blast
      moreover have "gr_Matches row < gr_Matches row'"
      proof -
        have "gr_Matches row + int (length ms) \<le> gr_Matches row'" using post by (simp add: body_ops_post_def)
        moreover have "0 < int (length ms)" using False by simp
        ultimately show ?thesis by linarith
      qed
      ultimately show ?thesis
        using \<open>\<not> budget \<le> 0\<close> step False body by (auto simp: body_ops_post_def)
    qed
  qed
qed

text \<open>The header operations of the applied groups, in order.\<close>

definition header_fold :: "HeaderOp list \<Rightarrow> HeaderOps option \<Rightarrow> HeaderOps option" where
  "header_fold hs h = ap_Headers (fold applyHeaderOp hs ((start_applied None)\<lparr>ap_Headers := h\<rparr>))"

lemma applyHeaderOp_frame: "applyHeaderOp op out = out\<lparr>ap_Headers := ap_Headers (applyHeaderOp op out)\<rparr>"
  by (cases out) (auto simp: applyHeaderOp_def Let_def)

lemma applyHeaderOp_local: "ap_Headers out = ap_Headers out' \<Longrightarrow> ap_Headers (applyHeaderOp op out) = ap_Headers (applyHeaderOp op out')"
  by (simp add: applyHeaderOp_def Let_def)

lemma fold_applyHeaderOp:
  "fold applyHeaderOp hs out = out\<lparr>ap_Headers := header_fold hs (ap_Headers out)\<rparr>"
proof (induction hs arbitrary: out rule: rev_induct)
  case Nil
  show ?case by (simp add: header_fold_def)
next
  case (snoc h hs)
  let ?mid = "fold applyHeaderOp hs out"
  have "fold applyHeaderOp (hs @ [h]) out = applyHeaderOp h ?mid" by simp
  also have "\<dots> = ?mid\<lparr>ap_Headers := ap_Headers (applyHeaderOp h ?mid)\<rparr>" by (rule applyHeaderOp_frame)
  also have "ap_Headers (applyHeaderOp h ?mid) = header_fold (hs @ [h]) (ap_Headers out)"
  proof -
    have "ap_Headers ?mid = header_fold hs (ap_Headers out)" using snoc [of out] by simp
    then show ?thesis
      unfolding header_fold_def fold_append comp_def fold.simps id_def by (rule applyHeaderOp_local)
  qed
  finally show ?case using snoc [of out] by simp
qed

lemma header_fold_append: "header_fold (xs @ ys) h = header_fold ys (header_fold xs h)"
proof -
  have "fold applyHeaderOp xs ((start_applied None)\<lparr>ap_Headers := h\<rparr>) =
      (start_applied None)\<lparr>ap_Headers := header_fold xs h\<rparr>"
    by (subst fold_applyHeaderOp) simp
  then show ?thesis unfolding header_fold_def [of "xs @ ys"] by (simp add: header_fold_def [of ys])
qed

text \<open>A group applies when its conditions hold and the body it needs is there.\<close>

definition applies :: "(Group \<Rightarrow> bool) \<Rightarrow> slice \<Rightarrow> Group \<Rightarrow> bool" where
  "applies sel body g \<longleftrightarrow> sel g \<and> \<not> (HasBody g \<and> body = None)"

definition total_matches :: "GroupRow list \<Rightarrow> int" where
  "total_matches rows = sum_list (map gr_Matches rows)"

definition applied_inv :: "(Group \<Rightarrow> bool) \<Rightarrow> slice \<Rightarrow> Group list \<Rightarrow> Applied \<times> int \<Rightarrow> bool" where
  "applied_inv sel body gs st \<longleftrightarrow> (case st of (out, budget) \<Rightarrow>
     0 \<le> budget \<and> total_matches (ap_Rows out) + budget = MatchBudget \<and>
     (\<forall>row\<in>set (ap_Rows out). 0 \<le> gr_Matches row) \<and>
     map gr_Group (ap_Rows out) = map g_Name gs \<and>
     ap_Groups out = map g_Name (filter (applies sel body) gs) \<and>
     ap_Headers out = header_fold (concat (map g_Headers (filter (applies sel body) gs))) None \<and>
     (ap_BodyChanged out \<longleftrightarrow> (\<exists>row\<in>set (ap_Rows out). 0 < gr_Matches row)) \<and>
     (\<not> ap_BodyChanged out \<longrightarrow> ap_Body out = body) \<and>
     (ap_Body out = None \<longleftrightarrow> body = None) \<and> (body = None \<longrightarrow> \<not> ap_BodyChanged out))"

lemma applied_inv_start: "applied_inv sel body [] (start_applied body, MatchBudget)"
  by (simp add: applied_inv_def start_applied_def total_matches_def header_fold_def limit_defs)

lemma applied_inv_group:
  assumes inv: "applied_inv sel body gs st" and ok: "ops_ok recomp g"
  shows "\<exists>st'. apply_group U sel body g st = Inr st' \<and> applied_inv sel body (gs @ [g]) st'"
proof -
  obtain out budget where st: "st = (out, budget)" by fastforce
  let ?row = "\<lparr>gr_Group = g_Name g, gr_Matches = 0, gr_Headers = 0, gr_Skipped = []\<rparr>"
  show ?thesis
  proof (cases "applies sel body g")
    case False
    then obtain why where step: "apply_group U sel body g st =
        Inr (out\<lparr>ap_Rows := ap_Rows out @ [?row\<lparr>gr_Skipped := why\<rparr>]\<rparr>, budget)"
      by (cases "sel g") (auto simp: apply_group_def applies_def st Let_def)
    show ?thesis
      unfolding step using inv False by (auto simp: applied_inv_def st total_matches_def)
  next
    case True
    have "\<exists>out' budget' row'. apply_body_ops U (g_Body g) out budget ?row = Inr (out', budget', row') \<and>
        body_ops_post out budget ?row out' budget' row'"
      using inv ok True
      by (intro apply_body_ops_post) (auto simp: st applied_inv_def ops_ok_def applies_def HasBody_def)
    then obtain out' budget' row' where step: "apply_body_ops U (g_Body g) out budget ?row = Inr (out', budget', row')"
      and post: "body_ops_post out budget ?row out' budget' row'" by blast
    have none: "out' = out" if "body = None"
      using that True step by (auto simp: applies_def HasBody_def)
    from True step have "apply_group U sel body g st = Inr
        (out'\<lparr>ap_Headers := header_fold (g_Headers g) (ap_Headers out'), ap_Groups := ap_Groups out' @ [g_Name g],
              ap_Rows := ap_Rows out' @ [row'\<lparr>gr_Headers := int (length (g_Headers g))\<rparr>]\<rparr>, budget')"
      by (auto simp: apply_group_def st applies_def fold_applyHeaderOp Let_def)
    moreover have "applied_inv sel body (gs @ [g])
        (out'\<lparr>ap_Headers := header_fold (g_Headers g) (ap_Headers out'), ap_Groups := ap_Groups out' @ [g_Name g],
              ap_Rows := ap_Rows out' @ [row'\<lparr>gr_Headers := int (length (g_Headers g))\<rparr>]\<rparr>, budget')"
      using inv post True none
      by (auto simp: applied_inv_def st body_ops_post_def total_matches_def header_fold_append)
    ultimately show ?thesis by blast
  qed
qed

lemma apply_loop_inv:
  "applied_inv sel body done st \<Longrightarrow> \<forall>g\<in>set gs. ops_ok recomp g \<Longrightarrow>
     \<exists>st'. apply_loop U sel body gs st = Inr st' \<and> applied_inv sel body (done @ gs) st'"
proof (induction gs arbitrary: "done" st)
  case Nil
  then show ?case by simp
next
  case (Cons g gs)
  then obtain st1 where step: "apply_group U sel body g st = Inr st1"
    and inv: "applied_inv sel body (done @ [g]) st1"
    using applied_inv_group [of sel body "done" st recomp g U] by auto
  from Cons.IH [OF inv] Cons.prems(2) step show ?case by auto
qed

lemma apply_groups_inv:
  assumes "\<forall>g\<in>set gs. ops_ok recomp g"
  shows "\<exists>out budget. apply_groups U gs sel body = Inr out \<and> applied_inv sel body gs (out, budget)"
proof -
  obtain out budget where "apply_loop U sel body gs (start_applied body, MatchBudget) = Inr (out, budget)"
    and "applied_inv sel body gs (out, budget)"
    using apply_loop_inv [OF applied_inv_start [of sel body] assms, of U] by auto
  then show ?thesis by (auto simp: apply_groups_def)
qed

text \<open>The header operations that reach the reply: the last value set for a name wins, and a name
  is unset once.\<close>

definition set_pairs :: "HeaderOp list \<Rightarrow> (string \<times> string) list" where
  "set_pairs hs = map (\<lambda>h. (hp_Name h, hp_Value h)) (filter (\<lambda>h. hp_Op h = OpSet) hs)"

definition unset_names :: "HeaderOp list \<Rightarrow> string set" where
  "unset_names hs = {hp_Name h |h. h \<in> set hs \<and> hp_Op h = OpUnset}"

definition header_result :: "HeaderOp list \<Rightarrow> HeaderOps \<Rightarrow> bool" where
  "header_result hs h \<longleftrightarrow>
     ho_Set h = map_of (rev (set_pairs hs)) \<and> set (ho_Unset h) = unset_names hs \<and> distinct (ho_Unset h)"

lemma header_fold_Nil [simp]: "header_fold [] h = h"
  by (simp add: header_fold_def)

lemma header_fold_snoc:
  "header_fold (hs @ [x]) None =
     ap_Headers (applyHeaderOp x ((start_applied None)\<lparr>ap_Headers := header_fold hs None\<rparr>))"
  by (simp add: header_fold_append) (simp add: header_fold_def)

lemma applyHeaderOp_result:
  assumes "header_result hs (case h of None \<Rightarrow> no_header_ops | Some h' \<Rightarrow> h')"
  shows "\<exists>h'. ap_Headers (applyHeaderOp x (out\<lparr>ap_Headers := h\<rparr>)) = Some h' \<and> header_result (hs @ [x]) h'"
  using assms
  by (auto simp: applyHeaderOp_def header_result_def set_pairs_def unset_names_def Let_def op_defs list_ex_iff
      map_add_def fun_eq_iff split: option.split)

lemma header_fold_result:
  "hs \<noteq> [] \<Longrightarrow> \<exists>h. header_fold hs None = Some h \<and> header_result hs h"
proof (induction hs rule: rev_induct)
  case Nil
  then show ?case by simp
next
  case (snoc x hs)
  have "header_result hs (case header_fold hs None of None \<Rightarrow> no_header_ops | Some h' \<Rightarrow> h')"
  proof (cases "hs = []")
    case True
    then show ?thesis by (simp add: header_result_def no_header_ops_def set_pairs_def unset_names_def)
  next
    case False
    with snoc.IH show ?thesis by auto
  qed
  then show ?case
    unfolding header_fold_snoc by (rule applyHeaderOp_result)
qed

text \<open>The active groups of a validated profile have usable operations.\<close>

lemma Active_total:
  assumes "profile_ok U recomp p"
  shows "\<exists>gs. Active ask p = Inr gs \<and> (\<forall>g\<in>set gs. ops_ok recomp g)"
proof -
  obtain gs where gs: "p_Groups p = map Some gs" using profile_ok_groups [OF assms] by blast
  have "\<forall>g\<in>set gs. group_ok U recomp g"
    using assms by (auto simp: profile_ok_def groups_ok_def gs)
  then have "\<forall>g\<in>set gs. ops_ok recomp g" using group_ok_ops by blast
  moreover have "for_each deref (p_Groups p) = Inr gs" by (simp add: for_each_deref gs)
  ultimately show ?thesis by (auto simp: Active_def Let_def)
qed

lemma EvaluatePrior_total:
  assumes "profile_ok U recomp p"
  shows "\<exists>ask. EvaluatePrior entries (Some p) = Inr ask"
proof -
  obtain gs where gs: "p_Groups p = map Some gs" using profile_ok_groups [OF assms] by blast
  have "for_each deref (p_Groups p) = Inr gs" by (simp add: for_each_deref gs)
  then show ?thesis by (simp add: EvaluatePrior_def)
qed

lemma ForPhase_ok: "\<forall>g\<in>set gs. ops_ok recomp g \<Longrightarrow> \<forall>g\<in>set (ForPhase gs b). ops_ok recomp g"
  by (simp add: ForPhase_def)

text \<open>What a run over the active groups of a validated profile establishes.\<close>

lemma apply_active:
  assumes "profile_ok V recomp p" and "Active ask p = Inr gs"
  obtains out budget where "apply_groups U (ForPhase gs frame) sel body = Inr out"
    and "applied_inv sel body (ForPhase gs frame) (out, budget)"
  using Active_total [OF assms(1), of ask] assms(2) apply_groups_inv [OF ForPhase_ok] by fastforce

lemma applies_eq: "applies sel body = (\<lambda>g. sel g \<and> (HasBody g \<longrightarrow> body \<noteq> None))"
  by (auto simp: applies_def fun_eq_iff)

section \<open>Properties\<close>

lemma example_matches:
  assumes "1 < n"
  shows "FindAllSubmatchIndex example_re ''axb'' n = [[1, 2]]"
proof -
  have none: "outcomes (re_ast example_re) ''axb'' (2, no_caps (re_numSubexp example_re)) = []"
    "outcomes (re_ast example_re) ''axb'' (3, no_caps (re_numSubexp example_re)) = []"
    by code_simp+
  have "doExecute example_re ''axb'' 3 = None"
    by (subst doExecute.simps) (simp add: none)
  then have "doExecute example_re ''axb'' 2 = None"
    by (subst doExecute.simps) (simp add: none DecodeRune_ascii)
  moreover have "doExecute example_re ''axb'' 0 = Some [1, 2]" by code_simp
  ultimately show ?thesis
    using assms by (simp add: FindAllSubmatchIndex_def allMatches.simps [of _ _ _ 0] allMatches.simps [of _ _ _ 2] next_pos_def)
qed

lemma example_removal:
  "applyBodyOp ascii_tables (Some example_op) (Some ''axb'') 5 = Inr (Some ''ab'', 1, 4)"
  by (simp add: applyBodyOp_def deref_def example_op_def BodyOp_Regexp_def bytes_of_def
      example_matches slice_def emit_match_def op_defs)

lemma example_op_ok: "body_op_ok literal_compile (Some example_op)" "b_re example_op = Some example_re"
  by (simp_all add: body_op_ok_def example_op_def op_defs limit_defs)



text \<open>
  A removal only deletes: the new body is a subsequence of the old one. An insertion only adds:
  the old body is a subsequence of the new one, which is longer by the text for every match.
\<close>

theorem body_ops_preserve_content:
  assumes "body_op_ok recomp (Some ob)" and "b_re ob = Some re" and "0 < budget"
    and "applyBodyOp U (Some ob) (Some body) budget = Inr (Some new, n, left)"
  shows "(b_Op ob = ''remove'' \<longrightarrow> subseq new body) \<and>
    (b_Op ob \<in> {''insert_before'', ''insert_after''} \<longrightarrow>
       subseq body new \<and> int (length new) = int (length body) + n * int (length (b_Text ob)))"
proof -
  let ?ms = "op_matches ob re body budget"
  let ?segs = "segments body 0 ?ms" and ?tail = "tail_after body 0 ?ms"
  have new: "new = concat (map (\<lambda>(m, gap, s). gap @ edit_text U ob re body m s) ?segs) @ ?tail" and n: "n = int (length ?ms)"
    using applyBodyOp_edited [OF assms(1-3), of U body] assms(4) by (auto simp: edited_def)
  have old: "concat (map (\<lambda>(m, gap, s). gap @ s) ?segs) @ ?tail = body"
    by (rule edited_total [OF refl])
  have len: "length (segments body pos ms) = length ms" for pos ms
    by (induction body pos ms rule: segments.induct) auto
  have "subseq new body" if "b_Op ob = ''remove''"
  proof -
    have "edit_text U ob re body m s = []" for m s using that by (simp add: edit_text_def op_defs)
    then have "subseq (concat (map (\<lambda>(m, gap, s). gap @ edit_text U ob re body m s) ?segs) @ ?tail)
        (concat (map (\<lambda>(m, gap, s). gap @ s) ?segs) @ ?tail)"
      by (intro list_emb_append_mono subseq_concat) simp_all
    then show ?thesis unfolding old new .
  qed
  moreover have "subseq body new \<and> int (length new) = int (length body) + n * int (length (b_Text ob))"
    if "b_Op ob \<in> {''insert_before'', ''insert_after''}"
  proof
    have sub: "subseq s (edit_text U ob re body m s)" and plus: "length (edit_text U ob re body m s) = length s + length (b_Text ob)"
      for m s using that by (auto simp: edit_text_def op_defs)
    have "subseq (concat (map (\<lambda>(m, gap, s). gap @ s) ?segs) @ ?tail)
        (concat (map (\<lambda>(m, gap, s). gap @ edit_text U ob re body m s) ?segs) @ ?tail)"
      by (intro list_emb_append_mono subseq_concat sub subseq_order.order_refl)
    then show "subseq body new" unfolding old new .
    have "length (concat (map (\<lambda>(m, gap, s). gap @ edit_text U ob re body m s) xs)) =
        length (concat (map (\<lambda>(m, gap, s). gap @ s) xs)) + length xs * length (b_Text ob)" for xs
      by (induction xs) (auto simp: plus)
    then have "length new = length body + length ?ms * length (b_Text ob)"
      using arg_cong [OF old, of length] by (simp add: new len)
    then show "int (length new) = int (length body) + n * int (length (b_Text ob))" by (simp add: n)
  qed
  ultimately show ?thesis by blast
qed

theorem body_ops_preserve_content_witness: "subseq ''ab'' ''axb''"
  using body_ops_preserve_content [OF example_op_ok _ example_removal] by (simp add: example_op_def)

text \<open>
  C18. Applying the groups of a validated profile never panics. It reports one row per group, in order;
  it lists exactly the groups whose conditions hold and whose body is there; all body operations
  together replace at most 4096 matches; the body changed exactly when some group counts a match, and
  an absent body stays absent.
\<close>

theorem apply_groups_bounded:
  assumes "profile_ok V recomp p" and "Active ask p = Inr gs"
  shows "\<exists>out. apply_groups U (ForPhase gs frame) sel body = Inr out \<and>
    map gr_Group (ap_Rows out) = map g_Name (ForPhase gs frame) \<and>
    ap_Groups out = map g_Name (filter (\<lambda>g. sel g \<and> (HasBody g \<longrightarrow> body \<noteq> None)) (ForPhase gs frame)) \<and>
    sum_list (map gr_Matches (ap_Rows out)) \<le> 4096 \<and>
    (ap_BodyChanged out \<longleftrightarrow> (\<exists>row\<in>set (ap_Rows out). 0 < gr_Matches row)) \<and>
    (\<not> ap_BodyChanged out \<longrightarrow> ap_Body out = body) \<and> (body = None \<longrightarrow> \<not> ap_BodyChanged out)"
proof -
  obtain out budget where run: "apply_groups U (ForPhase gs frame) sel body = Inr out"
    and inv: "applied_inv sel body (ForPhase gs frame) (out, budget)"
    using assms by (rule apply_active)
  then show ?thesis
    by (auto simp: applied_inv_def total_matches_def limit_defs applies_eq)
qed

lemma example_active: "Active no_ask example_profile = Inr [example_group]"
  by (simp add: Active_def example_profile_def deref_def no_ask_def example_group_def)

theorem apply_groups_bounded_witness:
  "\<exists>out. apply_groups ascii_tables (ForPhase [example_group] False) (\<lambda>_. True) (Some ''ax'') = Inr out
     \<and> sum_list (map gr_Matches (ap_Rows out)) \<le> 4096"
  using apply_groups_bounded [OF example_profile_ok example_active, of ascii_tables False "\<lambda>_. True" "Some ''ax''"]
  by blast


lemma example_apply:
  "apply_groups ascii_tables (ForPhase [example_group] False) (\<lambda>_. True) (Some ''axb'') = Inr
     \<lparr>ap_Groups = [''mask''], ap_Body = Some ''ab'', ap_BodyChanged = True,
      ap_Headers = Some \<lparr>ho_Set = [''X-Masked'' \<mapsto> ''1''], ho_Unset = []\<rparr>,
      ap_Rows = [\<lparr>gr_Group = ''mask'', gr_Matches = 1, gr_Headers = 1, gr_Skipped = []\<rparr>], ap_BudgetSpent = False\<rparr>"
  by (simp add: apply_groups_def ForPhase_def Group_OnFrame_def OnFrame_def example_group_def apply_group_def
      start_applied_def limit_defs applyBodyOp_def deref_def example_op_def BodyOp_Regexp_def bytes_of_def
      example_matches slice_def emit_match_def op_defs applyHeaderOp_def no_header_ops_def HasBody_def Let_def)


lemma image_filter_iff: "x \<in> f ` {y \<in> S. M y} \<longleftrightarrow> (\<exists>y\<in>S. M y \<and> f y = x)"
  by blast

text \<open>
  C20. Earlier inspectors change the selection of groups only through the rules of the profile: a skip
  or a switch counts exactly when some rule names its sender and accepts its verb and code, and it is
  about this request; a group switched off stays off whatever else is asked, one switched on or on by
  default is active, and every action is reported with one outcome, in order.
\<close>

theorem prior_rules_decide:
  assumes "profile_ok U recomp p" and "EvaluatePrior entries (Some p) = Inr a"
  shows "\<exists>gs. p_Groups p = map Some gs \<and>
    (k_Skip a \<longleftrightarrow> (\<exists>fa\<in>set (all_actions entries). a_Do (snd fa) = ''skip'' \<and> accepted (p_Prior p) fa)) \<and>
    Active a p = Inr (filter (\<lambda>g.
      (g_Default g \<or> (\<exists>fa\<in>set (all_actions entries). mutates (p_Prior p) (set (map g_Name gs)) False fa \<and> a_Group (snd fa) = g_Name g)) \<and>
      \<not> (\<exists>fa\<in>set (all_actions entries). mutates (p_Prior p) (set (map g_Name gs)) True fa \<and> a_Group (snd fa) = g_Name g)) gs) \<and>
    map (\<lambda>o1. (o_From o1, o_Do o1)) (k_Outcomes a) = map (\<lambda>fa. (fst fa, a_Do (snd fa))) (all_actions entries)"
proof -
  obtain gs where gs: "p_Groups p = map Some gs" using profile_ok_groups [OF assms(1)] by blast
  note spec = EvaluatePrior_spec [OF assms(2) gs]
  have "(\<lambda>g :: Group. (g_Default g \<or> g_Name g \<in> k_On a) \<and> g_Name g \<notin> k_Off a) = (\<lambda>g.
      (g_Default g \<or> (\<exists>fa\<in>set (all_actions entries). mutates (p_Prior p) (set (map g_Name gs)) False fa \<and> a_Group (snd fa) = g_Name g)) \<and>
      \<not> (\<exists>fa\<in>set (all_actions entries). mutates (p_Prior p) (set (map g_Name gs)) True fa \<and> a_Group (snd fa) = g_Name g))"
    unfolding spec(2,3) image_filter_iff by (rule refl)
  moreover have "k_Skip a \<longleftrightarrow> (\<exists>fa\<in>set (all_actions entries). a_Do (snd fa) = ''skip'' \<and> accepted (p_Prior p) fa)"
    unfolding spec(1) DoSkip_def by blast
  ultimately show ?thesis
    using gs Active_spec [OF gs, of a] spec(4) by simp
qed

theorem prior_rules_decide_witness:
  "\<exists>a. EvaluatePrior [] (Some example_profile) = Inr a \<and> \<not> k_Skip a"
proof -
  obtain a where a: "EvaluatePrior [] (Some example_profile) = Inr a"
    using EvaluatePrior_total [OF example_profile_ok] by blast
  with prior_rules_decide [OF example_profile_ok a] show ?thesis by (auto simp: all_actions_def)
qed

end
