(* ===== verification/Queue.thy ===== *)
theory Queue
  imports Protocol "HOL-Library.Sublist"
begin

text \<open>
  The bounded task queue and its worker pool (src/internal/queue). The state under the mutex is
  the record \<open>Pool\<close>; every critical section of the source is one function on it. The goroutines
  (message callbacks in \<open>Submit\<close>, workers, the sweeper, and whoever calls \<open>Close\<close>) are threads
  with a program counter, and \<open>pool_step\<close> interleaves their critical sections, handler calls and
  clock readings in every order. Instants and durations are in nanoseconds. The handler is a
  parameter of the pool in the source; here a call of it is an entry of the log: the task, the
  budget and the shed reason. The traffic statistics of the external flow counter are not
  modelled.
\<close>

section \<open>State\<close>

definition ReasonQueueLimit :: string where "ReasonQueueLimit = ''REWRITE_QUEUE_LIMIT''"
definition ReasonDeadlineExceeded :: string where "ReasonDeadlineExceeded = ''REWRITE_DEADLINE_EXCEEDED''"
definition FullDrop :: string where "FullDrop = ''drop''"
definition FullWait :: string where "FullWait = ''wait''"

lemmas reason_defs = ReasonQueueLimit_def ReasonDeadlineExceeded_def

record Task =
  t_Req :: Request
  t_Reply :: string
  t_Personal :: bool
  t_enqueued :: int

record Pool =
  q_q :: "Task list"
  q_depth :: nat
  q_closed :: bool
  q_stop :: bool
  q_full :: string
  q_reserve :: int
  q_minBudget :: int
  q_Accepted :: int
  q_Shed :: int
  q_Expired :: int

definition Millisecond :: int where "Millisecond = 1000000"

definition Pool_New :: "int \<Rightarrow> int \<Rightarrow> int \<Rightarrow> string \<Rightarrow> Pool" where
  "Pool_New depth reserveMS minBudgetMS full =
     \<lparr>q_q = [], q_depth = (if depth < 1 then 1 else nat depth), q_closed = False, q_stop = False,
      q_full = (if full = [] then FullDrop else full),
      q_reserve = wrap64 (reserveMS * Millisecond), q_minBudget = wrap64 (minBudgetMS * Millisecond),
      q_Accepted = 0, q_Shed = 0, q_Expired = 0\<rparr>"

section \<open>Operations under the mutex\<close>

definition leftAt :: "Pool \<Rightarrow> Task \<Rightarrow> int \<Rightarrow> int" where
  "leftAt p t now =
     (let deadline = wrap64 (r_DeadlineMS (t_Req t) * Millisecond)
      in wrap64 (wrap64 (deadline - time_Sub now (t_enqueued t)) - q_reserve p))"

definition overdue :: "Pool \<Rightarrow> int \<Rightarrow> Task \<Rightarrow> bool" where
  "overdue p now t \<longleftrightarrow> leftAt p t now < q_minBudget p"

definition takeExpiredLocked :: "Pool \<Rightarrow> int \<Rightarrow> Pool \<times> Task list" where
  "takeExpiredLocked p now =
     (if q_q p = [] then (p, [])
      else (p\<lparr>q_q := filter (\<lambda>t. \<not> overdue p now t) (q_q p)\<rparr>, filter (overdue p now) (q_q p)))"

definition enqueueLocked :: "Pool \<Rightarrow> Task \<Rightarrow> Pool" where
  "enqueueLocked p t = p\<lparr>q_q := q_q p @ [t], q_Accepted := q_Accepted p + 1\<rparr>"

text \<open>What the critical section of \<open>Submit\<close> decides.\<close>

datatype decision = Enqueued | ExpireWith int | ShedNow | WaitFor int

definition submitLocked :: "Pool \<Rightarrow> Task \<Rightarrow> int \<Rightarrow> Pool \<times> decision" where
  "submitLocked p t now =
     (if q_closed p then (p, ExpireWith 0)
      else if length (q_q p) < q_depth p then (enqueueLocked p t, Enqueued)
      else if q_full p = FullWait
      then (let left = leftAt p t now in if left < q_minBudget p then (p, ExpireWith left) else (p, WaitFor left))
      else (p, ShedNow))"

text \<open>One turn of the loop of \<open>submitWaitLocked\<close>: leave it, answer expired tasks first, or wait.\<close>

datatype wait_turn = Leave decision | AnswerFirst "Task list" | Sleep

definition waitLocked :: "Pool \<Rightarrow> Task \<Rightarrow> bool \<Rightarrow> int \<Rightarrow> Pool \<times> wait_turn" where
  "waitLocked p t timedOut now =
     (if q_depth p \<le> length (q_q p) \<and> \<not> timedOut \<and> \<not> q_closed p
      then (case takeExpiredLocked p now of (p', dead) \<Rightarrow> if dead \<noteq> [] then (p', AnswerFirst dead) else (p', Sleep))
      else if q_closed p then (p, Leave (ExpireWith 0))
      else if length (q_q p) < q_depth p then (enqueueLocked p t, Leave Enqueued)
      else (p, Leave (ExpireWith 0)))"

text \<open>One turn of the loop of \<open>pop\<close>: \<open>None\<close> is a wait on the condition variable.\<close>

definition popLocked :: "Pool \<Rightarrow> int \<Rightarrow> Pool \<times> (Task option \<times> Task list \<times> bool) option" where
  "popLocked p now =
     (case takeExpiredLocked p now of (p', dead) \<Rightarrow>
        (case q_q p' of
           t # rest \<Rightarrow> (p'\<lparr>q_q := rest\<rparr>, Some (Some t, dead, True))
         | [] \<Rightarrow> if q_closed p' then (p', Some (None, dead, False))
                 else if dead \<noteq> [] then (p', Some (None, dead, True))
                 else (p', None)))"

definition Pool_budget :: "Pool \<Rightarrow> Task \<Rightarrow> int \<Rightarrow> Pool \<times> int \<times> string" where
  "Pool_budget p t now =
     (let left = leftAt p t now in
      if left < q_minBudget p then (p\<lparr>q_Expired := q_Expired p + 1\<rparr>, left, ReasonDeadlineExceeded)
      else (p, left, []))"

definition Queued :: "Pool \<Rightarrow> nat" where
  "Queued p = length (q_q p)"

section \<open>The pool as a transition system\<close>

type_synonym call = "Task \<times> int \<times> string"

datatype pc =
    Ready                                  \<comment> \<open>a callback between two messages\<close>
  | Submit1 Task                           \<comment> \<open>the task is stamped\<close>
  | Submit2 Task                           \<comment> \<open>before collectExpired\<close>
  | SubDead "Task list" Task               \<comment> \<open>in replyDead\<close>
  | Submit3 Task                           \<comment> \<open>before taking the lock\<close>
  | SubExpire Task int                     \<comment> \<open>in expire\<close>
  | SubShed Task                           \<comment> \<open>in shedLimit\<close>
  | SubWait Task int bool                  \<comment> \<open>in the wait loop: the timer's instant and its flag\<close>
  | SubWaitDead "Task list" Task int bool  \<comment> \<open>in the wait loop, in replyDead\<close>
  | WPop
  | WDead "Task list" "Task option" bool
  | WBudget Task
  | WRun Task int string
  | WDone
  | SwIdle
  | SwDead "Task list"
  | SwDone

record sys =
  sy_pool :: Pool
  sy_threads :: "pc list"
  sy_log :: "call list"
  sy_submitted :: "Task list"
  sy_accepted :: "Task list"
  sy_popped :: "Task list"
  sy_now :: int

definition goto :: "sys \<Rightarrow> nat \<Rightarrow> pc \<Rightarrow> sys" where
  "goto s i pc = s\<lparr>sy_threads := (sy_threads s)[i := pc]\<rparr>"

text \<open>\<open>expire\<close> and \<open>shedLimit\<close>: count, then call the handler.\<close>

definition expire :: "Task \<Rightarrow> int \<Rightarrow> sys \<Rightarrow> sys" where
  "expire t left s =
     s\<lparr>sy_pool := (sy_pool s)\<lparr>q_Expired := q_Expired (sy_pool s) + 1\<rparr>,
       sy_log := sy_log s @ [(t, left, ReasonDeadlineExceeded)]\<rparr>"

definition shedLimit :: "Task \<Rightarrow> sys \<Rightarrow> sys" where
  "shedLimit t s =
     s\<lparr>sy_pool := (sy_pool s)\<lparr>q_Shed := q_Shed (sy_pool s) + 1\<rparr>,
       sy_log := sy_log s @ [(t, 0, ReasonQueueLimit)]\<rparr>"

definition call_handler :: "Task \<Rightarrow> int \<Rightarrow> string \<Rightarrow> sys \<Rightarrow> sys" where
  "call_handler t b shed s = s\<lparr>sy_log := sy_log s @ [(t, b, shed)]\<rparr>"

text \<open>
  Where a callback goes after a decision. The lists of submitted, accepted and popped tasks are
  history variables: no operation reads them.
\<close>

definition decide_pc :: "Task \<Rightarrow> int \<Rightarrow> decision \<Rightarrow> pc" where
  "decide_pc t now d = (case d of
     Enqueued \<Rightarrow> Ready | ExpireWith left \<Rightarrow> SubExpire t left | ShedNow \<Rightarrow> SubShed t
   | WaitFor left \<Rightarrow> SubWait t (now + left) False)"

definition note_accept :: "Task \<Rightarrow> decision \<Rightarrow> sys \<Rightarrow> sys" where
  "note_accept t d s = (if d = Enqueued then s\<lparr>sy_accepted := sy_accepted s @ [t]\<rparr> else s)"

definition note_pop :: "Task option \<Rightarrow> sys \<Rightarrow> sys" where
  "note_pop t s = (case t of None \<Rightarrow> s | Some x \<Rightarrow> s\<lparr>sy_popped := sy_popped s @ [x]\<rparr>)"

text \<open>
  A step of thread \<open>i\<close> at instant \<open>now\<close>, with the thread's program counter as an argument. A step
  that finds nothing to do (a sleep on the condition variable) leaves the state as it is.
\<close>

inductive thread_step :: "nat \<Rightarrow> int \<Rightarrow> sys \<Rightarrow> pc \<Rightarrow> sys \<Rightarrow> bool" for i :: nat and now :: int where
  submit: "thread_step i now s Ready
     ((goto s i (Submit1 (t\<lparr>t_enqueued := now\<rparr>)))\<lparr>sy_submitted := sy_submitted s @ [t\<lparr>t_enqueued := now\<rparr>]\<rparr>)"
| check_late: "overdue (sy_pool s) now t \<Longrightarrow> now \<le> later \<Longrightarrow>
     thread_step i now s (Submit1 t) (goto s i (SubExpire t (leftAt (sy_pool s) t later)))"
| check_ok: "\<not> overdue (sy_pool s) now t \<Longrightarrow> thread_step i now s (Submit1 t) (goto s i (Submit2 t))"
| collect: "takeExpiredLocked (sy_pool s) now = (p, dead) \<Longrightarrow>
     thread_step i now s (Submit2 t) (goto (s\<lparr>sy_pool := p\<rparr>) i (SubDead dead t))"
| sub_dead: "thread_step i now s (SubDead (d # ds) t) (goto (expire d 0 s) i (SubDead ds t))"
| sub_dead_done: "thread_step i now s (SubDead [] t) (goto s i (Submit3 t))"
| lock: "submitLocked (sy_pool s) t now = (p, d) \<Longrightarrow>
     thread_step i now s (Submit3 t) (note_accept t d (goto (s\<lparr>sy_pool := p\<rparr>) i (decide_pc t now d)))"
| sub_expire: "thread_step i now s (SubExpire t left) (goto (expire t left s) i Ready)"
| sub_shed: "thread_step i now s (SubShed t) (goto (shedLimit t s) i Ready)"
| timer: "due \<le> now \<Longrightarrow> thread_step i now s (SubWait t due False) (goto s i (SubWait t due True))"
| timer_dead: "due \<le> now \<Longrightarrow>
     thread_step i now s (SubWaitDead ds t due False) (goto s i (SubWaitDead ds t due True))"
| wait_leave: "waitLocked (sy_pool s) t timedOut now = (p, Leave d) \<Longrightarrow>
     thread_step i now s (SubWait t due timedOut) (note_accept t d (goto (s\<lparr>sy_pool := p\<rparr>) i (decide_pc t now d)))"
| wait_answer: "waitLocked (sy_pool s) t timedOut now = (p, AnswerFirst dead) \<Longrightarrow>
     thread_step i now s (SubWait t due timedOut) (goto (s\<lparr>sy_pool := p\<rparr>) i (SubWaitDead dead t due timedOut))"
| wait_sleep: "waitLocked (sy_pool s) t timedOut now = (p, Sleep) \<Longrightarrow>
     thread_step i now s (SubWait t due timedOut) (s\<lparr>sy_pool := p\<rparr>)"
| wait_dead: "thread_step i now s (SubWaitDead (d # ds) t due timedOut)
     (goto (expire d 0 s) i (SubWaitDead ds t due timedOut))"
| wait_dead_done: "thread_step i now s (SubWaitDead [] t due timedOut) (goto s i (SubWait t due timedOut))"
| pop: "popLocked (sy_pool s) now = (p, Some (t, dead, ok)) \<Longrightarrow>
     thread_step i now s WPop
       (note_pop t (goto (s\<lparr>sy_pool := p\<rparr>) i (WDead dead t ok)))"
| pop_sleep: "popLocked (sy_pool s) now = (p, None) \<Longrightarrow> thread_step i now s WPop (s\<lparr>sy_pool := p\<rparr>)"
| work_dead: "thread_step i now s (WDead (d # ds) t ok) (goto (expire d 0 s) i (WDead ds t ok))"
| work_stop: "thread_step i now s (WDead [] t False) (goto s i WDone)"
| work_again: "thread_step i now s (WDead [] None True) (goto s i WPop)"
| work_task: "thread_step i now s (WDead [] (Some t) True) (goto s i (WBudget t))"
| work_budget: "Pool_budget (sy_pool s) t now = (p, b, shed) \<Longrightarrow>
     thread_step i now s (WBudget t) (goto (s\<lparr>sy_pool := p\<rparr>) i (WRun t b shed))"
| work_run: "thread_step i now s (WRun t b shed) (goto (call_handler t b shed s) i WPop)"
| sweep: "takeExpiredLocked (sy_pool s) now = (p, dead) \<Longrightarrow>
     thread_step i now s SwIdle (goto (s\<lparr>sy_pool := p\<rparr>) i (SwDead dead))"
| sweep_dead: "thread_step i now s (SwDead (d # ds)) (goto (expire d 0 s) i (SwDead ds))"
| sweep_dead_done: "thread_step i now s (SwDead []) (goto s i SwIdle)"
| sweep_stop: "q_stop (sy_pool s) \<Longrightarrow> thread_step i now s SwIdle (goto s i SwDone)"

inductive_cases thread_step_idle [elim!]: "thread_step i now s WDone s'" "thread_step i now s SwDone s'"

inductive pool_step :: "sys \<Rightarrow> sys \<Rightarrow> bool" where
  thread: "i < length (sy_threads s) \<Longrightarrow> sy_now s \<le> now \<Longrightarrow>
     thread_step i now (s\<lparr>sy_now := now\<rparr>) (sy_threads s ! i) s' \<Longrightarrow> pool_step s s'"
| close_stop: "\<not> q_stop (sy_pool s) \<Longrightarrow> pool_step s (s\<lparr>sy_pool := (sy_pool s)\<lparr>q_stop := True\<rparr>\<rparr>)"
| close_flag: "q_stop (sy_pool s) \<Longrightarrow> \<not> q_closed (sy_pool s) \<Longrightarrow>
     pool_step s (s\<lparr>sy_pool := (sy_pool s)\<lparr>q_closed := True\<rparr>\<rparr>)"

text \<open>\<open>Close\<close> closes the channel and then sets the flag; a second call panics and is not a step.
At the start: the workers, the sweeper and any number of message callbacks.\<close>

definition pool_init :: "sys \<Rightarrow> bool" where
  "pool_init s \<longleftrightarrow>
     (\<exists>workers callbacks depth reserveMS minBudgetMS full.
        sy_pool s = Pool_New depth reserveMS minBudgetMS full \<and>
        sy_threads s = replicate workers WPop @ [SwIdle] @ replicate callbacks Ready) \<and>
     sy_log s = [] \<and> sy_submitted s = [] \<and> sy_accepted s = [] \<and> sy_popped s = []"

section \<open>What the critical sections do\<close>

lemma takeExpired_split:
  assumes "takeExpiredLocked p now = (p', dead)"
  shows "mset (q_q p') + mset dead = mset (q_q p)" and "length (q_q p') \<le> length (q_q p)"
    and "subseq (q_q p') (q_q p)" and "\<forall>t\<in>set (q_q p'). \<not> overdue p now t" and "\<forall>t\<in>set dead. overdue p now t"
    and "p' = p\<lparr>q_q := q_q p'\<rparr>"
proof -
  have eq: "q_q p' = filter (\<lambda>t. \<not> overdue p now t) (q_q p)" "dead = filter (overdue p now) (q_q p)"
    using assms by (auto simp: takeExpiredLocked_def split: if_splits)
  show "mset (q_q p') + mset dead = mset (q_q p)"
    unfolding eq by (subst add.commute) (rule filter_mset_partition)
  show "length (q_q p') \<le> length (q_q p)" and "subseq (q_q p') (q_q p)"
    unfolding eq by simp_all
  show "\<forall>t\<in>set (q_q p'). \<not> overdue p now t" and "\<forall>t\<in>set dead. overdue p now t"
    unfolding eq by simp_all
  show "p' = p\<lparr>q_q := q_q p'\<rparr>"
    using assms by (auto simp: takeExpiredLocked_def split: if_splits)
qed

lemma takeExpired_empty: "q_q p = [] \<Longrightarrow> takeExpiredLocked p now = (p, [])"
  by (simp add: takeExpiredLocked_def)

definition decided :: "Task \<Rightarrow> decision \<Rightarrow> Task list" where
  "decided t d = (if d = Enqueued then [t] else [])"

lemma submitLocked_cases:
  assumes "submitLocked p t now = (p', d)"
  shows "q_q p' = q_q p @ decided t d"
    and "q_Accepted p' = q_Accepted p + int (length (decided t d))"
    and "d = Enqueued \<Longrightarrow> \<not> q_closed p \<and> length (q_q p) < q_depth p"
    and "p' = p\<lparr>q_q := q_q p', q_Accepted := q_Accepted p'\<rparr>"
  using assms by (auto simp: submitLocked_def enqueueLocked_def decided_def Let_def split: if_splits)

lemma waitLocked_Leave_eq:
  assumes "waitLocked p t timedOut now = (p', Leave d)"
  shows "(p', d) = (if q_closed p then (p, ExpireWith 0)
     else if length (q_q p) < q_depth p then (enqueueLocked p t, Enqueued) else (p, ExpireWith 0))"
proof (cases "q_depth p \<le> length (q_q p) \<and> \<not> timedOut \<and> \<not> q_closed p")
  case True
  with assms show ?thesis by (cases "takeExpiredLocked p now") (simp add: waitLocked_def split: if_splits)
next
  case False
  with assms show ?thesis by (simp add: waitLocked_def split: if_splits)
qed

lemma waitLocked_Leave:
  assumes "waitLocked p t timedOut now = (p', Leave d)"
  shows "q_q p' = q_q p @ decided t d"
    and "q_Accepted p' = q_Accepted p + int (length (decided t d))"
    and "d = Enqueued \<Longrightarrow> \<not> q_closed p \<and> length (q_q p) < q_depth p"
    and "p' = p\<lparr>q_q := q_q p', q_Accepted := q_Accepted p'\<rparr>"
  using waitLocked_Leave_eq [OF assms] by (auto simp: enqueueLocked_def decided_def split: if_splits)

lemma takeExpired_none: "takeExpiredLocked p now = (p', []) \<Longrightarrow> p' = p"
  by (auto simp: takeExpiredLocked_def filter_empty_conv filter_id_conv split: if_splits)

lemma waitLocked_Answer:
  assumes "waitLocked p t timedOut now = (p', AnswerFirst dead)"
  shows "takeExpiredLocked p now = (p', dead)"
  using assms by (cases "takeExpiredLocked p now") (auto simp: waitLocked_def split: if_splits)

lemma waitLocked_Sleep:
  assumes "waitLocked p t timedOut now = (p', Sleep)"
  shows "p' = p"
  by (rule takeExpired_none [of p now])
    (use assms in \<open>cases "takeExpiredLocked p now", auto simp: waitLocked_def split: if_splits\<close>)

lemma popLocked_Some:
  assumes "popLocked p now = (p', Some (t, dead, ok))"
  obtains p1 where "takeExpiredLocked p now = (p1, dead)" and "p' = p1\<lparr>q_q := q_q p'\<rparr>"
    and "q_q p1 = (case t of None \<Rightarrow> [] | Some x \<Rightarrow> [x]) @ q_q p'"
    and "\<not> ok \<longrightarrow> q_closed p' \<and> q_q p' = [] \<and> t = None"
  using assms by (cases "takeExpiredLocked p now") (auto simp: popLocked_def split: if_splits list.splits)

lemma popLocked_None: "popLocked p now = (p', None) \<Longrightarrow> takeExpiredLocked p now = (p', []) \<and> q_q p' = [] \<and> \<not> q_closed p'"
  by (cases "takeExpiredLocked p now") (auto simp: popLocked_def split: if_splits list.splits)

section \<open>Invariants of the pool\<close>

text \<open>The tasks a thread has taken out of the queue, or not yet put into it, and must still answer.\<close>

fun owned :: "pc \<Rightarrow> Task multiset" where
  "owned (Submit1 t) = {#t#}"
| "owned (Submit2 t) = {#t#}"
| "owned (SubDead ds t) = mset ds + {#t#}"
| "owned (Submit3 t) = {#t#}"
| "owned (SubExpire t _) = {#t#}"
| "owned (SubShed t) = {#t#}"
| "owned (SubWait t _ _) = {#t#}"
| "owned (SubWaitDead ds t _ _) = mset ds + {#t#}"
| "owned (WDead ds t _) = mset ds + (case t of None \<Rightarrow> {#} | Some x \<Rightarrow> {#x#})"
| "owned (WBudget t) = {#t#}"
| "owned (WRun t _ _) = {#t#}"
| "owned (SwDead ds) = mset ds"
| "owned _ = {#}"

definition in_flight :: "sys \<Rightarrow> Task multiset" where
  "in_flight s = mset (q_q (sy_pool s)) + sum_list (map owned (sy_threads s)) + mset (map fst (sy_log s))"

text \<open>Every submitted task is in the queue, with one thread, or answered: exactly once.\<close>

definition conserved :: "sys \<Rightarrow> bool" where
  "conserved s \<longleftrightarrow> mset (sy_submitted s) = in_flight s"

lemmas sys_defs = goto_def expire_def shedLimit_def call_handler_def note_accept_def note_pop_def

lemma decide_pc_owned: "owned (decide_pc t now d) + mset (decided t d) = {#t#}"
  by (cases d) (simp_all add: decide_pc_def decided_def)

lemma note_accept_simps [simp]:
  "sy_pool (note_accept t d s) = sy_pool s" "sy_threads (note_accept t d s) = sy_threads s"
  "sy_log (note_accept t d s) = sy_log s" "sy_submitted (note_accept t d s) = sy_submitted s"
  "sy_popped (note_accept t d s) = sy_popped s" "sy_accepted (note_accept t d s) = sy_accepted s @ decided t d"
  by (simp_all add: note_accept_def decided_def)

lemma note_pop_simps [simp]:
  "sy_pool (note_pop t s) = sy_pool s" "sy_threads (note_pop t s) = sy_threads s"
  "sy_log (note_pop t s) = sy_log s" "sy_submitted (note_pop t s) = sy_submitted s"
  "sy_accepted (note_pop t s) = sy_accepted s"
  "sy_popped (note_pop t s) = sy_popped s @ (case t of None \<Rightarrow> [] | Some x \<Rightarrow> [x])"
  by (simp_all add: note_pop_def split: option.split)

lemma popLocked_mset:
  assumes "popLocked p now = (p', Some (t, dead, ok))"
  shows "mset (q_q p') + mset dead + (case t of None \<Rightarrow> {#} | Some x \<Rightarrow> {#x#}) = mset (q_q p)"
proof -
  obtain p1 where p1: "takeExpiredLocked p now = (p1, dead)"
    and q: "q_q p1 = (case t of None \<Rightarrow> [] | Some x \<Rightarrow> [x]) @ q_q p'"
    using assms by (rule popLocked_Some)
  show ?thesis using takeExpired_split(1) [OF p1] q by (auto split: option.splits)
qed

text \<open>
  What holds of the pool at a thread's program counter: a worker that stops has seen the pool
  closed and drained, and a task that is about to be evaluated has the minimum budget.
\<close>

fun pc_ok :: "Pool \<Rightarrow> pc \<Rightarrow> bool" where
  "pc_ok p (WDead ds t ok) \<longleftrightarrow> ok \<or> t = None \<and> q_closed p \<and> q_q p = []"
| "pc_ok p WDone \<longleftrightarrow> q_closed p \<and> q_q p = []"
| "pc_ok p (WRun t b shed) \<longleftrightarrow> shed = ReasonDeadlineExceeded \<or> shed = [] \<and> q_minBudget p \<le> b"
| "pc_ok p _ \<longleftrightarrow> True"

text \<open>How a critical section may change the pool.\<close>

definition evolves :: "Pool \<Rightarrow> Pool \<Rightarrow> bool" where
  "evolves p p' \<longleftrightarrow>
     q_depth p' = q_depth p \<and> q_minBudget p' = q_minBudget p \<and> q_reserve p' = q_reserve p \<and>
     (q_closed p \<longrightarrow> q_closed p') \<and> (q_closed p \<and> q_q p = [] \<longrightarrow> q_q p' = []) \<and>
     (length (q_q p) \<le> q_depth p \<longrightarrow> length (q_q p') \<le> q_depth p)"

lemma evolves_refl [simp]: "evolves p p"
  by (simp add: evolves_def)

lemma pc_ok_evolves: "evolves p p' \<Longrightarrow> pc_ok p pc \<Longrightarrow> pc_ok p' pc"
  by (cases pc) (auto simp: evolves_def)

lemma evolves_counters [simp]: "evolves p (p\<lparr>q_Expired := e\<rparr>)" "evolves p (p\<lparr>q_Shed := n\<rparr>)"
  by (simp_all add: evolves_def)

lemma evolves_take: "takeExpiredLocked p now = (p', dead) \<Longrightarrow> evolves p p'"
  by (auto simp: evolves_def takeExpiredLocked_def split: if_splits intro: order_trans [OF length_filter_le])

lemma evolves_submit: "submitLocked p t now = (p', d) \<Longrightarrow> evolves p p'"
  by (auto simp: evolves_def submitLocked_def enqueueLocked_def Let_def split: if_splits)

lemma evolves_leave: "waitLocked p t timedOut now = (p', Leave d) \<Longrightarrow> evolves p p'"
  by (drule waitLocked_Leave_eq) (auto simp: evolves_def enqueueLocked_def split: if_splits)

lemma evolves_pop: "popLocked p now = (p', r) \<Longrightarrow> evolves p p' \<and> (\<forall>t dead ok. r = Some (t, dead, ok) \<longrightarrow> pc_ok p' (WDead dead t ok))"
proof (cases "takeExpiredLocked p now")
  case (Pair p1 dead)
  assume "popLocked p now = (p', r)"
  with Pair evolves_take [OF Pair] show ?thesis
    by (auto simp: popLocked_def evolves_def split: list.splits if_splits)
qed

lemma evolves_budget: "Pool_budget p t now = (p', b, shed) \<Longrightarrow> evolves p p' \<and> pc_ok p' (WRun t b shed) \<and> q_q p' = q_q p"
  by (auto simp: Pool_budget_def evolves_def Let_def split: if_splits)

lemma evolves_answer: "waitLocked p t timedOut now = (p', AnswerFirst dead) \<Longrightarrow> evolves p p'"
  by (rule evolves_take) (rule waitLocked_Answer)

lemmas evolves_rules = evolves_take evolves_answer evolves_submit evolves_leave evolves_pop evolves_budget

lemma thread_step_evolves: "thread_step i now s pc s' \<Longrightarrow> evolves (sy_pool s) (sy_pool s')"
  by (cases rule: thread_step.cases)
    (auto simp: goto_def expire_def shedLimit_def call_handler_def dest: evolves_rules waitLocked_Sleep)

lemma decide_pc_ok [simp]: "pc_ok p (decide_pc t now d)"
  by (cases d) (simp_all add: decide_pc_def)

definition pcs_ok :: "sys \<Rightarrow> bool" where
  "pcs_ok s \<longleftrightarrow> (\<forall>pc\<in>set (sy_threads s). pc_ok (sy_pool s) pc)"

lemma thread_step_pc:
  assumes "thread_step i now s pc s'" and "i < length (sy_threads s)" and "pc_ok (sy_pool s) pc"
  shows "sy_threads s' = sy_threads s \<or>
    sy_threads s' = (sy_threads s)[i := sy_threads s' ! i] \<and> pc_ok (sy_pool s') (sy_threads s' ! i)"
  using assms(1)
proof cases
  case (pop p t dead ok)
  with assms(2) evolves_pop [OF pop(3)] show ?thesis by (simp add: goto_def)
next
  case (work_budget t p b shed)
  with assms(2) evolves_budget [OF work_budget(3)] show ?thesis by (simp add: goto_def)
qed (use assms in \<open>simp_all add: goto_def expire_def shedLimit_def call_handler_def\<close>)

lemma thread_step_pcs_ok:
  assumes "thread_step i now s pc s'" and "pc = sy_threads s ! i" and "i < length (sy_threads s)" and "pcs_ok s"
  shows "pcs_ok s'"
proof -
  have "pc_ok (sy_pool s) pc" using assms(2-4) by (simp add: pcs_ok_def)
  moreover have "pc_ok (sy_pool s') x" if "x \<in> set (sy_threads s)" for x
    using that assms(4) pc_ok_evolves [OF thread_step_evolves [OF assms(1)]] by (auto simp: pcs_ok_def)
  ultimately show ?thesis
    using thread_step_pc [OF assms(1,3)] set_update_subset_insert [of "sy_threads s" i "sy_threads s' ! i"]
    by (auto simp: pcs_ok_def)
qed

lemma thread_step_conserved:
  assumes "thread_step i now s pc s'" and "pc = sy_threads s ! i" and "i < length (sy_threads s)"
    and "pc_ok (sy_pool s) pc" and "conserved s"
  shows "conserved s'"
proof -
  obtain rest where rest: "sum_list (map owned (sy_threads s)) = rest + owned pc"
    and upd: "\<And>y. sum_list (map owned ((sy_threads s)[i := y])) = rest + owned y"
    using sum_list_update_split [OF assms(3), of owned] assms(2) by metis
  have inv: "mset (sy_submitted s) = mset (q_q (sy_pool s)) + (rest + owned pc) + mset (map fst (sy_log s))"
    using assms(5) rest by (simp add: conserved_def in_flight_def)
  note unfold = conserved_def in_flight_def goto_def upd ac_simps
  from assms(1) show ?thesis
  proof cases
    case (collect p dead t)
    then show ?thesis using inv takeExpired_split(1) [OF collect(3), symmetric] by (simp add: unfold)
  next
    case (lock t p d)
    then show ?thesis using inv submitLocked_cases(1) [OF lock(3)] decide_pc_owned [of t now d, symmetric]
      by (simp add: unfold)
  next
    case (wait_leave t timedOut p d due)
    then show ?thesis using inv waitLocked_Leave(1) [OF wait_leave(3)] decide_pc_owned [of t now d, symmetric]
      by (simp add: unfold)
  next
    case (wait_answer t timedOut p dead due)
    then show ?thesis
      using inv takeExpired_split(1) [OF waitLocked_Answer [OF wait_answer(3)], symmetric]
      by (simp add: unfold)
  next
    case (wait_sleep t timedOut p due)
    then show ?thesis using inv rest waitLocked_Sleep [OF wait_sleep(3)] by (simp add: unfold)
  next
    case (pop p t dead ok)
    then show ?thesis using inv popLocked_mset [OF pop(3), symmetric] by (simp add: unfold)
  next
    case (pop_sleep p)
    then show ?thesis using inv rest popLocked_None [OF pop_sleep(3)] takeExpired_none by (fastforce simp: unfold)
  next
    case (work_budget t p b shed)
    then have "q_q p = q_q (sy_pool s)" by (auto simp: Pool_budget_def Let_def split: if_splits)
    with work_budget inv show ?thesis by (simp add: unfold)
  next
    case (sweep p dead)
    then show ?thesis using inv takeExpired_split(1) [OF sweep(3), symmetric] by (simp add: unfold)
  qed (use inv assms(4) in \<open>simp_all add: unfold expire_def shedLimit_def call_handler_def\<close>)
qed

text \<open>The counters, and what was handed to the handler.\<close>

definition reason_count :: "string \<Rightarrow> call list \<Rightarrow> int" where
  "reason_count r log = int (length (filter (\<lambda>c. snd (snd c) = r) log))"

lemma reason_count_simps [simp]:
  "reason_count r [] = 0"
  "reason_count r (log @ [(t, b, r')]) = reason_count r log + (if r' = r then 1 else 0)"
  by (simp_all add: reason_count_def)

fun expired_pc :: "pc \<Rightarrow> int" where
  "expired_pc (WRun t b shed) = (if shed = ReasonDeadlineExceeded then 1 else 0)"
| "expired_pc _ = 0"

definition counters :: "sys \<Rightarrow> bool" where
  "counters s \<longleftrightarrow>
     q_Expired (sy_pool s) = reason_count ReasonDeadlineExceeded (sy_log s) + sum_list (map expired_pc (sy_threads s)) \<and>
     q_Shed (sy_pool s) = reason_count ReasonQueueLimit (sy_log s) \<and>
     q_Accepted (sy_pool s) = int (length (sy_accepted s))"

definition log_ok :: "sys \<Rightarrow> bool" where
  "log_ok s \<longleftrightarrow> (\<forall>(t, b, shed) \<in> set (sy_log s).
     shed = ReasonDeadlineExceeded \<or> shed = ReasonQueueLimit \<and> b = 0 \<or> shed = [] \<and> q_minBudget (sy_pool s) \<le> b)"

lemma take_counters:
  "takeExpiredLocked p now = (p', dead) \<Longrightarrow>
   q_Expired p' = q_Expired p \<and> q_Shed p' = q_Shed p \<and> q_Accepted p' = q_Accepted p"
  by (auto simp: takeExpiredLocked_def split: if_splits)

lemma pop_counters:
  "popLocked p now = (p', r) \<Longrightarrow>
   q_Expired p' = q_Expired p \<and> q_Shed p' = q_Shed p \<and> q_Accepted p' = q_Accepted p"
  by (cases "takeExpiredLocked p now")
    (auto simp: popLocked_def split: if_splits list.splits dest!: take_counters)

lemma submit_counters:
  "submitLocked p t now = (p', d) \<Longrightarrow> q_Expired p' = q_Expired p \<and> q_Shed p' = q_Shed p"
  by (drule submitLocked_cases(4)) (metis Pool.select_convs(9,10) Pool.update_convs(1,8) Pool.surjective)

lemma leave_counters:
  "waitLocked p t timedOut now = (p', Leave d) \<Longrightarrow> q_Expired p' = q_Expired p \<and> q_Shed p' = q_Shed p"
  by (drule waitLocked_Leave_eq) (auto simp: enqueueLocked_def split: if_splits)

lemma expired_decide_pc [simp]: "expired_pc (decide_pc t now d) = 0"
  by (cases d) (simp_all add: decide_pc_def)

lemma reasons_distinct [simp]:
  "ReasonDeadlineExceeded \<noteq> ReasonQueueLimit" "ReasonQueueLimit \<noteq> ReasonDeadlineExceeded"
  "ReasonDeadlineExceeded \<noteq> []" "ReasonQueueLimit \<noteq> []" "[] \<noteq> ReasonDeadlineExceeded" "[] \<noteq> ReasonQueueLimit"
  by (simp_all add: reason_defs)

lemma thread_step_counters:
  assumes "thread_step i now s pc s'" and "pc = sy_threads s ! i" and "i < length (sy_threads s)"
    and "pc_ok (sy_pool s) pc" and "counters s"
  shows "counters s'"
proof -
  obtain rest where rest: "sum_list (map expired_pc (sy_threads s)) = rest + expired_pc pc"
    and upd: "\<And>y. sum_list (map expired_pc ((sy_threads s)[i := y])) = rest + expired_pc y"
    using sum_list_update_split [OF assms(3), of expired_pc] assms(2) by metis
  note inv = assms(5) [unfolded counters_def rest]
  note unfold = counters_def goto_def upd
  from assms(1) show ?thesis
  proof cases
    case (lock t p d)
    then show ?thesis using inv submitLocked_cases(2) [OF lock(3)] submit_counters [OF lock(3)] by (simp add: unfold)
  next
    case (wait_leave t timedOut p d due)
    then show ?thesis using inv waitLocked_Leave(2) [OF wait_leave(3)] leave_counters [OF wait_leave(3)]
      by (simp add: unfold)
  next
    case (wait_answer t timedOut p dead due)
    then show ?thesis using inv take_counters [OF waitLocked_Answer [OF wait_answer(3)]] by (simp add: unfold)
  next
    case (work_budget t p b shed)
    then show ?thesis using inv by (auto simp: unfold Pool_budget_def Let_def split: if_splits)
  next
    case (wait_sleep t timedOut p due)
    then show ?thesis using inv rest waitLocked_Sleep [OF wait_sleep(3)] by (simp add: unfold)
  qed (use inv rest assms(4) in \<open>auto simp: unfold expire_def shedLimit_def call_handler_def
         dest!: take_counters pop_counters\<close>)
qed

lemma thread_step_log_ok:
  assumes "thread_step i now s pc s'" and "pc_ok (sy_pool s) pc" and "log_ok s"
  shows "log_ok s'"
proof -
  have "q_minBudget (sy_pool s') = q_minBudget (sy_pool s)"
    using thread_step_evolves [OF assms(1)] by (simp add: evolves_def)
  with assms(1) assms(2,3) show ?thesis
    by cases (auto simp: log_ok_def goto_def expire_def shedLimit_def call_handler_def)
qed

text \<open>Tasks leave the queue for the workers in the order in which they were accepted.\<close>

definition fifo :: "sys \<Rightarrow> bool" where
  "fifo s \<longleftrightarrow> subseq (sy_popped s @ q_q (sy_pool s)) (sy_accepted s)"

lemma fifo_drop: "subseq (xs @ ys) zs \<Longrightarrow> subseq ys' ys \<Longrightarrow> subseq (xs @ ys') zs"
  by (meson subseq_order.order_trans list_emb_append_mono subseq_order.order_refl)

lemma thread_step_fifo:
  assumes "thread_step i now s pc s'" and "fifo s"
  shows "fifo s'"
proof -
  note inv = assms(2) [unfolded fifo_def]
  from assms(1) show ?thesis
  proof cases
    case (lock t p d)
    then show ?thesis using inv submitLocked_cases(1) [OF lock(3)]
      by (simp add: fifo_def goto_def list_emb_append_mono flip: append_assoc)
  next
    case (wait_leave t timedOut p d due)
    then show ?thesis using inv waitLocked_Leave(1) [OF wait_leave(3)]
      by (simp add: fifo_def goto_def list_emb_append_mono flip: append_assoc)
  next
    case (wait_answer t timedOut p dead due)
    then show ?thesis using fifo_drop [OF inv takeExpired_split(3) [OF waitLocked_Answer [OF wait_answer(3)]]]
      by (simp add: fifo_def goto_def)
  next
    case (pop p t dead ok)
    obtain p1 where p1: "takeExpiredLocked (sy_pool s) now = (p1, dead)"
      and q: "q_q p1 = (case t of None \<Rightarrow> [] | Some x \<Rightarrow> [x]) @ q_q p"
      using pop(3) by (rule popLocked_Some)
    with pop show ?thesis using fifo_drop [OF inv takeExpired_split(3) [OF p1]]
      by (simp add: fifo_def goto_def)
  next
    case (work_budget t p b shed)
    then show ?thesis using inv evolves_budget [OF work_budget(3)] by (simp add: fifo_def goto_def)
  qed (use inv in \<open>auto simp: fifo_def goto_def expire_def shedLimit_def call_handler_def
         dest: waitLocked_Sleep popLocked_None takeExpired_none fifo_drop [OF _ takeExpired_split(3)]\<close>)
qed

section \<open>The invariant of the whole pool\<close>

definition depth_ok :: "Pool \<Rightarrow> bool" where
  "depth_ok p \<longleftrightarrow> 1 \<le> q_depth p \<and> length (q_q p) \<le> q_depth p"

definition pool_inv :: "sys \<Rightarrow> bool" where
  "pool_inv s \<longleftrightarrow> depth_ok (sy_pool s) \<and> pcs_ok s \<and> conserved s \<and> counters s \<and> log_ok s \<and> fifo s"

lemmas pool_inv_defs = pool_inv_def depth_ok_def pcs_ok_def conserved_def in_flight_def counters_def log_ok_def fifo_def

lemma sum_list_replicate_zero [simp]: "sum_list (replicate n (0 :: 'a :: comm_monoid_add)) = 0"
  by (induction n) simp_all

lemma pool_inv_init:
  assumes "pool_init s"
  shows "pool_inv s"
proof -
  obtain workers callbacks depth reserveMS minBudgetMS full where
    pool: "sy_pool s = Pool_New depth reserveMS minBudgetMS full" and
    threads: "sy_threads s = replicate workers WPop @ [SwIdle] @ replicate callbacks Ready"
    using assms by (auto simp: pool_init_def)
  have "sy_log s = []" "sy_submitted s = []" "sy_accepted s = []" "sy_popped s = []"
    using assms by (simp_all add: pool_init_def)
  then show ?thesis
    by (auto simp: pool_inv_defs pool threads Pool_New_def map_replicate_const)
qed

lemma thread_step_inv:
  assumes "thread_step i now s (sy_threads s ! i) s'" and "i < length (sy_threads s)" and "pool_inv s"
  shows "pool_inv s'"
proof -
  have pc: "pc_ok (sy_pool s) (sy_threads s ! i)" and "depth_ok (sy_pool s)"
    using assms by (simp_all add: pool_inv_def pcs_ok_def)
  then have "depth_ok (sy_pool s')"
    using thread_step_evolves [OF assms(1)] by (auto simp: depth_ok_def evolves_def)
  with assms pc show ?thesis
    using thread_step_pcs_ok thread_step_conserved thread_step_counters thread_step_log_ok thread_step_fifo
    unfolding pool_inv_def by metis
qed

lemma pool_inv_closing:
  "pool_inv s \<Longrightarrow> pool_inv (s\<lparr>sy_pool := (sy_pool s)\<lparr>q_stop := True\<rparr>\<rparr>)"
  "pool_inv s \<Longrightarrow> pool_inv (s\<lparr>sy_pool := (sy_pool s)\<lparr>q_closed := True\<rparr>\<rparr>)"
proof -
  have "pc_ok p pc \<Longrightarrow> pc_ok (p\<lparr>q_stop := True\<rparr>) pc \<and> pc_ok (p\<lparr>q_closed := True\<rparr>) pc" for p pc
    by (cases pc) auto
  then show "pool_inv s \<Longrightarrow> pool_inv (s\<lparr>sy_pool := (sy_pool s)\<lparr>q_stop := True\<rparr>\<rparr>)"
    and "pool_inv s \<Longrightarrow> pool_inv (s\<lparr>sy_pool := (sy_pool s)\<lparr>q_closed := True\<rparr>\<rparr>)"
    by (simp_all add: pool_inv_defs)
qed

lemma pool_step_inv:
  assumes "pool_inv s" and "pool_step s s'"
  shows "pool_inv s'"
  using assms(2)
proof cases
  case (thread i now)
  have "pool_inv (s\<lparr>sy_now := now\<rparr>)" using assms(1) by (simp add: pool_inv_defs)
  then show ?thesis using thread_step_inv [of i now "s\<lparr>sy_now := now\<rparr>"] thread by simp
qed (simp_all add: assms(1) pool_inv_closing)

interpretation pool: transition_system pool_init pool_step pool_inv
  by unfold_locales (auto intro: pool_inv_init pool_step_inv)

text \<open>A worker never goes to sleep on a queue that holds a task.\<close>

lemma pop_awake: "q_q p \<noteq> [] \<Longrightarrow> \<exists>p' t dead ok. popLocked p now = (p', Some (t, dead, ok)) \<and> (t \<noteq> None \<or> dead \<noteq> [])"
proof (cases "takeExpiredLocked p now")
  case (Pair p' dead)
  assume "q_q p \<noteq> []"
  then have "q_q p' = [] \<Longrightarrow> dead \<noteq> []" using takeExpired_split(1) [OF Pair] by auto
  with Pair show ?thesis by (auto simp: popLocked_def split: list.split)
qed

section \<open>An executable scheduler\<close>

text \<open>
  Runs of the pool computed from a schedule: which thread moves at which instant. A timer that is
  due fires before its thread moves on; an action that is not enabled does nothing.
\<close>

fun exec_pc :: "nat \<Rightarrow> int \<Rightarrow> pc \<Rightarrow> sys \<Rightarrow> sys" where
  "exec_pc i now Ready s = s"
| "exec_pc i now (Submit1 t) s =
     goto s i (if overdue (sy_pool s) now t then SubExpire t (leftAt (sy_pool s) t now) else Submit2 t)"
| "exec_pc i now (Submit2 t) s =
     (case takeExpiredLocked (sy_pool s) now of (p, dead) \<Rightarrow> goto (s\<lparr>sy_pool := p\<rparr>) i (SubDead dead t))"
| "exec_pc i now (SubDead [] t) s = goto s i (Submit3 t)"
| "exec_pc i now (SubDead (d # ds) t) s = goto (expire d 0 s) i (SubDead ds t)"
| "exec_pc i now (Submit3 t) s =
     (case submitLocked (sy_pool s) t now of (p, d) \<Rightarrow>
        note_accept t d (goto (s\<lparr>sy_pool := p\<rparr>) i (decide_pc t now d)))"
| "exec_pc i now (SubExpire t left) s = goto (expire t left s) i Ready"
| "exec_pc i now (SubShed t) s = goto (shedLimit t s) i Ready"
| "exec_pc i now (SubWait t due timedOut) s =
     (if due \<le> now \<and> \<not> timedOut then goto s i (SubWait t due True)
      else case waitLocked (sy_pool s) t timedOut now of
        (p, Leave d) \<Rightarrow> note_accept t d (goto (s\<lparr>sy_pool := p\<rparr>) i (decide_pc t now d))
      | (p, AnswerFirst dead) \<Rightarrow> goto (s\<lparr>sy_pool := p\<rparr>) i (SubWaitDead dead t due timedOut)
      | (p, Sleep) \<Rightarrow> s\<lparr>sy_pool := p\<rparr>)"
| "exec_pc i now (SubWaitDead [] t due timedOut) s = goto s i (SubWait t due timedOut)"
| "exec_pc i now (SubWaitDead (d # ds) t due timedOut) s = goto (expire d 0 s) i (SubWaitDead ds t due timedOut)"
| "exec_pc i now WPop s =
     (case popLocked (sy_pool s) now of
        (p, Some (t, dead, ok)) \<Rightarrow> note_pop t (goto (s\<lparr>sy_pool := p\<rparr>) i (WDead dead t ok))
      | (p, None) \<Rightarrow> s\<lparr>sy_pool := p\<rparr>)"
| "exec_pc i now (WDead (d # ds) t ok) s = goto (expire d 0 s) i (WDead ds t ok)"
| "exec_pc i now (WDead [] t False) s = goto s i WDone"
| "exec_pc i now (WDead [] None True) s = goto s i WPop"
| "exec_pc i now (WDead [] (Some t) True) s = goto s i (WBudget t)"
| "exec_pc i now (WBudget t) s =
     (case Pool_budget (sy_pool s) t now of (p, b, shed) \<Rightarrow> goto (s\<lparr>sy_pool := p\<rparr>) i (WRun t b shed))"
| "exec_pc i now (WRun t b shed) s = goto (call_handler t b shed s) i WPop"
| "exec_pc i now WDone s = s"
| "exec_pc i now SwIdle s =
     (if q_stop (sy_pool s) then goto s i SwDone
      else case takeExpiredLocked (sy_pool s) now of (p, dead) \<Rightarrow> goto (s\<lparr>sy_pool := p\<rparr>) i (SwDead dead))"
| "exec_pc i now (SwDead []) s = goto s i SwIdle"
| "exec_pc i now (SwDead (d # ds)) s = goto (expire d 0 s) i (SwDead ds)"
| "exec_pc i now SwDone s = s"

lemma exec_pc_sound: "pc \<noteq> Ready \<Longrightarrow> pc \<noteq> WDone \<Longrightarrow> pc \<noteq> SwDone \<Longrightarrow> thread_step i now s pc (exec_pc i now pc s)"
  by (cases "(i, now, pc, s)" rule: exec_pc.cases)
    (auto intro: thread_step.intros split: prod.split option.split wait_turn.split)

datatype action = Deliver nat int Task | Turn nat int | CloseStop | CloseFlag

fun exec :: "action \<Rightarrow> sys \<Rightarrow> sys" where
  "exec (Deliver i now t) s =
     (if i < length (sy_threads s) \<and> sy_now s \<le> now \<and> sy_threads s ! i = Ready
      then (goto (s\<lparr>sy_now := now\<rparr>) i (Submit1 (t\<lparr>t_enqueued := now\<rparr>)))
             \<lparr>sy_submitted := sy_submitted s @ [t\<lparr>t_enqueued := now\<rparr>]\<rparr>
      else s)"
| "exec (Turn i now) s =
     (if i < length (sy_threads s) \<and> sy_now s \<le> now \<and> sy_threads s ! i \<notin> {Ready, WDone, SwDone}
      then exec_pc i now (sy_threads s ! i) (s\<lparr>sy_now := now\<rparr>) else s)"
| "exec CloseStop s =
     (if q_stop (sy_pool s) then s else s\<lparr>sy_pool := (sy_pool s)\<lparr>q_stop := True\<rparr>\<rparr>)"
| "exec CloseFlag s =
     (if q_stop (sy_pool s) \<and> \<not> q_closed (sy_pool s)
      then s\<lparr>sy_pool := (sy_pool s)\<lparr>q_closed := True\<rparr>\<rparr> else s)"

lemma exec_sound: "pool_step\<^sup>*\<^sup>* s (exec a s)"
proof (cases a)
  case (Deliver i now t)
  have "pool_step s (exec (Deliver i now t) s)" if "i < length (sy_threads s)" "sy_now s \<le> now" "sy_threads s ! i = Ready"
    using that thread_step.submit [of i now "s\<lparr>sy_now := now\<rparr>" t] by (auto intro: pool_step.thread)
  then show ?thesis unfolding Deliver by (cases "i < length (sy_threads s) \<and> sy_now s \<le> now \<and> sy_threads s ! i = Ready") auto
next
  case (Turn i now)
  then show ?thesis by (auto intro!: r_into_rtranclp intro: pool_step.thread exec_pc_sound)
qed (auto intro!: r_into_rtranclp intro: pool_step.intros)

lemma exec_run: "pool_step\<^sup>*\<^sup>* s (fold exec as s)"
  by (induction as arbitrary: s) (auto intro: rtranclp_trans exec_sound)

definition start :: "nat \<Rightarrow> nat \<Rightarrow> int \<Rightarrow> int \<Rightarrow> int \<Rightarrow> string \<Rightarrow> sys" where
  "start workers callbacks depth reserveMS minBudgetMS full =
     \<lparr>sy_pool = Pool_New depth reserveMS minBudgetMS full,
      sy_threads = replicate workers WPop @ [SwIdle] @ replicate callbacks Ready,
      sy_log = [], sy_submitted = [], sy_accepted = [], sy_popped = [], sy_now = 0\<rparr>"

lemma start_init: "pool_init (start workers callbacks depth reserveMS minBudgetMS full)"
  by (auto simp: start_def pool_init_def)

section \<open>Properties\<close>

text \<open>A run with one worker, the sweeper and one callback: a task is queued, evaluated, and the pool closes.\<close>

definition example_task :: Task where
  "example_task = \<lparr>t_Req = example_request, t_Reply = ''inbox'', t_Personal = False, t_enqueued = 0\<rparr>"

definition example_run :: sys where
  "example_run = fold exec
     [Deliver 2 10 example_task, Turn 2 20, Turn 2 30, Turn 2 40, Turn 2 50,
      Turn 0 60, Turn 0 70, Turn 0 80, Turn 0 90,
      CloseStop, CloseFlag, Turn 0 100, Turn 0 110, Turn 1 120] (start 1 1 4 5 3 ''drop'')"

lemma example_run_reachable: "pool_step\<^sup>*\<^sup>* (start 1 1 4 5 3 ''drop'') example_run"
  unfolding example_run_def by (rule exec_run)

lemma example_left:
  "q_reserve p = 5000000 \<Longrightarrow> 10 \<le> now \<Longrightarrow> now < 1000 \<Longrightarrow>
   leftAt p (example_task\<lparr>t_enqueued := 10\<rparr>) now = 45000010 - now"
  by (simp add: leftAt_def example_task_def example_request_def Millisecond_def time_Sub_exact wrap64_id int64_def)

lemma example_run_state:
  "sy_threads example_run = [WDone, SwDone, Ready]"
  "sy_log example_run = [(example_task\<lparr>t_enqueued := 10\<rparr>, 44999930, [])]"
  "q_minBudget (sy_pool example_run) = 3000000"
  "sy_submitted example_run = [example_task\<lparr>t_enqueued := 10\<rparr>]"
  "q_q (sy_pool example_run) = []"
  "sy_popped example_run = [example_task\<lparr>t_enqueued := 10\<rparr>]"
  by (simp_all add: example_run_def start_def sys_defs Pool_New_def takeExpiredLocked_def submitLocked_def
      enqueueLocked_def popLocked_def Pool_budget_def example_left overdue_def decide_pc_def
      wrap64_id int64_def Millisecond_def)

lemmas example_run_facts = start_init [of 1 1 4 5 3 "''drop''"] example_run_reachable

lemma pool_answers_all:
  assumes "pool_init s0" and "pool_step\<^sup>*\<^sup>* s0 s"
    and "WDone \<in> set (sy_threads s)" and "set (sy_threads s) \<subseteq> {Ready, WDone, SwDone}"
  shows "mset (map fst (sy_log s)) = mset (sy_submitted s)"
proof -
  have inv: "pool_inv s" using assms(1,2) by (rule pool.inv_reachable)
  then have "q_q (sy_pool s) = []" using assms(3) by (auto simp: pool_inv_def pcs_ok_def)
  moreover have "map owned (sy_threads s) = map (\<lambda>_. {#}) (sy_threads s)"
    using assms(4) by (intro map_cong) auto
  ultimately show ?thesis
    using inv by (simp add: pool_inv_def conserved_def in_flight_def map_replicate_const)
qed

text \<open>
  No task is lost or answered twice: when \<open>Close\<close> has let the workers finish and no callback is
  inside \<open>Submit\<close>, the handler has been called exactly once for every task ever submitted, under
  every interleaving of callbacks, workers, sweeper and shutdown.
\<close>

theorem pool_answers_each_task_once:
  assumes "pool_init s0" and "pool_step\<^sup>*\<^sup>* s0 s"
    and "WDone \<in> set (sy_threads s)" and "set (sy_threads s) \<subseteq> {Ready, WDone, SwDone}"
  shows "mset (map fst (sy_log s)) = mset (sy_submitted s)"
  using assms by (rule pool_answers_all)

theorem pool_answers_each_task_once_witness:
  "mset (map fst (sy_log example_run)) = mset (sy_submitted example_run)"
  by (rule pool_answers_each_task_once [OF example_run_facts]) (simp_all add: example_run_state)

text \<open>
  At every moment each submitted task is in exactly one place: in the queue, with one of the
  threads, or answered. In particular no task is ever answered twice.
\<close>

theorem pool_conserves_tasks:
  assumes "pool_init s0" and "pool_step\<^sup>*\<^sup>* s0 s"
  shows "mset (sy_submitted s) =
           mset (q_q (sy_pool s)) + sum_list (map owned (sy_threads s)) + mset (map fst (sy_log s))"
  using pool.inv_reachable [OF assms] by (simp add: pool_inv_def conserved_def in_flight_def)

theorem pool_conserves_tasks_witness:
  "mset (sy_submitted example_run) =
     mset (q_q (sy_pool example_run)) + sum_list (map owned (sy_threads example_run)) + mset (map fst (sy_log example_run))"
  by (rule pool_conserves_tasks [OF example_run_facts])

text \<open>The queue never holds more tasks than its depth, and the depth is at least one.\<close>

theorem pool_depth_bound:
  assumes "pool_init s0" and "pool_step\<^sup>*\<^sup>* s0 s"
  shows "Queued (sy_pool s) \<le> q_depth (sy_pool s) \<and> 1 \<le> q_depth (sy_pool s)"
  using pool.inv_reachable [OF assms] by (simp add: pool_inv_def depth_ok_def Queued_def)

theorem pool_depth_bound_witness:
  "Queued (sy_pool example_run) \<le> q_depth (sy_pool example_run) \<and> 1 \<le> q_depth (sy_pool example_run)"
  by (rule pool_depth_bound [OF example_run_facts])

text \<open>
  The handler evaluates a task (an empty shed reason) only with at least the configured
  minimum budget; every other call carries one of the two shed reasons, and a queue-limit shed has
  budget zero.
\<close>

theorem pool_evaluates_in_budget:
  assumes "pool_init s0" and "pool_step\<^sup>*\<^sup>* s0 s" and "(t, b, shed) \<in> set (sy_log s)"
  shows "shed = [] \<and> q_minBudget (sy_pool s) \<le> b \<or> shed = ReasonDeadlineExceeded \<or> shed = ReasonQueueLimit \<and> b = 0"
  using pool.inv_reachable [OF assms(1,2)] assms(3) by (auto simp: pool_inv_def log_ok_def)

theorem pool_evaluates_in_budget_witness:
  "q_minBudget (sy_pool example_run) \<le> 44999930"
  using pool_evaluates_in_budget [OF example_run_facts, of "example_task\<lparr>t_enqueued := 10\<rparr>" 44999930 "[]"]
  by (simp add: example_run_state)

text \<open>C27. Workers take tasks in the order in which they were accepted; an expired task may be skipped.\<close>

theorem pool_fifo:
  assumes "pool_init s0" and "pool_step\<^sup>*\<^sup>* s0 s"
  shows "subseq (sy_popped s @ q_q (sy_pool s)) (sy_accepted s)"
  using pool.inv_reachable [OF assms] by (simp add: pool_inv_def fifo_def)

theorem pool_fifo_witness:
  "subseq (sy_popped example_run @ q_q (sy_pool example_run)) (sy_accepted example_run)"
  by (rule pool_fifo [OF example_run_facts])

text \<open>
  The published counters are exact: \<open>Accepted\<close> counts the tasks put into the queue, \<open>Shed\<close> the
  calls of the handler with the queue-limit reason, and \<open>Expired\<close> those with the deadline reason,
  together with the workers that have decided on such a call and not yet made it.
\<close>

theorem pool_counters_exact:
  assumes "pool_init s0" and "pool_step\<^sup>*\<^sup>* s0 s"
  shows "q_Accepted (sy_pool s) = int (length (sy_accepted s)) \<and>
    q_Shed (sy_pool s) = reason_count ReasonQueueLimit (sy_log s) \<and>
    q_Expired (sy_pool s) =
      reason_count ReasonDeadlineExceeded (sy_log s) + sum_list (map expired_pc (sy_threads s))"
  using pool.inv_reachable [OF assms] by (simp add: pool_inv_def counters_def)

theorem pool_counters_exact_witness:
  "q_Accepted (sy_pool example_run) = int (length (sy_accepted example_run)) \<and>
    q_Shed (sy_pool example_run) = reason_count ReasonQueueLimit (sy_log example_run) \<and>
    q_Expired (sy_pool example_run) =
      reason_count ReasonDeadlineExceeded (sy_log example_run) + sum_list (map expired_pc (sy_threads example_run))"
  by (rule pool_counters_exact [OF example_run_facts])

text \<open>
  C28. The remaining time of a task is computed without wrap-around for every deadline below 2^62
  nanoseconds (146 years) and every reserve and waiting time below half of that, and it never grows
  as time passes.
\<close>

theorem leftAt_exact_and_decreasing:
  assumes "0 \<le> r_DeadlineMS (t_Req t)" and "r_DeadlineMS (t_Req t) * Millisecond < 2 ^ 62"
    and "0 \<le> q_reserve p" and "q_reserve p < 2 ^ 61"
    and "t_enqueued t \<le> now" and "now \<le> later" and "later - t_enqueued t < 2 ^ 61"
  shows "leftAt p t now = r_DeadlineMS (t_Req t) * Millisecond - (now - t_enqueued t) - q_reserve p
    \<and> leftAt p t later \<le> leftAt p t now"
proof -
  have "leftAt p t u = r_DeadlineMS (t_Req t) * Millisecond - (u - t_enqueued t) - q_reserve p"
    if "now \<le> u" "u \<le> later" for u
  proof -
    have sub: "time_Sub u (t_enqueued t) = u - t_enqueued t"
      using that assms by (intro time_Sub_exact) (simp add: int64_def)
    let ?d = "r_DeadlineMS (t_Req t) * Millisecond"
    have "0 \<le> ?d" using assms(1) by (simp add: Millisecond_def)
    then have "int64 ?d" "int64 (?d - (u - t_enqueued t))" "int64 (?d - (u - t_enqueued t) - q_reserve p)"
      using that assms by (simp_all add: int64_def)
    then show ?thesis by (simp add: leftAt_def Let_def sub wrap64_id)
  qed
  from this [of now] this [of later] show ?thesis using assms(6) by simp
qed

theorem leftAt_exact_and_decreasing_witness:
  "leftAt (sy_pool (start 1 1 4 5 3 ''drop'')) example_task 7 = 44999993
    \<and> leftAt (sy_pool (start 1 1 4 5 3 ''drop'')) example_task 9 \<le> 44999993"
  using leftAt_exact_and_decreasing [of example_task "sy_pool (start 1 1 4 5 3 ''drop'')" 7 9]
  by (simp add: example_task_def example_request_def start_def Pool_New_def Millisecond_def wrap64_id int64_def)

text \<open>
  A worker that looks at a queue with a task in it never goes to sleep: it leaves the critical
  section with a task to run or with expired tasks to answer.
\<close>

theorem pop_never_sleeps_on_work:
  assumes "Queued p \<noteq> 0"
  shows "\<exists>p' t dead ok. popLocked p now = (p', Some (t, dead, ok)) \<and> (t \<noteq> None \<or> dead \<noteq> []) \<and> Queued p' < Queued p"
proof -
  obtain p' t dead ok where pop: "popLocked p now = (p', Some (t, dead, ok))" and some: "t \<noteq> None \<or> dead \<noteq> []"
    using pop_awake assms by (metis Queued_def length_0_conv)
  have "size (mset (q_q p)) = size (mset (q_q p')) + length dead + (case t of None \<Rightarrow> 0 | Some _ \<Rightarrow> 1)"
    unfolding popLocked_mset [OF pop, symmetric] by (simp split: option.split)
  with some have "Queued p' < Queued p" by (auto simp: Queued_def split: option.splits)
  with pop some show ?thesis by blast
qed

theorem pop_never_sleeps_on_work_witness:
  "\<exists>p' t dead ok. popLocked (enqueueLocked (Pool_New 4 5 3 ''drop'') example_task) 9 = (p', Some (t, dead, ok))
     \<and> (t \<noteq> None \<or> dead \<noteq> []) \<and> Queued p' < Queued (enqueueLocked (Pool_New 4 5 3 ''drop'') example_task)"
  by (rule pop_never_sleeps_on_work) (simp add: Queued_def enqueueLocked_def)

end
