(* ===== verification/GoJsonRaw.thy ===== *)
theory GoJsonRaw
  imports JsonCodec
begin

text \<open>
  The parts of encoding/json that only audit events use: floating-point numbers and \<open>json.RawMessage\<close>, JSON
  text that is embedded in a document after it has been validated and compacted.
\<close>

section \<open>Floating-point numbers\<close>

text \<open>
  Every floating-point number of the program is a duration in microseconds divided by 1000; \<open>float64\<close> is that numerator. Below
  \<open>2 ^ 43\<close> milliseconds neighbouring thousandths are different numbers, and the shortest text that denotes one of
  them has at most three decimals.
\<close>

type_synonym float64 = int

definition digit :: "nat \<Rightarrow> char" where
  "digit n = char_of (48 + n)"

definition decimals :: "nat \<Rightarrow> string" where
  "decimals n =
     (if n = 0 then []
      else if n mod 100 = 0 then CHR ''.'' # [digit (n div 100)]
      else if n mod 10 = 0 then CHR ''.'' # [digit (n div 100), digit (n div 10 mod 10)]
      else CHR ''.'' # [digit (n div 100), digit (n div 10 mod 10), digit (n mod 10)])"

definition enc_float :: "float64 \<Rightarrow> json" where
  "enc_float x =
     JNum ((if x < 0 then ''-'' else []) @ nat_digits (nat \<bar>x\<bar> div 1000) @ decimals (nat \<bar>x\<bar> mod 1000))"

section \<open>Raw messages\<close>

text \<open>The text without the blanks between its tokens, with the characters in strings escaped that HTML knows.\<close>

fun squeeze :: "bool \<Rightarrow> bytes \<Rightarrow> bytes" where
  "squeeze q [] = []"
| "squeeze False (c # cs) =
     (if is_blank c then squeeze False cs else c # squeeze (c = quote_char) cs)"
| "squeeze True (c # cs) =
     (if c = backslash then c # (case cs of [] \<Rightarrow> [] | d # ds \<Rightarrow> d # squeeze True ds)
      else if c = quote_char then c # squeeze False cs
      else if c = CHR ''<'' \<or> c = CHR ''>'' \<or> c = CHR ''&'' then backslash # CHR ''u'' # hex4 (byte_val c) @ squeeze True cs
      else if c = CHR 0xE2 \<and> 2 \<le> length cs \<and> cs ! 0 = CHR 0x80 \<and> (cs ! 1 = CHR 0xA8 \<or> cs ! 1 = CHR 0xA9)
      then backslash # ''u202'' @ [hex_digit (byte_val (cs ! 1) mod 16)] @ squeeze True (drop 2 cs)
      else c # squeeze True cs)"

definition compact :: "bytes \<Rightarrow> bytes option" where
  "compact s = (if parse_json s = None then None else Some (squeeze False s))"

section \<open>Properties\<close>

lemma is_digit_digit: "n < 10 \<Longrightarrow> is_digit (digit n)"
  by (simp add: digit_def is_digit_char)

lemma decimals_scanned: "n < 1000 \<Longrightarrow> scan_frac lit (decimals n) = Some (lit @ decimals n, [])"
proof -
  assume "n < 1000"
  then have "is_digit (digit (n div 100))" "is_digit (digit (n div 10 mod 10))" "is_digit (digit (n mod 10))"
    by (auto intro!: is_digit_digit)
  then show ?thesis by (simp add: scan_frac_def scan_exp_def decimals_def)
qed

lemma decimals_no_digit: "takeWhile is_digit (decimals n) = []"
  by (simp add: decimals_def is_digit_def)

lemma enc_float_fits [simp]: "json_ok d (enc_float x)"
proof -
  define a b where "a = nat \<bar>x\<bar> div 1000" and "b = nat \<bar>x\<bar> mod 1000"
  have "b < 1000" by (simp add: b_def)
  with scan_integer [OF decimals_no_digit, of a b] decimals_scanned [of b]
  show ?thesis by (simp add: enc_float_def flip: a_def b_def)
qed

lemma json_ok_mono: "json_ok d v \<Longrightarrow> d \<le> e \<Longrightarrow> json_ok e v"
proof (induction v arbitrary: d e)
  case (JArr vs)
  have "json_ok (e - 1) v" if "v \<in> set vs" for v
    by (rule JArr.IH [OF that, of "d - 1"]) (use JArr.prems that in simp_all)
  with JArr(2,3) show ?case by simp
next
  case (JObj ms)
  have "json_ok (e - 1) (snd m)" if "m \<in> set ms" for m
    by (rule JObj.IH [of m "snd m" "d - 1"]) (use JObj.prems that in \<open>simp_all add: snds.simps\<close>)
  with JObj(2,3) show ?case by simp
qed simp_all

text \<open>What the encoder writes is compact already.\<close>

definition plain_char :: "char \<Rightarrow> bool" where
  "plain_char c \<longleftrightarrow> c \<notin> {backslash, quote_char, CHR ''<'', CHR ''>'', CHR ''&'', CHR 0xE2}"

lemma squeeze_plain: "plain_char c \<Longrightarrow> squeeze True (c # s) = c # squeeze True s"
  by (simp add: plain_char_def)

lemma squeeze_escape: "squeeze True (backslash # d # s) = backslash # d # squeeze True s"
  by simp

lemma squeeze_quoted: "squeeze True (quote_char # s) = quote_char # squeeze False s"
  by simp

declare squeeze.simps(3) [simp del]

lemma hex_digit_plain: "n < 16 \<Longrightarrow> plain_char (hex_digit n)"
proof -
  have "list_all (\<lambda>n. plain_char (hex_digit n)) [0..<16]" by code_simp
  then show "n < 16 \<Longrightarrow> plain_char (hex_digit n)" by (simp add: list_all_iff)
qed

lemma squeeze_hex4: "squeeze True (hex4 n @ s) = hex4 n @ squeeze True s"
  by (simp add: hex4_def squeeze_plain hex_digit_plain)

lemma squeeze_fffd: "squeeze True (backslash # ''ufffd'' @ s) = backslash # ''ufffd'' @ squeeze True s"
  by (simp add: squeeze_escape squeeze_plain plain_char_def)

lemma squeeze_esc_byte:
  assumes "byte_val c < (128 :: nat)"
  shows "squeeze True (esc_byte c @ s) = esc_byte c @ squeeze True s"
proof -
  have "c \<noteq> CHR 0xE2" using assms by auto
  then have "plain_char c" if "c \<notin> {backslash, quote_char, CHR ''<'', CHR ''>'', CHR ''&''}" using that by (simp add: plain_char_def)
  then show ?thesis unfolding esc_byte_def by (simp add: squeeze_escape squeeze_hex4 squeeze_plain)
qed

text \<open>A byte of a longer sequence of UTF-8, other than the first byte of a separator.\<close>

lemma high_plain: "128 \<le> (byte_val c :: nat) \<Longrightarrow> c \<noteq> CHR 0xE2 \<Longrightarrow> plain_char c"
  by (auto simp: plain_char_def)

lemma cont_plain: "cont 128 191 (byte_val c) \<Longrightarrow> plain_char c"
  by (rule high_plain) (auto simp: cont_def)

lemma squeeze_E2: "\<not> (d = CHR 0x80 \<and> (e = CHR 0xA8 \<or> e = CHR 0xA9)) \<Longrightarrow> squeeze True (CHR 0xE2 # d # e # s) = CHR 0xE2 # squeeze True (d # e # s)"
  by (simp add: squeeze.simps(3))

lemma squeeze_rune:
  assumes "DecodeRune (c # cs) = (r, n)" and "1 < n" and "r \<noteq> 8232" and "r \<noteq> 8233"
  shows "squeeze True (take n (c # cs) @ s) = take n (c # cs) @ squeeze True s"
proof (cases rule: DecodeRune_cases [where c = c and cs = cs])
  case two
  with assms decode2_multi [of "byte_val c" cs r n] obtain d ds where cs: "cs = d # ds" and d: "decode2 (byte_val c) (d # ds) = (r, 2)" and n: "n = 2"
    by auto
  from d have "plain_char d" by (intro cont_plain) (auto simp: decode2_def cont_def split: if_splits)
  moreover have "plain_char c" using two by (intro high_plain) auto
  ultimately show ?thesis by (simp add: cs n squeeze_plain)
next
  case three
  with assms decode3_multi [of "byte_val c" cs r n] obtain d e ds where cs: "cs = d # e # ds" and d: "decode3 (byte_val c) (d # e # ds) = (r, 3)" and n: "n = 3"
    by auto
  from d have de: "plain_char d" "plain_char e" by (intro cont_plain; auto simp: decode3_def cont_def split: if_splits)+
  have sep: "\<not> (d = CHR 0x80 \<and> (e = CHR 0xA8 \<or> e = CHR 0xA9))" if "c = CHR 0xE2"
    using d assms(3,4) that by (auto simp: decode3_def cont_def)
  have "squeeze True (c # d # e # s) = c # squeeze True (d # e # s)"
    using three squeeze_E2 [OF sep] squeeze_plain [OF high_plain, of c] by (cases "c = CHR 0xE2") auto
  with de show ?thesis by (simp add: cs n squeeze_plain)
next
  case four
  with assms decode4_multi [of "byte_val c" cs r n] obtain d e f ds where cs: "cs = d # e # f # ds" and d: "decode4 (byte_val c) (d # e # f # ds) = (r, 4)" and n: "n = 4"
    by auto
  from d have "plain_char d" "plain_char e" "plain_char f" by (intro cont_plain; auto simp: decode4_def cont_def split: if_splits)+
  moreover have "plain_char c" using four by (intro high_plain) auto
  ultimately show ?thesis by (simp add: cs n squeeze_plain)
qed (use assms in auto)

lemma squeeze_quote_body: "squeeze True (quote_body t @ quote_char # s) = quote_body t @ quote_char # squeeze False s"
proof (induction t rule: quote_body.induct)
  case (1 t)
  show ?case
  proof (cases t)
    case Nil
    then show ?thesis by (simp add: quote_body.simps squeeze_quoted)
  next
    case (Cons c cs)
    obtain r n where rn: "DecodeRune (c # cs) = (r, n)" by fastforce
    show ?thesis
    proof (cases "byte_val c < (128 :: nat)")
      case True
      with 1(1) [OF Cons] Cons show ?thesis by (simp add: quote_body.simps [of "c # cs"] squeeze_esc_byte)
    next
      case high: False
      note ih = 1(2) [OF Cons high] 1(3,4) [OF Cons high]
      consider "n \<le> 1" | "1 < n" "r = 8232 \<or> r = 8233" | "1 < n" "r \<noteq> 8232" "r \<noteq> 8233" by linarith
      then show ?thesis
      proof cases
        case 1
        with ih(1) rn high squeeze_fffd show ?thesis by (simp add: quote_body.simps [of "c # cs"] Cons)
      next
        case 2
        with ih(2) rn high show ?thesis by (simp add: quote_body.simps [of "c # cs"] Cons squeeze_escape squeeze_hex4)
      next
        case 3
        with ih(3) rn high squeeze_rune [OF rn 3] show ?thesis by (simp add: quote_body.simps [of "c # cs"] Cons)
      qed
    qed
  qed
qed

lemma squeeze_quote [simp]: "squeeze False (quote t @ s) = quote t @ squeeze False s"
  using squeeze_quote_body [of t s] by (simp add: quote_def is_blank_def)

definition number_char :: "char \<Rightarrow> bool" where
  "number_char c \<longleftrightarrow> is_digit c \<or> c \<in> {CHR ''-'', CHR ''+'', CHR ''.'', CHR ''e'', CHR ''E''}"

lemma number_char_digits: "\<forall>c\<in>set (takeWhile is_digit s). number_char c"
  by (auto simp: number_char_def dest: set_takeWhileD)

lemma scan_exp_chars: "scan_exp lit t = Some (l, r) \<Longrightarrow> \<forall>c\<in>set lit. number_char c \<Longrightarrow> \<forall>c\<in>set l. number_char c"
  using number_char_digits
  by (auto simp: scan_exp_def Let_def split: list.splits if_splits) (auto simp: number_char_def dest: set_takeWhileD)

lemma scan_frac_chars: "scan_frac lit t = Some (l, r) \<Longrightarrow> \<forall>c\<in>set lit. number_char c \<Longrightarrow> \<forall>c\<in>set l. number_char c"
  using scan_exp_chars [of lit t l r] scan_exp_chars [of "lit @ CHR ''.'' # takeWhile is_digit (tl t)" "dropWhile is_digit (tl t)" l r]
    number_char_digits [of "tl t"]
  by (auto simp: scan_frac_def ball_Un split: if_splits) (auto simp: number_char_def)

lemma number_char_simps [simp]: "number_char (CHR ''-'')" "number_char (CHR ''0'')" "is_digit c \<Longrightarrow> number_char c"
  by (simp_all add: number_char_def is_digit_def)

lemma scanned_chars:
  assumes "scan_number s = Some (l, r)"
  shows "\<forall>c\<in>set l. number_char c"
proof -
  define sign where "sign = (if s \<noteq> [] \<and> hd s = CHR ''-'' then [CHR ''-''] else [])"
  define t where "t = drop (length sign) s"
  have sign: "\<forall>c\<in>set sign. number_char c" by (simp add: sign_def)
  from assms have "scan_frac (sign @ [CHR ''0'']) (tl t) = Some (l, r) \<or>
      scan_frac (sign @ takeWhile is_digit t) (dropWhile is_digit t) = Some (l, r)"
    unfolding scan_number_def Let_def sign_def [symmetric] t_def [symmetric] by (cases t) (simp_all split: if_splits)
  then show ?thesis
  proof
    assume "scan_frac (sign @ [CHR ''0'']) (tl t) = Some (l, r)"
    then show ?thesis by (rule scan_frac_chars) (use sign in auto)
  next
    assume "scan_frac (sign @ takeWhile is_digit t) (dropWhile is_digit t) = Some (l, r)"
    then show ?thesis by (rule scan_frac_chars) (use sign number_char_digits [of t] in \<open>simp add: ball_Un\<close>)
  qed
qed

lemma number_char_plain: "number_char c \<Longrightarrow> \<not> is_blank c \<and> c \<noteq> quote_char"
  by (auto simp: number_char_def is_digit_def is_blank_def)

lemma squeeze_number: "\<forall>c\<in>set l. number_char c \<Longrightarrow> squeeze False (l @ s) = l @ squeeze False s"
  by (induction l) (simp_all add: number_char_plain)

lemma squeeze_join:
  assumes "\<And>x s. x \<in> set xs \<Longrightarrow> squeeze False (f x @ s) = f x @ squeeze False s"
  shows "squeeze False (join (CHR '','') (map f xs) @ s) = join (CHR '','') (map f xs) @ squeeze False s"
  using assms by (induction xs rule: induct_list012) (simp_all add: is_blank_def)

lemma squeeze_print: "json_ok d v \<Longrightarrow> squeeze False (print_json v @ s) = print_json v @ squeeze False s"
proof (induction v arbitrary: d s)
  case (JNum l)
  then show ?case by (simp add: squeeze_number [OF scanned_chars])
next
  case (JArr vs)
  then have "squeeze False (print_json v @ t) = print_json v @ squeeze False t" if "v \<in> set vs" for v t
    using that by auto
  then show ?case by (simp add: squeeze_join is_blank_def)
next
  case (JObj ms)
  have "squeeze False ((quote (fst m) @ CHR '':'' # print_json (snd m)) @ t) = (quote (fst m) @ CHR '':'' # print_json (snd m)) @ squeeze False t"
    if "m \<in> set ms" for m t
    using JObj that by (simp add: is_blank_def snds.simps) blast
  then show ?case by (simp add: squeeze_join is_blank_def)
qed (simp_all add: is_blank_def)

text \<open>A raw message that was encoded before is embedded as it is.\<close>

lemma compact_print: "json_ok maxNestingDepth v \<Longrightarrow> compact (print_json v) = Some (print_json v)"
  using squeeze_print [of maxNestingDepth v "[]"] by (simp add: compact_def parse_print)

end
