(* ===== verification/AuditSink.thy ===== *)
theory AuditSink
  imports Protocol GoJsonRaw "HOL-Library.Sublist"
begin

text \<open>
  Audit events and the batching sink (src/internal/audit). \<open>Build\<close> fills an event from a request,
  its reply and the details of the evaluation. The sink keeps the encoded events under a mutex;
  its loop takes batches of them and publishes one message per subject. \<open>ts\<close> is a formatted reading of
  the clock. The values of the engine map are a type parameter with its encoder \<open>enc\<close>; theory Handler has the
  values that the program uses. The creation of the stream is in theory Process.
\<close>

section \<open>Events\<close>

definition Kind :: string where "Kind = ''inspector''"
definition AuditVersion :: int where "AuditVersion = 1"

record Finding =
  fd_Code :: string
  fd_Severity :: string
  fd_Target :: string
  fd_Offset :: "int option"
  fd_Length :: "int option"
  fd_Rule :: string
  fd_Confidence :: "float64 option"
  fd_Evidence :: string

text \<open>A nil slice of findings and a nil engine map are \<open>None\<close>.\<close>

record 'e Details =
  d_EngineMS :: float64
  d_Findings :: "Finding list option"
  d_Engine :: "(string \<rightharpoonup> 'e) option"

definition no_details :: "'e Details" where
  "no_details = \<lparr>d_EngineMS = 0, d_Findings = None, d_Engine = None\<rparr>"

record FrameRef =
  fr_Direction :: string
  fr_Seq :: nat

record 'e Event =
  ev_V :: int
  ev_Kind :: string
  ev_TS :: string
  ev_Ray :: string
  ev_Node :: string
  ev_Phase :: string
  ev_Inspector :: string
  ev_Profile :: string
  ev_Verdict :: string
  ev_Score :: "int option"
  ev_EngineMS :: float64
  ev_Findings :: "Finding list"
  ev_Engine :: "(string \<rightharpoonup> 'e) option"
  ev_Frame :: "FrameRef option"

definition Build :: "string \<Rightarrow> Request option \<Rightarrow> Reply option \<Rightarrow> 'e Details \<Rightarrow> 'e Event" where
  "Build ts req reply det =
     (let ev = \<lparr>ev_V = AuditVersion, ev_Kind = Kind, ev_TS = ts, ev_Ray = [], ev_Node = [], ev_Phase = [],
                ev_Inspector = [], ev_Profile = [], ev_Verdict = [], ev_Score = None,
                ev_EngineMS = d_EngineMS det,
                ev_Findings = (case d_Findings det of None \<Rightarrow> [] | Some fs \<Rightarrow> fs),
                ev_Engine = d_Engine det, ev_Frame = None\<rparr>;
          ev = (case req of None \<Rightarrow> ev
                | Some r \<Rightarrow> ev\<lparr>ev_Ray := r_Ray r, ev_Node := r_Node r, ev_Phase := r_Phase r,
                               ev_Inspector := r_Inspector r, ev_Profile := rt_Profile (r_Route r),
                               ev_Frame := (case r_Stream r of None \<Rightarrow> None
                                 | Some st \<Rightarrow> if st_Direction st \<noteq> []
                                              then Some \<lparr>fr_Direction = st_Direction st, fr_Seq = r_Seq r\<rparr> else None)\<rparr>)
      in (case reply of None \<Rightarrow> ev
          | Some y \<Rightarrow> ev\<lparr>ev_Verdict := y_Verdict y, ev_Score := y_Score y,
                          ev_Inspector := (if ev_Inspector ev = [] then y_Inspector y else ev_Inspector ev)\<rparr>))"

text \<open>Encoding an event. A member that is empty and marked so in its tag is left out.\<close>

definition omit_if :: "bool \<Rightarrow> string \<Rightarrow> json \<Rightarrow> (bytes \<times> json) list" where
  "omit_if omit name j = (if omit then [] else [(name, j)])"

definition enc_Finding :: "Finding \<Rightarrow> json" where
  "enc_Finding f = JObj
     ([(''code'', JStr (fd_Code f)), (''severity'', JStr (fd_Severity f)), (''target'', JStr (fd_Target f))]
      @ omit_if (fd_Offset f = None) ''offset'' (enc_ptr enc_int (fd_Offset f))
      @ omit_if (fd_Length f = None) ''length'' (enc_ptr enc_int (fd_Length f))
      @ omit_if (fd_Rule f = []) ''rule'' (JStr (fd_Rule f))
      @ omit_if (fd_Confidence f = None) ''confidence'' (enc_ptr enc_float (fd_Confidence f))
      @ omit_if (fd_Evidence f = []) ''evidence'' (JStr (fd_Evidence f)))"

definition enc_FrameRef :: "FrameRef \<Rightarrow> json" where
  "enc_FrameRef f = JObj [(''direction'', JStr (fr_Direction f)), (''seq'', enc_uint (fr_Seq f))]"

definition engine_map :: "'e Event \<Rightarrow> (string \<rightharpoonup> 'e)" where
  "engine_map ev = (case ev_Engine ev of None \<Rightarrow> Map.empty | Some m \<Rightarrow> m)"

definition enc_Event :: "('e \<Rightarrow> json) \<Rightarrow> 'e Event \<Rightarrow> json" where
  "enc_Event enc ev = JObj
     ([(''v'', enc_int (ev_V ev)), (''kind'', JStr (ev_Kind ev)), (''ts'', JStr (ev_TS ev)), (''ray'', JStr (ev_Ray ev)),
       (''node'', JStr (ev_Node ev)), (''phase'', JStr (ev_Phase ev)), (''inspector'', JStr (ev_Inspector ev)),
       (''profile'', JStr (ev_Profile ev)), (''verdict'', JStr (ev_Verdict ev))]
      @ omit_if (ev_Score ev = None) ''score'' (enc_ptr enc_int (ev_Score ev))
      @ [(''engine_ms'', enc_float (ev_EngineMS ev)), (''findings'', JArr (map enc_Finding (ev_Findings ev)))]
      @ omit_if (engine_map ev = Map.empty) ''engine'' (enc_map enc (engine_map ev))
      @ omit_if (ev_Frame ev = None) ''frame'' (enc_ptr enc_FrameRef (ev_Frame ev)))"

section \<open>The sink\<close>

definition KindBatch :: string where "KindBatch = ''batch''"
definition maxItems :: nat where "maxItems = 256"
definition maxSize :: nat where "maxSize = 512 * 1024"
definition maxPending :: nat where "maxPending = 50000"

lemmas sink_limits = maxItems_def maxSize_def maxPending_def

record item =
  i_subject :: string
  i_body :: bytes

record envelope =
  en_V :: int
  en_Kind :: string
  en_Items :: "bytes list"

text \<open>The state under the mutex, and the wake channel of capacity one.\<close>

record Sink =
  s_pending :: "item list"
  s_size :: nat
  s_dropped :: nat
  s_wake :: bool

definition NewSink :: Sink where
  "NewSink = \<lparr>s_pending = [], s_size = 0, s_dropped = 0, s_wake = False\<rparr>"

definition sizeOf :: "item list \<Rightarrow> nat" where
  "sizeOf items = foldl (\<lambda>n it. n + (length (i_body it) + 2)) 0 items"

text \<open>The critical section of \<open>Add\<close>: the new state and whether the sink is full.\<close>

definition addLocked :: "item \<Rightarrow> Sink \<Rightarrow> Sink \<times> bool" where
  "addLocked it s =
     (let pending = s_pending s @ [it];
          size = s_size s + (length (i_body it) + 2);
          cut = length pending - maxPending;
          s = (if maxPending < length pending
               then s\<lparr>s_pending := drop cut pending, s_size := sizeOf (drop cut pending),
                      s_dropped := (s_dropped s + cut) mod 2 ^ 64\<rparr>
               else s\<lparr>s_pending := pending, s_size := size\<rparr>)
      in (s, maxItems \<le> length (s_pending s) \<or> maxSize \<le> s_size s))"

definition kick :: "Sink \<Rightarrow> Sink" where
  "kick s = (if s_wake s then s else s\<lparr>s_wake := True\<rparr>)"

definition enqueue :: "item \<Rightarrow> Sink \<Rightarrow> Sink" where
  "enqueue it s = (case addLocked it s of (s, full) \<Rightarrow> if full then kick s else s)"

text \<open>
  \<open>Add\<close>. \<open>online\<close> says that the sink and its connection are not nil. The encoder has no error to report: every
  value of an event has a type it knows, and the numbers are finite.
\<close>

definition Add ::
  "bool \<Rightarrow> ('e \<Rightarrow> json) \<Rightarrow> string \<Rightarrow> Request option \<Rightarrow> Reply option \<Rightarrow> 'e Details \<Rightarrow> Sink \<Rightarrow> Sink" where
  "Add online enc ts req reply det s =
     (if \<not> online then s
      else (case (req, reply) of
          (Some r, Some y) \<Rightarrow>
            (case r_AuditSubject r of
               None \<Rightarrow> s
             | Some subject \<Rightarrow>
                 if subject = [] then s
                 else enqueue \<lparr>i_subject = subject, i_body = json_Marshal (enc_Event enc) (Build ts req reply det)\<rparr> s)
        | _ \<Rightarrow> s))"

text \<open>One turn of the loop of \<open>flush\<close>: \<open>None\<close> when nothing is pending.\<close>

definition takeLocked :: "Sink \<Rightarrow> Sink \<times> item list option" where
  "takeLocked s =
     (if s_pending s = [] then (s, None)
      else (let n = (if maxItems < length (s_pending s) then maxItems else length (s_pending s)) in
        (s\<lparr>s_pending := drop n (s_pending s), s_size := sizeOf (drop n (s_pending s))\<rparr>,
         Some (take n (s_pending s)))))"

definition add_to_group :: "string list \<times> (string \<rightharpoonup> item list) \<Rightarrow> item \<Rightarrow> string list \<times> (string \<rightharpoonup> item list)" where
  "add_to_group = (\<lambda>(order, bySubject) it.
     ((if bySubject (i_subject it) = None then order @ [i_subject it] else order),
      bySubject(i_subject it \<mapsto> (case bySubject (i_subject it) of None \<Rightarrow> [] | Some its \<Rightarrow> its) @ [it])))"

definition groupBySubject :: "item list \<Rightarrow> string list \<times> (string \<rightharpoonup> item list)" where
  "groupBySubject items = foldl add_to_group ([], Map.empty) items"

text \<open>The calls of \<open>send\<close> that \<open>publish\<close> makes.\<close>

type_synonym batch = "string \<times> item list"

definition publish :: "item list \<Rightarrow> batch list" where
  "publish items =
     (if length items = 1 then [(i_subject (items ! 0), take 1 items)]
      else (case groupBySubject items of (order, bySubject) \<Rightarrow>
        map (\<lambda>subject. (subject, case bySubject subject of None \<Rightarrow> [] | Some its \<Rightarrow> its)) order))"

text \<open>
  The text of an envelope: each item is validated and compacted. None is an item that is not JSON.
\<close>

definition enc_envelope :: "envelope \<Rightarrow> bytes option" where
  "enc_envelope e = map_option
     (\<lambda>raws. CHR ''{'' # join (CHR '','')
        [quote ''v'' @ CHR '':'' # FormatInt (en_V e), quote ''kind'' @ CHR '':'' # quote (en_Kind e),
         quote ''items'' @ CHR '':'' # CHR ''['' # join (CHR '','') raws @ '']''] @ ''}'')
     (those (map compact (en_Items e)))"

definition pack :: "item list \<Rightarrow> bytes option" where
  "pack items = enc_envelope \<lparr>en_V = AuditVersion, en_Kind = KindBatch, en_Items = map i_body items\<rparr>"

text \<open>\<open>send\<close>: the message handed to the connection, if the batch can be encoded.\<close>

definition send :: "batch \<Rightarrow> (string \<times> bytes) option" where
  "send b = map_option (Pair (fst b)) (pack (snd b))"

text \<open>\<open>flush\<close> with nobody adding meanwhile: the state after it and the batches sent.\<close>

function flush :: "Sink \<Rightarrow> Sink \<times> batch list" where
  "flush s = (case takeLocked s of
     (s', None) \<Rightarrow> (s', [])
   | (s', Some items) \<Rightarrow> (case flush s' of (s'', sent) \<Rightarrow> (s'', publish items @ sent)))"
  by auto
termination
  by (relation "measure (\<lambda>s. length (s_pending s))") (auto simp: takeLocked_def Let_def sink_limits split: if_splits)

declare flush.simps [simp del]

section \<open>The sink as a transition system\<close>

text \<open>
  Goroutines call \<open>Add\<close> at any time; one loop flushes when it is woken, on its ticker, and a last
  time after \<open>Close\<close>. The flag says that the flush is the last one. \<open>added\<close>, \<open>lost\<close> and \<open>sent\<close> are
  history variables.
\<close>

datatype loop_pc = Waiting | Flushing bool | Sending "batch list" bool | Stopped

record sink_sys =
  ss_sink :: Sink
  ss_loop :: loop_pc
  ss_stop :: bool
  ss_added :: "item list"
  ss_lost :: "item list"
  ss_sent :: "batch list"

definition oldest :: "Sink \<Rightarrow> item \<Rightarrow> item list" where
  "oldest s it = take (Suc (length (s_pending s)) - maxPending) (s_pending s @ [it])"

inductive sink_step :: "sink_sys \<Rightarrow> sink_sys \<Rightarrow> bool" where
  add: "sink_step s (s\<lparr>ss_sink := enqueue it (ss_sink s), ss_added := ss_added s @ [it],
          ss_lost := ss_lost s @ oldest (ss_sink s) it\<rparr>)"
| wake: "ss_loop s = Waiting \<Longrightarrow> s_wake (ss_sink s) \<Longrightarrow>
     sink_step s (s\<lparr>ss_loop := Flushing False, ss_sink := (ss_sink s)\<lparr>s_wake := False\<rparr>\<rparr>)"
| tick: "ss_loop s = Waiting \<Longrightarrow> sink_step s (s\<lparr>ss_loop := Flushing False\<rparr>)"
| stop: "ss_loop s = Waiting \<Longrightarrow> ss_stop s \<Longrightarrow> sink_step s (s\<lparr>ss_loop := Flushing True\<rparr>)"
| take: "ss_loop s = Flushing final \<Longrightarrow> takeLocked (ss_sink s) = (k, Some items) \<Longrightarrow>
     sink_step s (s\<lparr>ss_sink := k, ss_loop := Sending (publish items) final\<rparr>)"
| empty: "ss_loop s = Flushing final \<Longrightarrow> takeLocked (ss_sink s) = (k, None) \<Longrightarrow>
     sink_step s (s\<lparr>ss_sink := k, ss_loop := (if final then Stopped else Waiting)\<rparr>)"
| send: "ss_loop s = Sending (b # bs) final \<Longrightarrow>
     sink_step s (s\<lparr>ss_loop := Sending bs final, ss_sent := ss_sent s @ [b]\<rparr>)"
| sent: "ss_loop s = Sending [] final \<Longrightarrow> sink_step s (s\<lparr>ss_loop := Flushing final\<rparr>)"
| close: "\<not> ss_stop s \<Longrightarrow> sink_step s (s\<lparr>ss_stop := True\<rparr>)"

definition sink_init :: "sink_sys \<Rightarrow> bool" where
  "sink_init s \<longleftrightarrow> ss_sink s = NewSink \<and> ss_loop s = Waiting \<and> \<not> ss_stop s \<and>
     ss_added s = [] \<and> ss_lost s = [] \<and> ss_sent s = []"

section \<open>Batches\<close>

definition of_subject :: "string \<Rightarrow> item list \<Rightarrow> item list" where
  "of_subject subj items = filter (\<lambda>it. i_subject it = subj) items"

lemma of_subject_simps [simp]:
  "of_subject subj [] = []"
  "of_subject subj (it # its) = (if i_subject it = subj then it # of_subject subj its else of_subject subj its)"
  "of_subject subj (xs @ ys) = of_subject subj xs @ of_subject subj ys"
  by (simp_all add: of_subject_def)

lemma of_subject_Nil_iff: "of_subject subj items = [] \<longleftrightarrow> subj \<notin> i_subject ` set items"
  by (auto simp: of_subject_def filter_empty_conv)

text \<open>A batch holds events of its own subject, at least one.\<close>

definition batch_ok :: "batch \<Rightarrow> bool" where
  "batch_ok b \<longleftrightarrow> snd b \<noteq> [] \<and> (\<forall>it\<in>set (snd b). i_subject it = fst b)"

definition batch_items :: "batch list \<Rightarrow> item list" where
  "batch_items bs = concat (map snd bs)"

lemma batch_items_simps [simp]:
  "batch_items [] = []" "batch_items (b # bs) = snd b @ batch_items bs"
  "batch_items (bs @ cs) = batch_items bs @ batch_items cs"
  by (simp_all add: batch_items_def)

definition first_seen :: "item list \<Rightarrow> string list" where
  "first_seen items = rev (remdups (rev (map i_subject items)))"

lemma groupBySubject_spec:
  "groupBySubject items =
     (first_seen items, \<lambda>subj. if of_subject subj items = [] then None else Some (of_subject subj items))"
proof (induction items rule: rev_induct)
  case Nil
  then show ?case by (simp add: groupBySubject_def first_seen_def fun_eq_iff)
next
  case (snoc it items)
  have "groupBySubject (items @ [it]) = add_to_group (groupBySubject items) it"
    by (simp add: groupBySubject_def)
  moreover have "set (first_seen items) = i_subject ` set items" by (simp add: first_seen_def)
  ultimately show ?case
    by (auto simp: snoc add_to_group_def of_subject_Nil_iff first_seen_def fun_eq_iff split: option.split)
qed

lemma publish_spec: "publish items = map (\<lambda>subj. (subj, of_subject subj items)) (first_seen items)"
proof (cases "length items = 1")
  case True
  then obtain it where "items = [it]" by (auto simp: length_Suc_conv)
  then show ?thesis by (simp add: publish_def first_seen_def)
next
  case False
  then show ?thesis
    by (auto simp: publish_def groupBySubject_spec)
qed

lemma first_seen_set: "set (first_seen items) = i_subject ` set items" and first_seen_distinct: "distinct (first_seen items)"
  by (simp_all add: first_seen_def)

lemma publish_ok: "b \<in> set (publish items) \<Longrightarrow> batch_ok b \<and> length (snd b) \<le> length items"
  by (auto simp: publish_spec batch_ok_def first_seen_set of_subject_Nil_iff) (auto simp: of_subject_def)

text \<open>Publishing keeps the events of every subject, in their order.\<close>

lemma of_subject_batches:
  "distinct subjs \<Longrightarrow> of_subject subj (batch_items (map (\<lambda>s. (s, of_subject s items)) subjs)) =
     (if subj \<in> set subjs then of_subject subj items else [])"
  by (induction subjs) (auto simp: of_subject_def filter_empty_conv)

lemma publish_of_subject: "of_subject subj (batch_items (publish items)) = of_subject subj items"
  unfolding publish_spec
  using of_subject_Nil_iff [of subj items]
  by (subst of_subject_batches) (auto simp: first_seen_distinct first_seen_set)

lemma mset_by_subject:
  assumes "\<And>subj. of_subject subj xs = of_subject subj ys"
  shows "mset xs = mset ys"
proof (rule multiset_eqI)
  fix it
  have "count (mset zs) it = count (mset (of_subject (i_subject it) zs)) it" for zs
    by (induction zs) auto
  then show "count (mset xs) it = count (mset ys) it" using assms by metis
qed

lemma publish_mset: "mset (batch_items (publish items)) = mset items"
  by (rule mset_by_subject) (rule publish_of_subject)

section \<open>The critical sections\<close>

definition sink_ok :: "Sink \<Rightarrow> bool" where
  "sink_ok s \<longleftrightarrow> length (s_pending s) \<le> maxPending \<and> s_size s = sizeOf (s_pending s)"

lemma sizeOf_snoc: "sizeOf (items @ [it]) = sizeOf items + (length (i_body it) + 2)"
  by (simp add: sizeOf_def)

lemma enqueue_pending: "s_pending (enqueue it s) = drop (Suc (length (s_pending s)) - maxPending) (s_pending s @ [it])"
  by (auto simp: enqueue_def addLocked_def kick_def Let_def)

lemma enqueue_split: "oldest s it @ s_pending (enqueue it s) = s_pending s @ [it]"
  unfolding enqueue_pending oldest_def by (rule append_take_drop_id)

lemma oldest_length: "length (oldest s it) = Suc (length (s_pending s)) - maxPending"
  by (auto simp: oldest_def sink_limits)

lemma enqueue_dropped_eq: "s_dropped (enqueue it s) =
    (if maxPending < Suc (length (s_pending s)) then (s_dropped s + length (oldest s it)) mod 2 ^ 64 else s_dropped s)"
  unfolding oldest_length by (simp add: enqueue_def addLocked_def kick_def Let_def)

lemma enqueue_ok: "sink_ok s \<Longrightarrow> sink_ok (enqueue it s)"
  by (auto simp: sink_ok_def enqueue_def addLocked_def kick_def Let_def sizeOf_snoc)

lemma enqueue_dropped:
  "s_dropped s = n mod 2 ^ 64 \<Longrightarrow> s_dropped (enqueue it s) = (n + length (oldest s it)) mod 2 ^ 64"
  by (simp add: enqueue_dropped_eq mod_add_left_eq) (simp add: oldest_length)

lemma takeLocked_Some:
  assumes "takeLocked s = (s', Some items)"
  shows "items @ s_pending s' = s_pending s" and "items \<noteq> []" and "length items \<le> maxItems"
    and "s' = s\<lparr>s_pending := s_pending s', s_size := sizeOf (s_pending s')\<rparr>"
    and "sink_ok s \<Longrightarrow> sink_ok s'"
  using assms by (auto simp: takeLocked_def Let_def sink_ok_def sink_limits split: if_splits)

lemma takeLocked_None: "takeLocked s = (s', None) \<Longrightarrow> s' = s \<and> s_pending s = []"
  by (auto simp: takeLocked_def Let_def split: if_splits)

lemma flush_spec:
  assumes "sink_ok s" and "flush s = (s', sent)"
  shows "s_pending s' = [] \<and> s_size s' = 0 \<and> s_dropped s' = s_dropped s \<and>
    (\<forall>b\<in>set sent. batch_ok b \<and> length (snd b) \<le> maxItems) \<and>
    (\<forall>subj. of_subject subj (batch_items sent) = of_subject subj (s_pending s))"
  using assms
proof (induction s arbitrary: s' sent rule: flush.induct)
  case (1 s)
  show ?case
  proof (cases "takeLocked s")
    case (Pair k r)
    show ?thesis
    proof (cases r)
      case None
      then show ?thesis using 1(2,3) takeLocked_None [of s k] Pair
        by (auto simp: flush.simps [of s] sink_ok_def sizeOf_def)
    next
      case (Some items)
      obtain k' rest where rest: "flush k = (k', rest)" by fastforce
      note taken = takeLocked_Some [OF Pair [unfolded Some]]
      have res: "s' = k'" "sent = publish items @ rest"
        using 1(3) by (simp_all add: flush.simps [of s] Pair Some rest)
      have "s_dropped k = s_dropped s" by (subst taken(4)) simp
      with 1(1) [OF Pair [symmetric] Some taken(5) [OF 1(2)] rest] show ?thesis
        unfolding res taken(1) [symmetric]
        using taken(3) publish_ok [of _ items] by (fastforce simp: publish_of_subject)
    qed
  qed
qed

section \<open>Invariants of the sink\<close>

fun loop_batches :: "loop_pc \<Rightarrow> batch list" where
  "loop_batches (Sending bs final) = bs"
| "loop_batches _ = []"

text \<open>The events of one subject, from the oldest published to the newest pending.\<close>

definition trail :: "sink_sys \<Rightarrow> string \<Rightarrow> item list" where
  "trail s subj = of_subject subj (batch_items (ss_sent s)) @ of_subject subj (batch_items (loop_batches (ss_loop s)))
     @ of_subject subj (s_pending (ss_sink s))"

definition sink_inv :: "sink_sys \<Rightarrow> bool" where
  "sink_inv s \<longleftrightarrow> sink_ok (ss_sink s) \<and>
     s_dropped (ss_sink s) = length (ss_lost s) mod 2 ^ 64 \<and>
     (\<forall>b\<in>set (ss_sent s) \<union> set (loop_batches (ss_loop s)). batch_ok b \<and> length (snd b) \<le> maxItems) \<and>
     mset (ss_added s) = mset (ss_lost s) + mset (batch_items (ss_sent s))
       + mset (batch_items (loop_batches (ss_loop s))) + mset (s_pending (ss_sink s)) \<and>
     (\<forall>subj. subseq (trail s subj) (of_subject subj (ss_added s)))"

lemma sink_inv_init: "sink_init s \<Longrightarrow> sink_inv s"
  by (simp add: sink_init_def sink_inv_def NewSink_def sink_ok_def sizeOf_def trail_def)

lemma sink_inv_add:
  assumes "sink_inv s"
  shows "sink_inv (s\<lparr>ss_sink := enqueue it (ss_sink s), ss_added := ss_added s @ [it],
          ss_lost := ss_lost s @ oldest (ss_sink s) it\<rparr>)" (is "sink_inv ?t")
proof -
  let ?k = "ss_sink s"
  have ms: "mset (s_pending ?k) + {#it#} = mset (oldest ?k it) + mset (s_pending (enqueue it ?k))"
    using arg_cong [OF enqueue_split [of ?k it], of mset] by simp
  have "subseq (trail ?t subj) (of_subject subj (ss_added ?t))" for subj
  proof -
    have "subseq (of_subject subj (s_pending (enqueue it ?k))) (of_subject subj (s_pending ?k @ [it]))"
      unfolding enqueue_split [of ?k it, symmetric] of_subject_simps(3) by (rule list_emb_append2) simp
    then have "subseq (trail ?t subj) (trail s subj @ of_subject subj [it])"
      unfolding trail_def by (simp add: list_emb_append_mono)
    also have "subseq (trail s subj @ of_subject subj [it]) (of_subject subj (ss_added s) @ of_subject subj [it])"
      using assms by (intro list_emb_append_mono) (auto simp: sink_inv_def)
    finally show ?thesis by simp
  qed
  with assms ms show ?thesis
    by (simp add: sink_inv_def enqueue_ok enqueue_dropped ac_simps)
qed

lemma sink_inv_take:
  assumes "sink_inv s" and "ss_loop s = Flushing final" and "takeLocked (ss_sink s) = (k, Some items)"
  shows "sink_inv (s\<lparr>ss_sink := k, ss_loop := Sending (publish items) final\<rparr>)"
proof -
  note taken = takeLocked_Some [OF assms(3)]
  have "s_dropped k = s_dropped (ss_sink s)" by (subst taken(4)) simp
  moreover have "mset (s_pending (ss_sink s)) = mset items + mset (s_pending k)"
    unfolding taken(1) [symmetric] by simp
  moreover have "trail (s\<lparr>ss_sink := k, ss_loop := Sending (publish items) final\<rparr>) subj = trail s subj" for subj
    using assms(2) by (simp add: trail_def publish_of_subject flip: taken(1))
  ultimately show ?thesis
    using assms(1,2) taken(3,5) by (auto simp: sink_inv_def publish_mset ac_simps dest!: publish_ok)
qed

lemma sink_inv_step:
  assumes "sink_inv s" and "sink_step s t"
  shows "sink_inv t"
  using assms(2)
proof cases
  case (empty final k)
  with assms(1) show ?thesis by (auto simp: sink_inv_def trail_def dest!: takeLocked_None)
qed (use assms(1) in \<open>auto simp: sink_inv_add sink_inv_take\<close>,
     auto simp: sink_inv_def sink_ok_def trail_def ac_simps)

interpretation sink: transition_system sink_init sink_step sink_inv
  by unfold_locales (auto intro: sink_inv_init sink_inv_step)

section \<open>Envelopes\<close>

text \<open>An item whose body is the text of a value that fits into an envelope.\<close>

definition encoded :: "item \<Rightarrow> bool" where
  "encoded it \<longleftrightarrow> (\<exists>v. json_ok (maxNestingDepth - 2) v \<and> i_body it = print_json v)"

text \<open>What a reader sees in an item, and in the message of a batch.\<close>

definition seen :: "item \<Rightarrow> json" where
  "seen it = (case parse_json (i_body it) of None \<Rightarrow> JNull | Some v \<Rightarrow> v)"

definition batch_message :: "item list \<Rightarrow> json" where
  "batch_message items = JObj [(''v'', JNum ''1''), (''kind'', JStr ''batch''), (''items'', JArr (map seen items))]"

lemma encoded_text:
  assumes "encoded it"
  shows "i_body it = print_json (seen it)" and "json_ok (maxNestingDepth - 2) (seen it)"
proof -
  obtain v where v: "json_ok (maxNestingDepth - 2) v" "i_body it = print_json v" using assms by (auto simp: encoded_def)
  then have "json_ok maxNestingDepth v" by (auto intro: json_ok_mono)
  with v show "i_body it = print_json (seen it)" "json_ok (maxNestingDepth - 2) (seen it)"
    by (simp_all add: seen_def parse_print)
qed

lemma those_map_Some: "(\<And>x. x \<in> set xs \<Longrightarrow> f x = Some (g x)) \<Longrightarrow> those (map f xs) = Some (map g xs)"
  by (induction xs) simp_all

lemma pack_text:
  assumes "\<forall>it\<in>set items. encoded it"
  shows "pack items = Some (print_json (batch_message items))"
proof -
  have "compact (i_body it) = Some (print_json (seen it))" if "it \<in> set items" for it
    using assms that encoded_text [of it] json_ok_mono [of "maxNestingDepth - 2" "seen it" maxNestingDepth]
    by (simp add: compact_print)
  then have "those (map (\<lambda>it. compact (i_body it)) items) = Some (map (\<lambda>it. print_json (seen it)) items)" by (rule those_map_Some)
  moreover have "FormatInt 1 = ''1''" by code_simp
  ultimately show ?thesis
    by (simp add: pack_def enc_envelope_def batch_message_def AuditVersion_def KindBatch_def comp_def)
qed

lemma batch_message_fits:
  assumes "\<forall>it\<in>set items. encoded it"
  shows "json_ok maxNestingDepth (batch_message items)"
proof -
  have one: "scan_number ''1'' = Some (''1'', [])" by code_simp
  have depth: "0 < maxNestingDepth" "Suc 0 < maxNestingDepth" "maxNestingDepth - Suc (Suc 0) = maxNestingDepth - 2"
    by (simp_all add: maxNestingDepth_def)
  have "\<forall>it\<in>set items. json_ok (maxNestingDepth - 2) (seen it)" using assms encoded_text(2) by blast
  with one depth show ?thesis
    by (simp add: batch_message_def valid_utf8_ascii is_ascii_def)
qed

lemma sent_were_added:
  assumes "sink_inv s" and "b \<in> set (ss_sent s)" and "it \<in> set (snd b)"
  shows "it \<in> set (ss_added s)"
proof -
  have "it \<in> set (batch_items (ss_sent s))" using assms(2,3) by (auto simp: batch_items_def)
  moreover have "mset (batch_items (ss_sent s)) \<subseteq># mset (ss_added s)" using assms(1) by (simp add: sink_inv_def)
  ultimately show ?thesis by (meson set_mset_mset mset_subset_eqD in_multiset_in_set)
qed

section \<open>Properties\<close>

definition example_sink_start :: sink_sys where
  "example_sink_start = \<lparr>ss_sink = NewSink, ss_loop = Waiting, ss_stop = False, ss_added = [], ss_lost = [], ss_sent = []\<rparr>"

definition example_event :: item where
  "example_event = \<lparr>i_subject = ''waf.audit.a'', i_body = ''{}''\<rparr>"

definition example_sink_run :: sink_sys where
  "example_sink_run = example_sink_start\<lparr>ss_sink := enqueue example_event NewSink, ss_added := [example_event]\<rparr>"

lemma example_sink_reachable: "sink_init example_sink_start" "sink_step\<^sup>*\<^sup>* example_sink_start example_sink_run"
proof -
  show "sink_init example_sink_start" by (simp add: sink_init_def example_sink_start_def)
  have "oldest NewSink example_event = []" by (simp add: oldest_def NewSink_def sink_limits)
  then have "sink_step example_sink_start example_sink_run"
    using sink_step.add [of example_sink_start example_event]
    by (simp add: example_sink_run_def example_sink_start_def)
  then show "sink_step\<^sup>*\<^sup>* example_sink_start example_sink_run" by (rule r_into_rtranclp)
qed



text \<open>
  C30. Events of one subject are published in the order in which they were added, in batches of at
  most 256 events that all have the subject of the message; no batch is empty.
\<close>

theorem sink_keeps_subject_order:
  assumes "sink_init s0" and "sink_step\<^sup>*\<^sup>* s0 s"
  shows "subseq (of_subject subj (batch_items (ss_sent s))) (of_subject subj (ss_added s))
    \<and> (\<forall>b\<in>set (ss_sent s). snd b \<noteq> [] \<and> length (snd b) \<le> maxItems \<and> (\<forall>it\<in>set (snd b). i_subject it = fst b))"
proof -
  have inv: "sink_inv s" using assms by (rule sink.inv_reachable)
  then have "subseq (trail s subj) (of_subject subj (ss_added s))" by (simp add: sink_inv_def)
  then have "subseq (of_subject subj (batch_items (ss_sent s))) (of_subject subj (ss_added s))"
    unfolding trail_def by (rule subseq_order.order_trans [rotated]) (simp add: list_emb_prefix)
  with inv show ?thesis by (auto simp: sink_inv_def batch_ok_def)
qed

theorem sink_keeps_subject_order_witness:
  "subseq (of_subject ''waf.audit.a'' (batch_items (ss_sent example_sink_run)))
     (of_subject ''waf.audit.a'' (ss_added example_sink_run))"
  using sink_keeps_subject_order [OF example_sink_reachable, of "''waf.audit.a''"] by blast



text \<open>
  C31. Every batch becomes a message that can be read: when the events handed to the sink were encoded as JSON, the
  message of a batch is JSON, and its reader finds the version, the kind, and exactly the events of the batch in
  their order. Embedding the encoded events changes nothing in them.
\<close>

theorem batches_are_readable:
  assumes "sink_init s0" and "sink_step\<^sup>*\<^sup>* s0 s" and "\<forall>it\<in>set (ss_added s). encoded it" and "b \<in> set (ss_sent s)"
  shows "\<exists>data. send b = Some (fst b, data) \<and>
    parse_json data = Some (JObj [(''v'', JNum ''1''), (''kind'', JStr ''batch''), (''items'', JArr (map seen (snd b)))])"
proof -
  have "\<forall>it\<in>set (snd b). encoded it" using assms(3,4) sent_were_added [OF sink.inv_reachable [OF assms(1,2)]] by blast
  then show ?thesis
    by (simp add: send_def pack_text parse_print [OF batch_message_fits] flip: batch_message_def)
qed

lemma example_encoded: "encoded example_event" "seen example_event = JObj []"
proof -
  have empty: "i_body example_event = print_json (JObj [])" by (simp add: example_event_def)
  show "encoded example_event" unfolding encoded_def empty by (intro exI [of _ "JObj []"]) (simp add: maxNestingDepth_def)
  have "parse_json (print_json (JObj [])) = Some (JObj [])" by (rule parse_print) (simp add: maxNestingDepth_def)
  then show "seen example_event = JObj []" unfolding seen_def empty by (simp only: option.case)
qed

definition example_sink_sent :: sink_sys where
  "example_sink_sent = example_sink_start\<lparr>ss_loop := Sending [] False, ss_added := [example_event], ss_sent := [(''waf.audit.a'', [example_event])]\<rparr>"

lemma example_sink_sends: "sink_step\<^sup>*\<^sup>* example_sink_start example_sink_sent"
proof -
  let ?flushing = "example_sink_run\<lparr>ss_loop := Flushing False\<rparr>"
  let ?sending = "example_sink_start\<lparr>ss_loop := Sending [(''waf.audit.a'', [example_event])] False, ss_added := [example_event]\<rparr>"
  have sink: "enqueue example_event NewSink = NewSink\<lparr>s_pending := [example_event], s_size := 4\<rparr>"
    by (simp add: enqueue_def addLocked_def NewSink_def example_event_def sink_limits Let_def)
  have "takeLocked (NewSink\<lparr>s_pending := [example_event], s_size := 4\<rparr>) = (NewSink, Some [example_event])"
    by (simp add: takeLocked_def NewSink_def sink_limits sizeOf_def)
  moreover have "publish [example_event] = [(''waf.audit.a'', [example_event])]" by (simp add: publish_def example_event_def)
  ultimately have "sink_step ?flushing ?sending"
    using sink_step.take [of ?flushing False NewSink "[example_event]"] by (simp add: example_sink_run_def example_sink_start_def sink)
  moreover have "sink_step example_sink_run ?flushing"
    by (rule sink_step.tick) (simp add: example_sink_run_def example_sink_start_def)
  moreover have "sink_step ?sending example_sink_sent"
    using sink_step.send [of ?sending "(''waf.audit.a'', [example_event])" "[]" False]
    by (simp add: example_sink_sent_def example_sink_start_def)
  ultimately show ?thesis using example_sink_reachable(2) by (meson rtranclp.rtrancl_into_rtrancl)
qed

theorem batches_are_readable_witness:
  "\<exists>data. send (''waf.audit.a'', [example_event]) = Some (''waf.audit.a'', data) \<and>
     parse_json data = Some (JObj [(''v'', JNum ''1''), (''kind'', JStr ''batch''), (''items'', JArr [JObj []])])"
  using batches_are_readable [OF example_sink_reachable(1) example_sink_sends, of "(''waf.audit.a'', [example_event])"] example_encoded
  by (simp add: example_sink_sent_def)

end
