(* ===== verification/GoCrypto.thy ===== *)
theory GoCrypto
  imports GoStrings "HOL-Library.Word"
begin

unbundle bit_operations_syntax

text \<open>
  What the program uses of Go's crypto/sha256, encoding/hex and encoding/base64: the SHA-256 digest
  of a byte string (FIPS 180-4), its hexadecimal form, and the decoding of standard base64. Bytes
  are characters; the digest works on 32-bit words.
\<close>

section \<open>SHA-256\<close>

text \<open>
  The round constants and the initial value: the first 32 bits of the fractional parts of the cube roots
  of the first 64 primes and of the square roots of the first eight.
\<close>

type_synonym w32 = "32 word"

definition sha_k :: "w32 list" where
  "sha_k =
    [1116352408, 1899447441, 3049323471, 3921009573, 961987163, 1508970993, 2453635748, 2870763221,
     3624381080, 310598401, 607225278, 1426881987, 1925078388, 2162078206, 2614888103, 3248222580,
     3835390401, 4022224774, 264347078, 604807628, 770255983, 1249150122, 1555081692, 1996064986,
     2554220882, 2821834349, 2952996808, 3210313671, 3336571891, 3584528711, 113926993, 338241895,
     666307205, 773529912, 1294757372, 1396182291, 1695183700, 1986661051, 2177026350, 2456956037,
     2730485921, 2820302411, 3259730800, 3345764771, 3516065817, 3600352804, 4094571909, 275423344,
     430227734, 506948616, 659060556, 883997877, 958139571, 1322822218, 1537002063, 1747873779,
     1955562222, 2024104815, 2227730452, 2361852424, 2428436474, 2756734187, 3204031479, 3329325298]"

definition sha_h0 :: "w32 list" where
  "sha_h0 = [1779033703, 3144134277, 1013904242, 2773480762, 1359893119, 2600822924, 528734635, 1541459225]"

definition be_bytes :: "nat \<Rightarrow> nat \<Rightarrow> bytes" where
  "be_bytes n x = map (\<lambda>i. char_of (x div 256 ^ (n - 1 - i) mod 256)) [0..<n]"

definition sha_pad :: "bytes \<Rightarrow> bytes" where
  "sha_pad msg =
     msg @ [char_of (0x80 :: nat)] @ replicate ((119 - length msg mod 64) mod 64) (char_of (0 :: nat))
     @ be_bytes 8 (8 * length msg mod 2 ^ 64)"

definition word_be :: "bytes \<Rightarrow> w32" where
  "word_be bs = foldl (\<lambda>w b. push_bit 8 w OR word_of_nat (of_char b)) 0 bs"

fun chunks :: "nat \<Rightarrow> nat \<Rightarrow> 'a list \<Rightarrow> 'a list list" where
  "chunks 0 n xs = []"
| "chunks (Suc k) n xs = take n xs # chunks k n (drop n xs)"

definition rotr :: "nat \<Rightarrow> w32 \<Rightarrow> w32" where
  "rotr n x = drop_bit n x OR push_bit (32 - n) x"

definition small_sigma0 :: "w32 \<Rightarrow> w32" where
  "small_sigma0 x = (rotr 7 x XOR rotr 18 x) XOR drop_bit 3 x"

definition small_sigma1 :: "w32 \<Rightarrow> w32" where
  "small_sigma1 x = (rotr 17 x XOR rotr 19 x) XOR drop_bit 10 x"

definition big_sigma0 :: "w32 \<Rightarrow> w32" where
  "big_sigma0 x = (rotr 2 x XOR rotr 13 x) XOR rotr 22 x"

definition big_sigma1 :: "w32 \<Rightarrow> w32" where
  "big_sigma1 x = (rotr 6 x XOR rotr 11 x) XOR rotr 25 x"

text \<open>The message schedule, the newest word first.\<close>

fun sha_schedule :: "nat \<Rightarrow> w32 list \<Rightarrow> w32 list" where
  "sha_schedule 0 ws = ws"
| "sha_schedule (Suc k) ws =
     sha_schedule k ((small_sigma1 (ws ! 1) + ws ! 6 + small_sigma0 (ws ! 14) + ws ! 15) # ws)"

fun sha_round :: "w32 \<times> w32 \<Rightarrow> w32 list \<Rightarrow> w32 list" where
  "sha_round (k, w) [a, b, c, d, e, f, g, h] =
     (let t1 = h + big_sigma1 e + ((e AND f) XOR (NOT e AND g)) + k + w;
          t2 = big_sigma0 a + (((a AND b) XOR (a AND c)) XOR (b AND c))
      in [t1 + t2, a, b, c, d + t1, e, f, g])"
| "sha_round _ st = st"

definition sha_block :: "bytes \<Rightarrow> w32 list \<Rightarrow> w32 list" where
  "sha_block blk hs =
     (let ws = rev (sha_schedule 48 (rev (map word_be (chunks 16 4 blk))))
      in map2 (+) hs (fold sha_round (zip sha_k ws) hs))"

definition Sum256 :: "bytes \<Rightarrow> bytes" where
  "Sum256 msg =
     (let p = sha_pad msg;
          hs = fold sha_block (chunks (length p div 64) 64 p) sha_h0
      in concat (map (\<lambda>w. be_bytes 4 (unat w)) hs))"

section \<open>Hexadecimal\<close>

definition hex_EncodeToString :: "bytes \<Rightarrow> string" where
  "hex_EncodeToString bs = concat (map (\<lambda>b. [hex_digit (of_char b div 16), hex_digit (of_char b mod 16)]) bs)"

definition hex_value :: "char \<Rightarrow> nat" where
  "hex_value c = (let n = of_char c in if 97 \<le> n then n - 87 else n - 48)"

fun hex_decode :: "string \<Rightarrow> bytes" where
  "hex_decode (a # b # cs) = char_of (16 * hex_value a + hex_value b) # hex_decode cs"
| "hex_decode _ = []"

definition hex_sha256 :: "bytes \<Rightarrow> string" where
  "hex_sha256 bs = hex_EncodeToString (Sum256 bs)"

section \<open>Base64\<close>

text \<open>
  \<open>base64.StdEncoding.DecodeString\<close>: line breaks are skipped, the padding is required, and the
  unused bits of the last character are not checked.
\<close>

definition b64_value :: "char \<Rightarrow> nat option" where
  "b64_value c =
     (let n = of_char c :: nat in
      if 65 \<le> n \<and> n \<le> 90 then Some (n - 65)
      else if 97 \<le> n \<and> n \<le> 122 then Some (n - 71)
      else if 48 \<le> n \<and> n \<le> 57 then Some (n + 4)
      else if n = 43 then Some 62
      else if n = 47 then Some 63
      else None)"

fun b64_groups :: "string \<Rightarrow> bytes option" where
  "b64_groups [] = Some []"
| "b64_groups (a # b # c # d # rest) =
     (case (b64_value a, b64_value b) of
        (Some x, Some y) \<Rightarrow>
          (let b1 = char_of (4 * x + y div 16) in
           if c = CHR ''='' then (if d = CHR ''='' \<and> rest = [] then Some [b1] else None)
           else (case b64_value c of
               None \<Rightarrow> None
             | Some z \<Rightarrow>
                 (let b2 = char_of (y mod 16 * 16 + z div 4) in
                  if d = CHR ''='' then (if rest = [] then Some [b1, b2] else None)
                  else (case (b64_value d, b64_groups rest) of
                      (Some w, Some out) \<Rightarrow> Some (b1 # b2 # char_of (z mod 4 * 64 + w) # out)
                    | _ \<Rightarrow> None))))
      | _ \<Rightarrow> None)"
| "b64_groups _ = None"

definition b64_DecodeString :: "string \<Rightarrow> bytes option" where
  "b64_DecodeString s = b64_groups (filter (\<lambda>c. c \<noteq> CHR 0x0A \<and> c \<noteq> CHR 0x0D) s)"

section \<open>Shape of a digest\<close>

lemma sha_round_length: "length st = 8 \<Longrightarrow> length (sha_round kw st) = 8"
  by (cases "(kw, st)" rule: sha_round.cases) (auto simp: Let_def)

lemma fold_sha_round_length: "length st = 8 \<Longrightarrow> length (fold sha_round kws st) = 8"
  by (induction kws arbitrary: st) (auto simp: sha_round_length)

lemma fold_sha_block_length: "length hs = 8 \<Longrightarrow> length (fold sha_block blks hs) = 8"
  by (induction blks arbitrary: hs) (auto simp: sha_block_def Let_def fold_sha_round_length)

lemma Sum256_length: "length (Sum256 msg) = 32"
proof -
  let ?hs = "fold sha_block (chunks (length (sha_pad msg) div 64) 64 (sha_pad msg)) sha_h0"
  have "length ?hs = 8" by (rule fold_sha_block_length) (simp add: sha_h0_def)
  then show ?thesis by (simp add: Sum256_def Let_def length_concat be_bytes_def o_def sum_list_triv)
qed

text \<open>The padded message is a whole number of blocks.\<close>

lemma sha_pad_blocks: "length (sha_pad msg) mod 64 = 0"
proof -
  define r where "r = length msg mod 64"
  have r: "r < 64" by (simp add: r_def)
  have "(length msg + (9 + (119 - r) mod 64)) mod 64 = (r + (9 + (119 - r) mod 64)) mod 64"
    by (simp add: r_def mod_add_left_eq)
  also have "\<dots> = (r + 9 + (119 - r)) mod 64" by (simp add: mod_add_right_eq add.assoc [symmetric])
  also have "\<dots> = 0" using r by simp
  finally show ?thesis by (simp add: sha_pad_def be_bytes_def r_def algebra_simps)
qed

lemma hex_EncodeToString_length: "length (hex_EncodeToString bs) = 2 * length bs"
  by (induction bs) (simp_all add: hex_EncodeToString_def)

lemma hex_value_digit:
  assumes "n < 16"
  shows "hex_value (hex_digit n) = n"
proof -
  have "n \<in> {0, 1, 2, 3, 4, 5, 6, 7, 8, 9, 10, 11, 12, 13, 14, 15}" using assms by (simp, arith)
  then show ?thesis
    by (elim insertE) (simp_all add: hex_value_def hex_digit_def Let_def)
qed

lemma hex_decode_encode: "hex_decode (hex_EncodeToString bs) = bs"
proof (induction bs)
  case Nil
  then show ?case by (simp add: hex_EncodeToString_def)
next
  case (Cons b bs)
  have "of_char b < (256 :: nat)" by (rule nat_of_char_less_256)
  then have "(of_char b :: nat) div 16 < 16" by (simp add: less_mult_imp_div_less)
  then have "16 * hex_value (hex_digit (of_char b div 16)) + hex_value (hex_digit (of_char b mod 16)) = (of_char b :: nat)"
    by (simp add: hex_value_digit)
  with Cons show ?case by (simp add: hex_EncodeToString_def)
qed

lemma hex_inj: "hex_EncodeToString a = hex_EncodeToString b \<longleftrightarrow> a = b"
  using hex_decode_encode by metis

lemma hex_sha256_length: "length (hex_sha256 bs) = 64"
  by (simp add: hex_sha256_def hex_EncodeToString_length Sum256_length)

lemma hex_sha256_nonempty [simp]: "hex_sha256 bs \<noteq> []" "[] \<noteq> hex_sha256 bs"
  using hex_sha256_length [of bs] by auto

end
