(* ===== verification/Body.thy ===== *)
theory Body
  imports Protocol GoCrypto
begin

text \<open>
  Loading message bodies from the store (src/internal/body). The loader dispatches on the locator,
  fetches, decrypts and checks the digest. The Redis client is third-party code: the calls the
  wrapper makes of it are arguments. \<open>aead\<close> is the opening of AES-GCM for a key, a nonce and a
  ciphertext; the code that prepares its arguments is modelled.
\<close>

section \<open>The Redis store\<close>

datatype store_err = ErrUnknownDriver | ClientErr string | CountMismatch nat nat

text \<open>What the client returns for one key of \<open>MGET\<close>: a string, bytes, or anything else.\<close>

datatype redis_value = RString bytes | RBytes slice | ROther

record redis_client =
  rc_Get :: "string \<Rightarrow> store_err + slice"
  rc_MGet :: "string list \<Rightarrow> store_err + redis_value list"
  rc_Set :: "string \<Rightarrow> bytes \<Rightarrow> int \<Rightarrow> store_err option"
  rc_Ping :: "store_err option"

text \<open>
  \<open>NewRedisStore\<close>: the address is parsed, the three timeouts are set, and a client is made of the
  options. Parsing and connecting are the library's.
\<close>

record redis_options =
  ro_Addr :: string
  ro_ReadTimeout :: int
  ro_WriteTimeout :: int
  ro_DialTimeout :: int

record redis_library =
  rl_ParseURL :: "string \<Rightarrow> store_err + redis_options"
  rl_NewClient :: "redis_options \<Rightarrow> redis_client"

definition NewRedisStore :: "redis_library \<Rightarrow> string \<Rightarrow> int \<Rightarrow> store_err + redis_client" where
  "NewRedisStore lib url timeout =
     rbind (rl_ParseURL lib url) (\<lambda>opt.
       Inr (rl_NewClient lib (opt\<lparr>ro_ReadTimeout := timeout, ro_WriteTimeout := timeout, ro_DialTimeout := timeout\<rparr>)))"

definition RedisStore_Ping :: "redis_client \<Rightarrow> store_err option" where
  "RedisStore_Ping c = rc_Ping c"

definition RedisStore_Get :: "redis_client \<Rightarrow> string \<Rightarrow> string \<Rightarrow> string \<Rightarrow> store_err + slice" where
  "RedisStore_Get c driver store key =
     (if driver \<noteq> ''redis'' then Inl ErrUnknownDriver else rc_Get c key)"

definition redis_bytes :: "redis_value \<Rightarrow> slice" where
  "redis_bytes v = (case v of RString raw \<Rightarrow> Some raw | RBytes raw \<Rightarrow> raw | ROther \<Rightarrow> None)"

definition RedisStore_GetMany :: "redis_client \<Rightarrow> string \<Rightarrow> string \<Rightarrow> string list \<Rightarrow> store_err + slice list" where
  "RedisStore_GetMany c driver store keys =
     (if driver \<noteq> ''redis'' then Inl ErrUnknownDriver
      else if keys = [] then Inr []
      else rbind (rc_MGet c keys) (\<lambda>vals.
        if length vals \<noteq> length keys then Inl (CountMismatch (length vals) (length keys))
        else Inr (map redis_bytes vals)))"

definition RedisStore_Put :: "redis_client \<Rightarrow> string \<Rightarrow> bytes \<Rightarrow> int \<Rightarrow> store_err option" where
  "RedisStore_Put c key value ttl = rc_Set c key value ttl"

section \<open>The loader\<close>

record Body =
  bo_Data :: slice
  bo_Truncated :: bool
  bo_Unavailable :: string
  bo_Fault :: bool
  bo_SHA256 :: string

definition zero_body :: Body where
  "zero_body = \<lparr>bo_Data = None, bo_Truncated = False, bo_Unavailable = [], bo_Fault = False, bo_SHA256 = []\<rparr>"

definition Available :: "Body \<Rightarrow> bool" where "Available b \<longleftrightarrow> bo_Unavailable b = []"

definition Failed :: "Body \<Rightarrow> bool" where "Failed b \<longleftrightarrow> bo_Fault b"

definition unavailableNoStore :: string where "unavailableNoStore = ''store_unconfigured''"
definition unavailableStoreError :: string where "unavailableStoreError = ''store_error''"
definition unavailableUnknownDrv :: string where "unavailableUnknownDrv = ''unknown_driver''"
definition unavailableDecryptFail :: string where "unavailableDecryptFail = ''decrypt_failed''"
definition unavailableDigestFail :: string where "unavailableDigestFail = ''digest_mismatch''"

lemmas unavailable_defs = unavailableNoStore_def unavailableStoreError_def unavailableUnknownDrv_def
  unavailableDecryptFail_def unavailableDigestFail_def

record Loader =
  ld_store :: "(string \<Rightarrow> string \<Rightarrow> string \<Rightarrow> store_err + slice) option"
  ld_keys :: "(string \<Rightarrow> bytes option) option"
  ld_aead :: "bytes \<Rightarrow> bytes \<Rightarrow> bytes \<Rightarrow> slice option"

definition fault :: "string \<Rightarrow> Body" where
  "fault why = zero_body\<lparr>bo_Unavailable := why, bo_Fault := True\<rparr>"

text \<open>
  \<open>decrypt\<close>: \<open>None\<close> is an error. \<open>NewCipher\<close> accepts keys of 16, 24 or 32 bytes; \<open>Open\<close> panics on a
  nonce that has not the standard length of 12 bytes.
\<close>

definition decrypt :: "Loader \<Rightarrow> Locator \<Rightarrow> slice \<Rightarrow> panic + slice option" where
  "decrypt l loc raw =
     rbind (deref (l_Enc loc)) (\<lambda>enc.
       case ld_keys l of
         None \<Rightarrow> Inr None
       | Some keys \<Rightarrow>
           if e_Alg enc \<noteq> ''aes-256-gcm'' then Inr None
           else (case keys (e_KID enc) of
               None \<Rightarrow> Inr None
             | Some key \<Rightarrow>
                 if length key \<notin> {16, 24, 32} then Inr None
                 else (case b64_DecodeString (e_Nonce enc) of
                     None \<Rightarrow> Inr None
                   | Some nonce \<Rightarrow>
                       if length nonce \<noteq> 12 then Inl NonceLength
                       else Inr (ld_aead l key nonce (bytes_of raw)))))"

definition check_digest :: "Locator \<Rightarrow> slice \<Rightarrow> Body" where
  "check_digest loc raw =
     (let digest = hex_sha256 (bytes_of raw);
          want = (if l_ProcessedSHA256 loc \<noteq> [] then l_ProcessedSHA256 loc
                  else if l_Truncated loc then [] else l_SHA256 loc)
      in if want \<noteq> [] \<and> want \<noteq> digest then fault unavailableDigestFail
         else zero_body\<lparr>bo_Data := raw, bo_Truncated := l_Truncated loc, bo_SHA256 := digest\<rparr>)"

definition finish :: "Loader \<Rightarrow> Locator \<Rightarrow> slice \<Rightarrow> panic + Body" where
  "finish l loc raw =
     (if l_Enc loc \<noteq> None
      then rbind (decrypt l loc raw) (\<lambda>r. case r of
          None \<Rightarrow> Inr (fault unavailableDecryptFail)
        | Some plain \<Rightarrow> Inr (check_digest loc plain))
      else Inr (check_digest loc raw))"

definition Load :: "Loader \<Rightarrow> Locator option \<Rightarrow> panic + Body" where
  "Load l loc =
     (case loc of
        None \<Rightarrow> Inr zero_body
      | Some loc \<Rightarrow>
          if l_Unavailable loc \<noteq> [] then Inr (zero_body\<lparr>bo_Unavailable := l_Unavailable loc\<rparr>)
          else if l_Driver loc \<noteq> [] then
            (case ld_store l of
               None \<Rightarrow> Inr (fault unavailableNoStore)
             | Some get \<Rightarrow>
                 (case get (l_Driver loc) (l_Store loc) (l_Key loc) of
                    Inl ErrUnknownDriver \<Rightarrow> Inr (fault unavailableUnknownDrv)
                  | Inl _ \<Rightarrow> Inr (fault unavailableStoreError)
                  | Inr raw \<Rightarrow> finish l loc raw))
          else Inr zero_body)"

section \<open>What a loaded body is\<close>

text \<open>The digest a locator commits to, if any.\<close>

definition committed :: "Locator \<Rightarrow> string" where
  "committed loc = (if l_ProcessedSHA256 loc \<noteq> [] then l_ProcessedSHA256 loc
                    else if l_Truncated loc then [] else l_SHA256 loc)"

text \<open>The bytes behind a locator: what the store has, opened when the locator says it is encrypted.\<close>

definition stored :: "Loader \<Rightarrow> Locator \<Rightarrow> slice \<Rightarrow> bool" where
  "stored l loc data \<longleftrightarrow> (\<exists>get raw. ld_store l = Some get \<and> get (l_Driver loc) (l_Store loc) (l_Key loc) = Inr raw \<and>
     (if l_Enc loc = None then data = raw else decrypt l loc raw = Inr (Some data)))"

lemma fault_simps [simp]: "bo_Fault (fault why)" "bo_Unavailable (fault why) = why" "bo_Data (fault why) = None"
  by (simp_all add: fault_def zero_body_def)

lemma zero_body_simps [simp]:
  "\<not> bo_Fault zero_body" "bo_Unavailable zero_body = []" "bo_Data zero_body = None" "\<not> bo_Truncated zero_body"
  by (simp_all add: zero_body_def)

lemma check_digest_cases:
  obtains (bad) "committed loc \<noteq> []" "committed loc \<noteq> hex_sha256 (bytes_of raw)"
      "check_digest loc raw = fault unavailableDigestFail"
  | (good) "committed loc \<noteq> [] \<Longrightarrow> committed loc = hex_sha256 (bytes_of raw)"
      "check_digest loc raw = zero_body\<lparr>bo_Data := raw, bo_Truncated := l_Truncated loc, bo_SHA256 := hex_sha256 (bytes_of raw)\<rparr>"
  by (cases "committed loc \<noteq> [] \<and> committed loc \<noteq> hex_sha256 (bytes_of raw)")
    (auto simp: check_digest_def committed_def Let_def)

lemma faults_nonempty [simp]:
  "unavailableNoStore \<noteq> []" "unavailableStoreError \<noteq> []" "unavailableUnknownDrv \<noteq> []"
  "unavailableDecryptFail \<noteq> []" "unavailableDigestFail \<noteq> []"
  by (simp_all add: unavailable_defs)

lemma check_digest_fault: "bo_Fault (check_digest loc raw) \<Longrightarrow> bo_Unavailable (check_digest loc raw) \<noteq> []"
  by (cases loc raw rule: check_digest_cases) simp_all

lemma finish_fault: "finish l loc raw = Inr b \<Longrightarrow> bo_Fault b \<Longrightarrow> bo_Unavailable b \<noteq> []"
  by (auto simp: finish_def rbind_Inr_iff split: if_splits option.splits dest: check_digest_fault)

lemma Load_Failed_unavailable: "Load l loc = Inr b \<Longrightarrow> Failed b \<Longrightarrow> \<not> Available b"
  by (auto simp: Load_def Failed_def Available_def
      split: option.splits if_splits sum.splits store_err.splits dest: finish_fault)

lemma finish_good:
  assumes "finish l loc raw = Inr b" and "bo_Unavailable b = []"
  shows "\<exists>data. (if l_Enc loc = None then data = raw else decrypt l loc raw = Inr (Some data)) \<and>
    b = zero_body\<lparr>bo_Data := data, bo_Truncated := l_Truncated loc, bo_SHA256 := hex_sha256 (bytes_of data)\<rparr> \<and>
    (committed loc \<noteq> [] \<longrightarrow> committed loc = hex_sha256 (bytes_of data))"
proof -
  obtain data where data: "if l_Enc loc = None then data = raw else decrypt l loc raw = Inr (Some data)"
    and b: "b = check_digest loc data"
    using assms by (auto simp: finish_def rbind_Inr_iff split: if_splits option.splits)
  show ?thesis
    by (rule exI [of _ data], cases loc data rule: check_digest_cases) (use data b assms(2) in auto)
qed

lemma Load_no_keys: "ld_keys l = None \<Longrightarrow> \<exists>b. Load l loc = Inr b"
  by (auto simp: Load_def finish_def decrypt_def deref_def split: option.split sum.split store_err.split)

lemma Load_data_placed:
  assumes "Load l loc = Inr b" and "bo_Data b \<noteq> None"
  shows "\<exists>x. loc = Some x \<and> l_Unavailable x = [] \<and> l_Driver x \<noteq> []"
  using assms by (auto simp: Load_def split: option.splits if_splits)

section \<open>Properties\<close>

text \<open>
  C17. A body that \<open>Load\<close> reports as available is what the store holds under the locator's address,
  opened if the locator says it is encrypted, and its SHA-256 is the digest the locator commits to: the
  processed one if given, else the plain one unless the body is truncated.
\<close>

theorem Load_integrity:
  assumes "Load l (Some loc) = Inr b" and "Available b" and "l_Unavailable loc = []" and "l_Driver loc \<noteq> []"
  shows "stored l loc (bo_Data b) \<and> bo_SHA256 b = hex_sha256 (bytes_of (bo_Data b)) \<and> bo_Truncated b = l_Truncated loc \<and>
    (l_ProcessedSHA256 loc \<noteq> [] \<longrightarrow> hex_sha256 (bytes_of (bo_Data b)) = l_ProcessedSHA256 loc) \<and>
    (l_ProcessedSHA256 loc = [] \<and> \<not> l_Truncated loc \<and> l_SHA256 loc \<noteq> [] \<longrightarrow>
       hex_sha256 (bytes_of (bo_Data b)) = l_SHA256 loc)"
proof -
  obtain get raw where get: "ld_store l = Some get" "get (l_Driver loc) (l_Store loc) (l_Key loc) = Inr raw"
    and fin: "finish l loc raw = Inr b"
    using assms by (auto simp: Load_def Available_def split: option.splits sum.splits store_err.splits)
  obtain data where data: "if l_Enc loc = None then data = raw else decrypt l loc raw = Inr (Some data)"
    and b: "b = zero_body\<lparr>bo_Data := data, bo_Truncated := l_Truncated loc, bo_SHA256 := hex_sha256 (bytes_of data)\<rparr>"
    and com: "committed loc \<noteq> [] \<longrightarrow> committed loc = hex_sha256 (bytes_of data)"
    using finish_good [OF fin] assms(2) by (auto simp: Available_def)
  have "stored l loc (bo_Data b)" using get data by (auto simp: stored_def b)
  with b com show ?thesis by (auto simp: committed_def)
qed

definition example_loader :: Loader where
  "example_loader = \<lparr>ld_store = Some (\<lambda>driver store key. Inr (Some ''hi'')), ld_keys = None, ld_aead = (\<lambda>_ _ _. None)\<rparr>"

definition committed_locator :: Locator where
  "committed_locator = \<lparr>l_Store = ''main'', l_Driver = ''redis'', l_Key = ''k'', l_Unavailable = [], l_Size = 2,
     l_DeclaredSize = 2, l_SHA256 = hex_sha256 ''hi'', l_ProcessedSHA256 = [], l_Transformed = False, l_Complete = True,
     l_Truncated = False, l_Encoding = [], l_ExpiresAt = 0, l_Hint = [], l_Enc = None\<rparr>"

lemma example_finish:
  "finish example_loader committed_locator (Some ''hi'') =
   Inr (zero_body\<lparr>bo_Data := Some ''hi'', bo_Truncated := False, bo_SHA256 := hex_sha256 ''hi''\<rparr>)"
proof -
  have "committed committed_locator = hex_sha256 (bytes_of (Some ''hi''))"
    by (simp only: committed_def committed_locator_def Locator.simps bytes_of_def option.case if_False simp_thms)
  moreover have "l_Truncated committed_locator = False" "l_Enc committed_locator = None"
    by (simp_all only: committed_locator_def Locator.simps)
  ultimately show ?thesis
    by (cases committed_locator "Some ''hi''" rule: check_digest_cases)
      (simp_all only: finish_def bytes_of_def option.case if_False simp_thms)
qed

theorem Load_integrity_witness:
  "stored example_loader committed_locator (Some ''hi'') \<and> l_SHA256 committed_locator = hex_sha256 ''hi''"
proof -
  have l: "l_Unavailable committed_locator = []" "l_Driver committed_locator = ''redis''"
    "l_SHA256 committed_locator = hex_sha256 ''hi''"
    by (simp_all only: committed_locator_def Locator.simps)
  have "Load example_loader (Some committed_locator) =
      Inr (zero_body\<lparr>bo_Data := Some ''hi'', bo_Truncated := False, bo_SHA256 := hex_sha256 ''hi''\<rparr>)"
    using example_finish by (simp add: Load_def l, simp add: example_loader_def)
  from Load_integrity [OF this] show ?thesis by (simp add: Available_def l)
qed

lemma check_digest_fault_no_data: "bo_Fault (check_digest loc raw) \<Longrightarrow> bo_Data (check_digest loc raw) = None"
  by (cases loc raw rule: check_digest_cases) simp_all

lemma finish_fault_no_data: "finish l loc raw = Inr b \<Longrightarrow> bo_Fault b \<Longrightarrow> bo_Data b = None"
  by (auto simp: finish_def rbind_Inr_iff split: if_splits option.splits dest: check_digest_fault_no_data)

text \<open>
  A store fault never looks like a body: when \<open>Load\<close> reports a failure the body is unavailable and
  has no data; and when the locator itself says that there is no body, that is no failure.
\<close>

theorem Load_fault_has_no_data:
  assumes "Load l loc = Inr b"
  shows "(Failed b \<longrightarrow> \<not> Available b \<and> bo_Data b = None) \<and>
    (case loc of None \<Rightarrow> \<not> Failed b \<and> Available b
     | Some x \<Rightarrow> l_Unavailable x \<noteq> [] \<longrightarrow> \<not> Failed b \<and> bo_Unavailable b = l_Unavailable x \<and> bo_Data b = None)"
proof -
  have "bo_Data b = None" if "Failed b"
    using assms that by (auto simp: Load_def Failed_def
        split: option.splits if_splits sum.splits store_err.splits dest: finish_fault_no_data)
  with Load_Failed_unavailable [OF assms] show ?thesis
    using assms by (auto simp: Load_def Failed_def Available_def split: option.splits)
qed

theorem Load_fault_has_no_data_witness:
  "Failed (fault unavailableNoStore) \<and> \<not> Available (fault unavailableNoStore)"
proof -
  have "Load (example_loader\<lparr>ld_store := None\<rparr>) (Some committed_locator) = Inr (fault unavailableNoStore)"
    by (simp add: Load_def example_loader_def committed_locator_def)
  from Load_fault_has_no_data [OF this] show ?thesis by (simp add: Failed_def)
qed

text \<open>
  A digest in hexadecimal is 64 characters long and determines the 32 bytes of the digest: the
  comparison of the strings is the comparison of the digests.
\<close>

theorem digest_hex_faithful:
  "length (Sum256 a) = 32 \<and> length (hex_sha256 a) = 64 \<and> hex_decode (hex_sha256 a) = Sum256 a \<and>
   (hex_sha256 a = hex_sha256 b \<longleftrightarrow> Sum256 a = Sum256 b)"
  unfolding hex_sha256_def
  by (simp add: Sum256_length hex_EncodeToString_length hex_decode_encode hex_inj)

text \<open>
  \<open>GetMany\<close> returns one entry per key, in order, or an error; a foreign driver is always refused,
  and a value of an unexpected type reads as absent.
\<close>

theorem GetMany_one_per_key:
  "case RedisStore_GetMany c driver store keys of
     Inl e \<Rightarrow> driver \<noteq> ''redis'' \<and> e = ErrUnknownDriver \<or> driver = ''redis'' \<and> keys \<noteq> []
   | Inr out \<Rightarrow> driver = ''redis'' \<and> length out = length keys \<and>
       (keys = [] \<or> (\<exists>vals. rc_MGet c keys = Inr vals \<and> out = map redis_bytes vals))"
  by (auto simp: RedisStore_GetMany_def rbind_Inr_iff rbind_Inl_iff split: sum.split if_splits)

end
