(* ===== verification/Config.thy ===== *)
theory Config
  imports GoStrings
begin

text \<open>
  The process configuration (src/internal/config: config.go, file.go, logship.go): environment
  variables, the queue file \<open>inspector.conf\<close> and its small parser, their precedence, and the final
  validation. The process environment, the file system, the number of processors and the parsers of
  packages net/url, time and loglevel are members of the record \<open>host\<close>. Durations are in
  nanoseconds.
\<close>

section \<open>The surroundings\<close>

record host =
  os_LookupEnv :: "string \<Rightarrow> string option"
  os_isFile :: "string \<Rightarrow> bool"                          \<comment> \<open>Stat succeeds and it is no directory\<close>
  os_ReadFile :: "string \<Rightarrow> bytes option"
  os_Hostname :: "string option"
  os_GOMAXPROCS :: int
  os_Abs :: "string \<Rightarrow> string option"                     \<comment> \<open>filepath.Abs\<close>
  os_urlParse :: "string \<Rightarrow> (string \<times> string) option"    \<comment> \<open>scheme and host\<close>
  os_ParseDuration :: "string \<Rightarrow> int option"
  os_ParseLevel :: "string \<Rightarrow> int option"
  os_unicode :: unicode

section \<open>The queue file\<close>

definition QueueFullDrop :: string where "QueueFullDrop = ''drop''"
definition QueueFullWait :: string where "QueueFullWait = ''wait''"
definition QueueExpandOff :: string where "QueueExpandOff = ''off''"
definition QueueExpandAsk :: string where "QueueExpandAsk = ''ask''"

lemmas queue_words = QueueFullDrop_def QueueFullWait_def QueueExpandOff_def QueueExpandAsk_def

record queueFile =
  qf_Max :: "int option"
  qf_Full :: string
  qf_Expand :: string
  qf_RedisURL :: string
  qf_RedisInternal :: string

definition zero_queueFile :: queueFile where
  "zero_queueFile = \<lparr>qf_Max = None, qf_Full = [], qf_Expand = [], qf_RedisURL = [], qf_RedisInternal = []\<rparr>"

datatype line_err =
    UnexpectedBrace | UnknownBlock string | BlockTwice string | MissingSemicolon | EmptyDirective
  | NoValue string | BadName string | NotOneValue string | SetTwice string | BadQueueMax string
  | BadQueueFull string | BadQueueExpand string | UnknownDirective string
  | RedisTwice string | RedisUnknownKey string | RedisBadURL string string | BlockNotClosed string

datatype conf_err =
    AtLine string nat line_err | ReadFailed string | InternalRedis string
  | BadEnvInt string | BadEnvDuration string | NotPositive string | NegativeDuration string | BadLevel
  | NoServers | EmptyNames | WorkersNotPositive int | QueueMaxNotPositive int
  | QueueFullInvalid string | QueueExpandInvalid string | NegativeBudgets | NoVersions
  | ProfilesDirErr | DataDirErr

definition confText :: "string \<Rightarrow> string" where
  "confText line = (case Cut line (CHR ''#'') of (before, _, found) \<Rightarrow> TrimSpace (if found then before else line))"

definition requireSemicolon :: "string \<Rightarrow> line_err + string" where
  "requireSemicolon s =
     (if \<not> suffix '';'' s then Inl MissingSemicolon else Inr (TrimSpace (butlast s)))"

definition isConfName :: "unicode \<Rightarrow> string \<Rightarrow> bool" where
  "isConfName U s = (s \<noteq> [] \<and> list_all (\<lambda>r. r = byte_val CHR ''_'' \<or> IsLetter U r \<or> IsDigit U r) (runes s))"

definition splitDirective :: "unicode \<Rightarrow> string \<Rightarrow> line_err + (string \<times> string)" where
  "splitDirective U stmt =
     (let stmt = TrimSpace stmt in
      if stmt = [] then Inl EmptyDirective
      else (case Cut stmt (CHR '' '') of (key, rest, ok) \<Rightarrow>
        if \<not> ok then Inl (NoValue stmt)
        else if \<not> isConfName U key then Inl (BadName key)
        else (let value = TrimSpace rest in
          if value = [] \<or> ContainsAny value [CHR '' '', CHR 0x09] then Inl (NotOneValue key)
          else Inr (key, value))))"

definition isRedisURL :: "host \<Rightarrow> string \<Rightarrow> bool" where
  "isRedisURL H s = (case os_urlParse H s of None \<Rightarrow> False
     | Some (scheme, h) \<Rightarrow> if h = [] then False else scheme = ''redis'' \<or> scheme = ''rediss'')"

text \<open>The two loops pass the file being built and the set of names seen.\<close>

definition parseRedisKey :: "host \<Rightarrow> queueFile \<Rightarrow> string set \<Rightarrow> string \<Rightarrow> line_err + (queueFile \<times> string set)" where
  "parseRedisKey H out seen s =
     rbind (requireSemicolon s) (\<lambda>stmt.
     rbind (splitDirective (os_unicode H) stmt) (\<lambda>(key, value).
       let i = ''redis.'' @ key in
       if i \<in> seen then Inl (RedisTwice key)
       else if key \<noteq> ''url'' \<and> key \<noteq> ''internal'' then Inl (RedisUnknownKey key)
       else if \<not> isRedisURL H value then Inl (RedisBadURL key value)
       else if key = ''url'' then Inr (out\<lparr>qf_RedisURL := value\<rparr>, insert i seen)
       else Inr (out\<lparr>qf_RedisInternal := value\<rparr>, insert i seen)))"

definition parseDirective :: "host \<Rightarrow> queueFile \<Rightarrow> string set \<Rightarrow> string \<Rightarrow> line_err + (queueFile \<times> string set)" where
  "parseDirective H out seen s =
     rbind (requireSemicolon s) (\<lambda>stmt.
     rbind (splitDirective (os_unicode H) stmt) (\<lambda>(key, value).
       if key \<in> seen then Inl (SetTwice key)
       else if key = ''queue_max'' then
         (case Atoi value of
            None \<Rightarrow> Inl (BadQueueMax value)
          | Some v \<Rightarrow> if v < 1 then Inl (BadQueueMax value) else Inr (out\<lparr>qf_Max := Some v\<rparr>, insert key seen))
       else if key = ''queue_full'' then
         (if value \<in> {QueueFullDrop, QueueFullWait} then Inr (out\<lparr>qf_Full := value\<rparr>, insert key seen)
          else Inl (BadQueueFull value))
       else if key = ''queue_expand'' then
         (if value \<in> {QueueExpandOff, QueueExpandAsk} then Inr (out\<lparr>qf_Expand := value\<rparr>, insert key seen)
          else Inl (BadQueueExpand value))
       else Inl (UnknownDirective key)))"

text \<open>The line-by-line loop; the last two arguments are the open block and its line.\<close>

fun parseLines ::
  "host \<Rightarrow> string \<Rightarrow> nat \<Rightarrow> string list \<Rightarrow> queueFile \<Rightarrow> string set \<Rightarrow> string \<Rightarrow> nat \<Rightarrow> conf_err + queueFile" where
  "parseLines H name n [] out seen block opened =
     (if block \<noteq> [] then Inl (AtLine name opened (BlockNotClosed block)) else Inr out)"
| "parseLines H name n (line # lines) out seen block opened =
     (let s = confText line in
      if s = [] then parseLines H name (Suc n) lines out seen block opened
      else if block \<noteq> [] then
        (if s = ''}'' then parseLines H name (Suc n) lines out seen [] opened
         else (case parseRedisKey H out seen s of
             Inl e \<Rightarrow> Inl (AtLine name n e)
           | Inr (out, seen) \<Rightarrow> parseLines H name (Suc n) lines out seen block opened))
      else if s = ''}'' then Inl (AtLine name n UnexpectedBrace)
      else if suffix ''{'' s then
        (let head = TrimSpace (butlast s) in
         if head \<noteq> ''redis'' then Inl (AtLine name n (UnknownBlock head))
         else if head \<in> seen then Inl (AtLine name n (BlockTwice head))
         else parseLines H name (Suc n) lines out (insert head seen) head n)
      else (case parseDirective H out seen s of
          Inl e \<Rightarrow> Inl (AtLine name n e)
        | Inr (out, seen) \<Rightarrow> parseLines H name (Suc n) lines out seen block opened))"

definition parseQueueFile :: "host \<Rightarrow> string \<Rightarrow> string \<Rightarrow> conf_err + queueFile" where
  "parseQueueFile H name src = parseLines H name 1 (Split src (CHR 0x0A)) zero_queueFile {} [] 0"

definition loadQueueFile :: "host \<Rightarrow> string \<Rightarrow> conf_err + queueFile" where
  "loadQueueFile H path = (case os_ReadFile H path of
     None \<Rightarrow> Inl (ReadFailed path) | Some raw \<Rightarrow> parseQueueFile H path raw)"

definition confPath :: "host \<Rightarrow> string \<Rightarrow> string" where
  "confPath H envName =
     (case os_LookupEnv H envName of
        Some v \<Rightarrow> if TrimSpace v \<noteq> [] then TrimSpace v
          else (case find (os_isFile H) [''inspector.conf'', ''/app/inspector.conf''] of Some c \<Rightarrow> c | None \<Rightarrow> [])
      | None \<Rightarrow> (case find (os_isFile H) [''inspector.conf'', ''/app/inspector.conf''] of Some c \<Rightarrow> c | None \<Rightarrow> []))"

definition exchangeRedis :: "host \<Rightarrow> queueFile \<Rightarrow> string" where
  "exchangeRedis H file =
     (case os_LookupEnv H ''REDIS_URL'' of
        Some v \<Rightarrow> if TrimSpace v \<noteq> [] then TrimSpace v else qf_RedisURL file
      | None \<Rightarrow> qf_RedisURL file)"

definition noInternalRedis :: "string \<Rightarrow> queueFile \<Rightarrow> conf_err option" where
  "noInternalRedis path file = (if qf_RedisInternal file \<noteq> [] then Some (InternalRedis path) else None)"

record queueSettings =
  qs_Max :: int
  qs_Full :: string
  qs_Expand :: string

definition applyQueueFile :: "queueSettings \<Rightarrow> queueFile \<Rightarrow> queueSettings" where
  "applyQueueFile c file =
     (let c = (case qf_Max file of None \<Rightarrow> c | Some m \<Rightarrow> c\<lparr>qs_Max := m\<rparr>);
          c = (if qf_Full file \<noteq> [] then c\<lparr>qs_Full := qf_Full file\<rparr> else c)
      in if qf_Expand file \<noteq> [] then c\<lparr>qs_Expand := qf_Expand file\<rparr> else c)"

section \<open>Environment variables\<close>

definition splitList :: "string \<Rightarrow> string list" where
  "splitList s = filter (\<lambda>p. p \<noteq> []) (map TrimSpace (Split s (CHR '','')))"

definition env :: "host \<Rightarrow> string \<Rightarrow> string \<Rightarrow> string" where
  "env H name dflt = (case os_LookupEnv H name of Some v \<Rightarrow> if v \<noteq> [] then v else dflt | None \<Rightarrow> dflt)"

definition envOverride :: "host \<Rightarrow> string \<Rightarrow> string \<Rightarrow> string" where
  "envOverride H name current =
     (case os_LookupEnv H name of Some v \<Rightarrow> if TrimSpace v \<noteq> [] then TrimSpace v else current | None \<Rightarrow> current)"

text \<open>A variable that is set and not empty.\<close>

definition lookup_set :: "host \<Rightarrow> string \<Rightarrow> string option" where
  "lookup_set H name = (case os_LookupEnv H name of Some v \<Rightarrow> if v = [] then None else Some v | None \<Rightarrow> None)"

definition envIntIfSet :: "host \<Rightarrow> string \<Rightarrow> int \<Rightarrow> conf_err + int" where
  "envIntIfSet H name dflt =
     (case lookup_set H name of
        None \<Rightarrow> Inr dflt
      | Some raw \<Rightarrow> (case Atoi (TrimSpace raw) of None \<Rightarrow> Inl (BadEnvInt name) | Some v \<Rightarrow> Inr v))"

definition envInt :: "host \<Rightarrow> string \<Rightarrow> int \<Rightarrow> conf_err + int" where
  "envInt H name dflt = envIntIfSet H name dflt"

definition envIntList :: "host \<Rightarrow> string \<Rightarrow> int list \<Rightarrow> conf_err + int list" where
  "envIntList H name dflt =
     (case lookup_set H name of
        None \<Rightarrow> Inr dflt
      | Some raw \<Rightarrow> for_each (\<lambda>part. case Atoi part of None \<Rightarrow> Inl (BadEnvInt name) | Some v \<Rightarrow> Inr v) (splitList raw))"

definition envDuration :: "host \<Rightarrow> string \<Rightarrow> int \<Rightarrow> conf_err + int" where
  "envDuration H name dflt =
     (case lookup_set H name of
        None \<Rightarrow> Inr dflt
      | Some raw \<Rightarrow> (case os_ParseDuration H (TrimSpace raw) of
            None \<Rightarrow> Inl (BadEnvDuration name)
          | Some d \<Rightarrow> if d \<le> 0 then Inl (NotPositive name) else Inr d))"

definition envDurationOrZero :: "host \<Rightarrow> string \<Rightarrow> int \<Rightarrow> conf_err + int" where
  "envDurationOrZero H name dflt =
     (case lookup_set H name of
        None \<Rightarrow> Inr dflt
      | Some raw \<Rightarrow> (case os_ParseDuration H (TrimSpace raw) of
            None \<Rightarrow> Inl (BadEnvDuration name)
          | Some d \<Rightarrow> if d < 0 then Inl (NegativeDuration name) else Inr d))"

definition parseLevel :: "host \<Rightarrow> string \<Rightarrow> conf_err + int" where
  "parseLevel H s = (case os_ParseLevel H s of None \<Rightarrow> Inl BadLevel | Some l \<Rightarrow> Inr l)"

section \<open>The configuration\<close>

record Config =
  cf_Servers :: "string list"
  cf_Subject :: string
  cf_Name :: string
  cf_Queue :: string
  cf_ProfilesDir :: string
  cf_DataDir :: string
  cf_ReloadEvery :: int
  cf_Workers :: int
  cf_QueueDepth :: int
  cf_QueueFull :: string
  cf_QueueExpand :: string
  cf_ConfPath :: string
  cf_ReserveMS :: int
  cf_MinBudgetMS :: int
  cf_RedisURL :: string
  cf_Versions :: "int list"
  cf_LogLevel :: int
  cf_HeartbeatEvery :: int

definition RedisTimeout :: int where "RedisTimeout = 100 * 1000000"

definition OutTTL :: int where "OutTTL = 60 * 10 ^ 9"
definition OutSuffix :: string where "OutSuffix = '':out''"

definition Supports :: "Config \<Rightarrow> int \<Rightarrow> bool" where
  "Supports c v = list_ex (\<lambda>known. known = v) (cf_Versions c)"

definition Config_validate :: "host \<Rightarrow> Config \<Rightarrow> conf_err + Config" where
  "Config_validate H c =
     (if cf_Servers c = [] then Inl NoServers
      else if cf_Subject c = [] \<or> cf_Name c = [] \<or> cf_Queue c = [] then Inl EmptyNames
      else if cf_Workers c < 1 then Inl (WorkersNotPositive (cf_Workers c))
      else if cf_QueueDepth c < 1 then Inl (QueueMaxNotPositive (cf_QueueDepth c))
      else if cf_QueueFull c \<notin> {QueueFullDrop, QueueFullWait} then Inl (QueueFullInvalid (cf_QueueFull c))
      else if cf_QueueExpand c \<notin> {QueueExpandOff, QueueExpandAsk} then Inl (QueueExpandInvalid (cf_QueueExpand c))
      else if cf_ReserveMS c < 0 \<or> cf_MinBudgetMS c < 0 then Inl NegativeBudgets
      else if cf_Versions c = [] then Inl NoVersions
      else (case os_Abs H (cf_ProfilesDir c) of
          None \<Rightarrow> Inl ProfilesDirErr
        | Some root \<Rightarrow>
            (let c = c\<lparr>cf_ProfilesDir := root\<rparr>;
                 c = (if cf_DataDir c = [] then c\<lparr>cf_DataDir := root @ ''.applied''\<rparr> else c)
             in (case os_Abs H (cf_DataDir c) of
                 None \<Rightarrow> Inl DataDirErr
               | Some data \<Rightarrow> Inr (c\<lparr>cf_DataDir := data\<rparr>)))))"

definition Load_file :: "host \<Rightarrow> string \<Rightarrow> queueSettings \<Rightarrow> conf_err + (queueFile \<times> queueSettings)" where
  "Load_file H path q =
     (if path \<noteq> [] then
        rbind (loadQueueFile H path) (\<lambda>file.
          case noInternalRedis path file of
            Some e \<Rightarrow> Inl e
          | None \<Rightarrow> Inr (file, applyQueueFile q file))
      else Inr (zero_queueFile, q))"

definition Config_Load :: "host \<Rightarrow> conf_err + Config" where
  "Config_Load H =
     (let name = env H ''WAF_REWRITE_NAME'' ''rewrite'';
          path = confPath H ''WAF_REWRITE_CONF'' in
      rbind (envInt H ''WAF_REWRITE_WORKERS'' (os_GOMAXPROCS H)) (\<lambda>workers.
      rbind (Load_file H path \<lparr>qs_Max = 256, qs_Full = QueueFullDrop, qs_Expand = QueueExpandOff\<rparr>) (\<lambda>(file, q).
      rbind (envIntIfSet H ''WAF_REWRITE_QUEUE_DEPTH'' (qs_Max q)) (\<lambda>depth.
      rbind (envInt H ''WAF_REWRITE_RESERVE_MS'' 2) (\<lambda>reserve.
      rbind (envInt H ''WAF_REWRITE_MIN_BUDGET_MS'' 2) (\<lambda>minBudget.
      rbind (envIntList H ''WAF_REWRITE_VERSIONS'' [2]) (\<lambda>versions.
      rbind (parseLevel H (env H ''WAF_REWRITE_LOG'' ''info'')) (\<lambda>level.
      rbind (envDuration H ''WAF_HEARTBEAT_EVERY'' (4 * 10 ^ 9)) (\<lambda>heartbeat.
      rbind (envDurationOrZero H ''WAF_REWRITE_RELOAD_EVERY'' (10 ^ 9)) (\<lambda>reload.
        Config_validate H
          \<lparr>cf_Servers = splitList (env H ''NATS_URL'' ''nats://127.0.0.1:4222''),
           cf_Subject = env H ''WAF_REWRITE_SUBJECT'' ''waf.req.rewrite'',
           cf_Name = name,
           cf_Queue = env H ''WAF_REWRITE_QUEUE'' name,
           cf_ProfilesDir = env H ''WAF_REWRITE_PROFILES'' ''./profiles'',
           cf_DataDir = env H ''WAF_REWRITE_DATA'' [],
           cf_ReloadEvery = reload, cf_Workers = workers, cf_QueueDepth = depth,
           cf_QueueFull = envOverride H ''WAF_REWRITE_QUEUE_FULL'' (qs_Full q),
           cf_QueueExpand = envOverride H ''WAF_REWRITE_QUEUE_EXPAND'' (qs_Expand q),
           cf_ConfPath = path, cf_ReserveMS = reserve, cf_MinBudgetMS = minBudget,
           cf_RedisURL = exchangeRedis H file, cf_Versions = versions, cf_LogLevel = level,
           cf_HeartbeatEvery = heartbeat\<rparr>))))))))))"

section \<open>Log shipping\<close>

definition Getenv :: "host \<Rightarrow> string \<Rightarrow> string" where
  "Getenv H name = (case os_LookupEnv H name of None \<Rightarrow> [] | Some v \<Rightarrow> v)"

definition LogShip :: "host \<Rightarrow> bool" where
  "LogShip H = (ToLower (os_unicode H) (TrimSpace (Getenv H ''WAF_LOG_SHIP'')) \<notin> {''off'', ''0'', ''no'', ''false''})"

definition LogWriter :: "host \<Rightarrow> string \<Rightarrow> string" where
  "LogWriter H fallback =
     (if TrimSpace (Getenv H ''WAF_LOG_WRITER'') \<noteq> [] then TrimSpace (Getenv H ''WAF_LOG_WRITER'')
      else (case os_Hostname H of Some n \<Rightarrow> if n \<noteq> [] then n else fallback | None \<Rightarrow> fallback))"

section \<open>What is accepted\<close>

definition queueFile_ok :: "host \<Rightarrow> queueFile \<Rightarrow> bool" where
  "queueFile_ok H f \<longleftrightarrow>
     (\<forall>m. qf_Max f = Some m \<longrightarrow> 1 \<le> m \<and> int64 m) \<and>
     qf_Full f \<in> {[], QueueFullDrop, QueueFullWait} \<and> qf_Expand f \<in> {[], QueueExpandOff, QueueExpandAsk} \<and>
     (qf_RedisURL f \<noteq> [] \<longrightarrow> isRedisURL H (qf_RedisURL f)) \<and>
     (qf_RedisInternal f \<noteq> [] \<longrightarrow> isRedisURL H (qf_RedisInternal f))"

lemma parseRedisKey_ok:
  assumes "parseRedisKey H out seen s = Inr (out', seen')" and "queueFile_ok H out"
  shows "queueFile_ok H out'"
proof -
  from assms(1) obtain stmt key val where "requireSemicolon s = Inr stmt"
    and "splitDirective (os_unicode H) stmt = Inr (key, val)"
    unfolding parseRedisKey_def rbind_Inr_iff by fast
  note body = assms(1) [unfolded parseRedisKey_def this rbind.simps prod.case Let_def]
  then have "isRedisURL H val \<and> (out' = out\<lparr>qf_RedisURL := val\<rparr> \<or> out' = out\<lparr>qf_RedisInternal := val\<rparr>)"
    by (auto simp only: sum.inject prod.inject sum.distinct split: if_split_asm)
  with assms(2) show ?thesis by (elim disjE conjE) (simp_all add: queueFile_ok_def)
qed

lemma parseDirective_ok:
  assumes "parseDirective H out seen s = Inr (out', seen')" and "queueFile_ok H out"
  shows "queueFile_ok H out'"
proof -
  from assms(1) obtain stmt key val where "requireSemicolon s = Inr stmt"
    and "splitDirective (os_unicode H) stmt = Inr (key, val)"
    unfolding parseDirective_def rbind_Inr_iff by fast
  note eqs = this
  note body = assms(1) [unfolded parseDirective_def eqs rbind.simps prod.case]
  then have "(\<exists>v. Atoi val = Some v \<and> \<not> v < 1 \<and> out' = out\<lparr>qf_Max := Some v\<rparr>) \<or>
      val \<in> {QueueFullDrop, QueueFullWait} \<and> out' = out\<lparr>qf_Full := val\<rparr> \<or>
      val \<in> {QueueExpandOff, QueueExpandAsk} \<and> out' = out\<lparr>qf_Expand := val\<rparr>"
    by (auto simp only: sum.inject prod.inject sum.distinct split: if_split_asm option.split_asm)
  then show ?thesis
    using assms(2) by (elim disjE conjE exE) (simp_all add: queueFile_ok_def Atoi_range)
qed

lemma parseLines_ok:
  "parseLines H name n lines out seen block opened = Inr f \<Longrightarrow> queueFile_ok H out \<Longrightarrow> queueFile_ok H f"
proof (induction lines arbitrary: n out seen block opened)
  case (Cons line lines)
  show ?case
    using Cons.prems Cons.IH parseRedisKey_ok parseDirective_ok
    by (simp add: Let_def split: if_splits sum.splits prod.splits; blast)
qed (auto split: if_splits)

lemma parseQueueFile_sound: "parseQueueFile H name src = Inr f \<Longrightarrow> queueFile_ok H f"
  unfolding parseQueueFile_def
  by (erule parseLines_ok) (simp add: queueFile_ok_def zero_queueFile_def)

definition config_ok :: "Config \<Rightarrow> bool" where
  "config_ok c \<longleftrightarrow>
     cf_Servers c \<noteq> [] \<and> cf_Subject c \<noteq> [] \<and> cf_Name c \<noteq> [] \<and> cf_Queue c \<noteq> [] \<and>
     1 \<le> cf_Workers c \<and> 1 \<le> cf_QueueDepth c \<and>
     cf_QueueFull c \<in> {QueueFullDrop, QueueFullWait} \<and> cf_QueueExpand c \<in> {QueueExpandOff, QueueExpandAsk} \<and>
     0 \<le> cf_ReserveMS c \<and> 0 \<le> cf_MinBudgetMS c \<and> cf_Versions c \<noteq> []"

lemma Config_validate_ok: "Config_validate H c = Inr c' \<Longrightarrow> config_ok c'"
  by (auto simp: Config_validate_def config_ok_def Let_def split: if_splits option.splits)

lemma Config_validate_frame:
  "Config_validate H c = Inr c' \<Longrightarrow> \<exists>dir data. c' = c\<lparr>cf_ProfilesDir := dir, cf_DataDir := data\<rparr>"
  by (auto simp: Config_validate_def Let_def split: if_splits option.splits)

lemma envDuration_pos: "envDuration H name d = Inr v \<Longrightarrow> 0 < d \<Longrightarrow> 0 < v"
  by (auto simp: envDuration_def split: option.splits if_splits)

lemma envDurationOrZero_nonneg: "envDurationOrZero H name d = Inr v \<Longrightarrow> 0 \<le> d \<Longrightarrow> 0 \<le> v"
  by (auto simp: envDurationOrZero_def split: option.splits if_splits)

lemma Config_Load_sound:
  assumes "Config_Load H = Inr c"
  shows "config_ok c \<and> 0 < cf_HeartbeatEvery c \<and> 0 \<le> cf_ReloadEvery c"
proof -
  from assms obtain c0 heartbeat reload where
    hb: "envDuration H ''WAF_HEARTBEAT_EVERY'' (4 * 10 ^ 9) = Inr heartbeat" and
    rl: "envDurationOrZero H ''WAF_REWRITE_RELOAD_EVERY'' (10 ^ 9) = Inr reload" and
    v: "Config_validate H c0 = Inr c" and "cf_HeartbeatEvery c0 = heartbeat" "cf_ReloadEvery c0 = reload"
    unfolding Config_Load_def Let_def rbind_Inr_iff split_paired_Ex prod.case
    by (elim exE conjE) simp
  then show ?thesis
    using Config_validate_ok [OF v] Config_validate_frame [OF v] envDuration_pos [OF hb] envDurationOrZero_nonneg [OF rl]
    by auto
qed

text \<open>The parts of a list variable: none is empty, none has blanks around it or a comma in it.\<close>

lemma TrimSpace_fixed_suffix:
  "strip_front space_encodings (TrimSpace s) = TrimSpace s \<Longrightarrow> TrimSpace (TrimSpace s) = TrimSpace s"
  by (simp add: TrimSpace_def strip_front_idem)

lemma splitList_parts: "p \<in> set (splitList s) \<Longrightarrow> p \<noteq> [] \<and> CHR '','' \<notin> set p"
  using Split_parts [of s "CHR '',''"] set_TrimSpace by (fastforce simp: splitList_def)

text \<open>What the queue file says, if there is one.\<close>

definition conf_file :: "host \<Rightarrow> conf_err + queueFile" where
  "conf_file H = (if confPath H ''WAF_REWRITE_CONF'' \<noteq> [] then loadQueueFile H (confPath H ''WAF_REWRITE_CONF'')
     else Inr zero_queueFile)"

lemma Load_file_Inr:
  assumes "Load_file H (confPath H ''WAF_REWRITE_CONF'') q = Inr (qf, q')"
  shows "conf_file H = Inr qf \<and> qf_RedisInternal qf = [] \<and> q' = applyQueueFile q qf"
  using assms
  by (auto simp: Load_file_def conf_file_def rbind_Inr_iff noInternalRedis_def zero_queueFile_def applyQueueFile_def
      split: if_splits)

lemma Config_Load_depth:
  assumes "Config_Load H = Inr c"
  obtains qf where "conf_file H = Inr qf" and "qf_RedisInternal qf = []"
    and "envIntIfSet H ''WAF_REWRITE_QUEUE_DEPTH'' (case qf_Max qf of Some m \<Rightarrow> m | None \<Rightarrow> 256) = Inr (cf_QueueDepth c)"
    and "cf_RedisURL c = exchangeRedis H qf"
proof -
  let ?q = "\<lparr>qs_Max = 256, qs_Full = QueueFullDrop, qs_Expand = QueueExpandOff\<rparr>"
  from assms obtain c0 qf q depth where
    f: "Load_file H (confPath H ''WAF_REWRITE_CONF'') ?q = Inr (qf, q)" and
    d: "envIntIfSet H ''WAF_REWRITE_QUEUE_DEPTH'' (qs_Max q) = Inr depth" and
    v: "Config_validate H c0 = Inr c" and c0: "cf_QueueDepth c0 = depth" "cf_RedisURL c0 = exchangeRedis H qf"
    unfolding Config_Load_def Let_def rbind_Inr_iff split_paired_Ex prod.case
    by (elim exE conjE) simp
  have "qs_Max q = (case qf_Max qf of Some m \<Rightarrow> m | None \<Rightarrow> 256)"
    using Load_file_Inr [OF f] by (auto simp: applyQueueFile_def Let_def split: option.split)
  then show ?thesis
    using that [of qf] Load_file_Inr [OF f] d c0 Config_validate_frame [OF v] by auto
qed

section \<open>Properties\<close>

definition example_host :: host where
  "example_host =
     \<lparr>os_LookupEnv = (\<lambda>n. if n = ''WAF_REWRITE_QUEUE_FULL'' then Some ''wait'' else None),
      os_isFile = (\<lambda>p. p = ''inspector.conf''), os_ReadFile = (\<lambda>_. Some ''queue_max 8; # small''),
      os_Hostname = None, os_GOMAXPROCS = 4, os_Abs = Some, os_urlParse = (\<lambda>_. None),
      os_ParseDuration = (\<lambda>_. None), os_ParseLevel = (\<lambda>_. Some 0),
      os_unicode = \<lparr>uc_lower = id, uc_fold = (=), uc_letter = (\<lambda>_. False), uc_digit = (\<lambda>_. False)\<rparr>\<rparr>"

definition example_config :: Config where
  "example_config =
     \<lparr>cf_Servers = [''nats://127.0.0.1:4222''], cf_Subject = ''waf.req.rewrite'', cf_Name = ''rewrite'',
      cf_Queue = ''rewrite'', cf_ProfilesDir = ''./profiles'', cf_DataDir = ''./profiles.applied'',
      cf_ReloadEvery = 10 ^ 9, cf_Workers = 4, cf_QueueDepth = 8, cf_QueueFull = ''wait'',
      cf_QueueExpand = ''off'', cf_ConfPath = ''inspector.conf'', cf_ReserveMS = 2, cf_MinBudgetMS = 2,
      cf_RedisURL = [], cf_Versions = [2], cf_LogLevel = 0, cf_HeartbeatEvery = 4 * 10 ^ 9\<rparr>"

lemma example_Load: "Config_Load example_host = Inr example_config"
  by code_simp

text \<open>
  C36. A configuration that loads is usable: there are servers, names and versions, at least one
  worker and one place in the queue, a known policy for a full queue, budgets that are not negative,
  a positive heartbeat interval, and a reload interval that is not negative.
\<close>

theorem Config_Load_valid:
  assumes "Config_Load H = Inr c"
  shows "cf_Servers c \<noteq> [] \<and> cf_Subject c \<noteq> [] \<and> cf_Name c \<noteq> [] \<and> cf_Queue c \<noteq> [] \<and> cf_Versions c \<noteq> [] \<and>
    1 \<le> cf_Workers c \<and> 1 \<le> cf_QueueDepth c \<and> cf_QueueFull c \<in> {''drop'', ''wait''} \<and>
    0 \<le> cf_ReserveMS c \<and> 0 \<le> cf_MinBudgetMS c \<and> 0 < cf_HeartbeatEvery c \<and> 0 \<le> cf_ReloadEvery c"
  using Config_Load_sound [OF assms] unfolding config_ok_def queue_words by blast

theorem Config_Load_valid_witness:
  "1 \<le> cf_QueueDepth example_config \<and> cf_QueueFull example_config \<in> {''drop'', ''wait''}"
  using Config_Load_valid [OF example_Load] by blast

text \<open>
  The depth of the queue comes from the environment variable when that is set, else from the
  queue file, else it is 256; a queue file that configures an internal Redis stops the program.
\<close>

theorem Config_Load_depth_precedence:
  assumes "Config_Load H = Inr c"
  shows "\<exists>qf. conf_file H = Inr qf \<and> qf_RedisInternal qf = [] \<and>
    (case lookup_set H ''WAF_REWRITE_QUEUE_DEPTH'' of
       Some raw \<Rightarrow> Atoi (TrimSpace raw) = Some (cf_QueueDepth c)
     | None \<Rightarrow> cf_QueueDepth c = (case qf_Max qf of Some m \<Rightarrow> m | None \<Rightarrow> 256))"
proof -
  obtain qf where "conf_file H = Inr qf" and "qf_RedisInternal qf = []"
    and "envIntIfSet H ''WAF_REWRITE_QUEUE_DEPTH'' (case qf_Max qf of Some m \<Rightarrow> m | None \<Rightarrow> 256) = Inr (cf_QueueDepth c)"
    using Config_Load_depth [OF assms] by blast
  then show ?thesis
    by (intro exI [of _ qf]) (simp add: envIntIfSet_def split: option.splits)
qed

theorem Config_Load_depth_precedence_witness:
  "\<exists>qf. conf_file example_host = Inr qf \<and> qf_RedisInternal qf = [] \<and>
    (case lookup_set example_host ''WAF_REWRITE_QUEUE_DEPTH'' of
       Some raw \<Rightarrow> Atoi (TrimSpace raw) = Some (cf_QueueDepth example_config)
     | None \<Rightarrow> cf_QueueDepth example_config = (case qf_Max qf of Some m \<Rightarrow> m | None \<Rightarrow> 256))"
  by (rule Config_Load_depth_precedence [OF example_Load])

text \<open>
  A queue file that parses holds only values the program understands: a positive 64-bit queue
  length, a known policy, and Redis addresses with a Redis scheme and a host.
\<close>

theorem parseQueueFile_valid:
  assumes "parseQueueFile H name src = Inr f"
  shows "(\<forall>m. qf_Max f = Some m \<longrightarrow> 1 \<le> m \<and> m < 2 ^ 63) \<and> qf_Full f \<in> {[], ''drop'', ''wait''} \<and>
    qf_Expand f \<in> {[], ''off'', ''ask''} \<and> (qf_RedisURL f \<noteq> [] \<longrightarrow> isRedisURL H (qf_RedisURL f))"
  using parseQueueFile_sound [OF assms] unfolding queueFile_ok_def int64_def queue_words by blast

theorem parseQueueFile_valid_witness:
  "qf_Full (zero_queueFile\<lparr>qf_Max := Some 8, qf_Full := ''wait''\<rparr>) \<in> {[], ''drop'', ''wait''}"
proof -
  have "parseQueueFile example_host ''c'' (''queue_max 8;'' @ [CHR 0x0A] @ ''queue_full  wait ; # x'') =
      Inr (zero_queueFile\<lparr>qf_Max := Some 8, qf_Full := ''wait''\<rparr>)" by code_simp
  from parseQueueFile_valid [OF this] show ?thesis by blast
qed

end
