(* ===== verification/Files.thy ===== *)
theory Files
  imports GoStrings "HOL-Library.AList"
begin

text \<open>
  The file system as the program uses it (packages os and path/filepath): a tree of directories and
  files, paths as lists of components, and the calls \<open>MkdirAll\<close>, \<open>RemoveAll\<close>, \<open>Rename\<close>, \<open>WriteFile\<close>,
  \<open>ReadFile\<close>, \<open>ReadDir\<close> and \<open>Stat\<close>. Any call may fail for reasons outside the program: the disk carries
  a schedule of faults, consulted once per call. A rename is atomic and a \<open>MkdirAll\<close> that fails leaves
  the tree as it was; a removal or a write that fails leaves anything at all at its path.
\<close>

section \<open>Trees\<close>

type_synonym path = "string list"

datatype node = File bytes int | Dir "(string \<times> node) list"

fun node_at :: "node \<Rightarrow> path \<Rightarrow> node option" where
  "node_at n [] = Some n"
| "node_at (File b t) (p # ps) = None"
| "node_at (Dir es) (p # ps) = (case map_of es p of None \<Rightarrow> None | Some n \<Rightarrow> node_at n ps)"

text \<open>Put a node at a path, or take it away; \<open>None\<close> when a directory on the way is missing.\<close>

fun put_at :: "node \<Rightarrow> path \<Rightarrow> node option \<Rightarrow> node option" where
  "put_at n [] v = None"
| "put_at (File b t) (p # ps) v = None"
| "put_at (Dir es) (p # ps) v =
     (if ps = [] then Some (Dir (case v of None \<Rightarrow> AList.delete p es | Some n \<Rightarrow> AList.update p n es))
      else (case map_of es p of
          None \<Rightarrow> None
        | Some n \<Rightarrow> map_option (\<lambda>n'. Dir (AList.update p n' es)) (put_at n ps v)))"

lemma node_at_put_same: "put_at n p v = Some n' \<Longrightarrow> node_at n' p = v"
proof (induction n p v arbitrary: n' rule: put_at.induct)
  case (3 es p ps v)
  show ?case
  proof (cases "ps = []")
    case True
    with "3.prems" show ?thesis by (cases v) (auto simp: update_conv' delete_conv')
  next
    case False
    with "3.prems" obtain k k' where k: "map_of es p = Some k" and k': "put_at k ps v = Some k'"
      and n': "n' = Dir (AList.update p k' es)"
      by (auto split: option.splits)
    with "3.IH" [OF False k k'] show ?thesis by (simp add: update_conv')
  qed
qed auto

text \<open>Two paths that differ in some component are independent.\<close>

definition apart :: "path \<Rightarrow> path \<Rightarrow> bool" where
  "apart p q \<longleftrightarrow> \<not> prefix p q \<and> \<not> prefix q p"

lemma apart_sym: "apart p q \<Longrightarrow> apart q p"
  by (simp add: apart_def)

lemma apart_Cons [simp]: "apart (a # p) (b # q) \<longleftrightarrow> a \<noteq> b \<or> apart p q"
  by (auto simp: apart_def)

lemma apart_Nil [simp]: "\<not> apart [] q" "\<not> apart q []"
  by (simp_all add: apart_def)

lemma apart_append: "apart p q \<Longrightarrow> apart (p @ r) (q @ s)"
  by (induction p q rule: list_induct2') auto

lemma apart_same_prefix [simp]: "apart (d @ p) (d @ q) \<longleftrightarrow> apart p q"
  by (induction d) auto

lemma node_at_put_apart: "put_at n p v = Some n' \<Longrightarrow> apart p q \<Longrightarrow> node_at n' q = node_at n q"
proof (induction n p v arbitrary: n' q rule: put_at.induct)
  case (3 es p ps v)
  then obtain b q' where q: "q = b # q'" by (cases q) auto
  show ?case
  proof (cases "ps = []")
    case True
    with "3.prems" q have "b \<noteq> p" by auto
    with True "3.prems" q show ?thesis by (cases v) (auto simp: update_conv' delete_conv')
  next
    case False
    with "3.prems" obtain k k' where k: "map_of es p = Some k" and k': "put_at k ps v = Some k'"
      and n': "n' = Dir (AList.update p k' es)"
      by (auto split: option.splits)
    show ?thesis
    proof (cases "b = p")
      case True
      with "3.prems"(2) q have "apart ps q'" by simp
      with "3.IH" [OF False k k'] True k n' q show ?thesis by (simp add: update_conv')
    next
      case False
      with n' q show ?thesis by (simp add: update_conv')
    qed
  qed
qed auto

lemma put_at_existing: "node_at n p = Some k \<Longrightarrow> p \<noteq> [] \<Longrightarrow> \<exists>n'. put_at n p v = Some n'"
  by (induction n p v rule: put_at.induct) (auto split: option.splits if_splits)

text \<open>After a change in a directory, its entries can be changed again.\<close>

lemma put_at_again: "put_at n (d @ [a]) v = Some n' \<Longrightarrow> \<exists>n''. put_at n' (d @ [b]) w = Some n''"
proof (induction d arbitrary: n n')
  case Nil
  then show ?case by (cases n) auto
next
  case (Cons x d)
  then obtain es m m' where "n = Dir es" "map_of es x = Some m" and m': "put_at m (d @ [a]) v = Some m'"
    and "n' = Dir (AList.update x m' es)"
    by (cases n) (auto split: option.splits)
  with Cons.IH [OF m'] show ?case by (auto simp: update_conv')
qed

section \<open>Joining paths\<close>

text \<open>
  \<open>filepath.Join\<close> of a clean path and a name: the name is split at slashes and cleaned, so that empty
  parts and single dots vanish and two dots go up one level.
\<close>

definition clean_part :: "path \<Rightarrow> string \<Rightarrow> path" where
  "clean_part p part = (if part = [] \<or> part = ''.'' then p else if part = ''..'' then butlast p else p @ [part])"

definition Join :: "path \<Rightarrow> string \<Rightarrow> path" where
  "Join p name = foldl clean_part p (Split name (CHR ''/''))"

text \<open>A name that is one component of a path.\<close>

definition plain_name :: "string \<Rightarrow> bool" where
  "plain_name s \<longleftrightarrow> s \<noteq> [] \<and> s \<noteq> ''.'' \<and> s \<noteq> ''..'' \<and> CHR ''/'' \<notin> set s"

lemma Split_single: "c \<notin> set s \<Longrightarrow> Split s c = [s]"
  by (induction s) auto

lemma Join_plain: "plain_name s \<Longrightarrow> Join p s = p @ [s]"
  by (simp add: Join_def plain_name_def Split_single clean_part_def)

section \<open>Calls\<close>

datatype os_err = NotExist | OtherErr

datatype disk_fault = Works | Breaks "node option"

record disk =
  dk_tree :: node
  dk_faults :: "disk_fault list"
  dk_now :: int

text \<open>Whether the next call is hit by a fault.\<close>

definition faulty :: "disk \<Rightarrow> bool \<times> disk" where
  "faulty d = (case dk_faults d of [] \<Rightarrow> (False, d) | b # bs \<Rightarrow> (b \<noteq> Works, d\<lparr>dk_faults := bs\<rparr>))"

text \<open>What a removal or a write that is hit leaves behind at its path.\<close>

definition damage :: "path \<Rightarrow> disk \<Rightarrow> node" where
  "damage p d =
     (case dk_faults d of
        Breaks v # _ \<Rightarrow> (case put_at (dk_tree d) p v of None \<Rightarrow> dk_tree d | Some t \<Rightarrow> t)
      | _ \<Rightarrow> dk_tree d)"

text \<open>A call that may change the tree: \<open>None\<close> means that it fails by itself with that error.\<close>

definition os_call :: "(node \<Rightarrow> int \<Rightarrow> os_err + node) \<Rightarrow> disk \<Rightarrow> disk \<times> os_err option" where
  "os_call f d =
     (case faulty d of
        (True, d) \<Rightarrow> (d, Some OtherErr)
      | (False, d) \<Rightarrow> (case f (dk_tree d) (dk_now d) of Inl e \<Rightarrow> (d, Some e) | Inr t \<Rightarrow> (d\<lparr>dk_tree := t\<rparr>, None)))"

definition os_call_at :: "path \<Rightarrow> (node \<Rightarrow> int \<Rightarrow> os_err + node) \<Rightarrow> disk \<Rightarrow> disk \<times> os_err option" where
  "os_call_at p f d =
     (case os_call f d of
        (d', e) \<Rightarrow> (if fst (faulty d) then d'\<lparr>dk_tree := damage p d\<rparr> else d', e))"

definition mkdir_at :: "node \<Rightarrow> path \<Rightarrow> os_err + node" where
  "mkdir_at t p =
     (case node_at t p of
        Some (Dir _) \<Rightarrow> Inr t
      | Some (File _ _) \<Rightarrow> Inl OtherErr
      | None \<Rightarrow> (case put_at t p (Some (Dir [])) of None \<Rightarrow> Inl OtherErr | Some t' \<Rightarrow> Inr t'))"

fun mkdirs :: "node \<Rightarrow> path \<Rightarrow> path \<Rightarrow> os_err + node" where
  "mkdirs t done [] = Inr t"
| "mkdirs t done (p # ps) = rbind (mkdir_at t (done @ [p])) (\<lambda>t. mkdirs t (done @ [p]) ps)"

definition MkdirAll :: "path \<Rightarrow> disk \<Rightarrow> disk \<times> os_err option" where
  "MkdirAll p = os_call (\<lambda>t _. mkdirs t [] p)"

definition remove_tree :: "node \<Rightarrow> path \<Rightarrow> os_err + node" where
  "remove_tree t p =
     (case node_at t p of None \<Rightarrow> Inr t
      | Some _ \<Rightarrow> (case put_at t p None of None \<Rightarrow> Inl OtherErr | Some t' \<Rightarrow> Inr t'))"

definition RemoveAll :: "path \<Rightarrow> disk \<Rightarrow> disk \<times> os_err option" where
  "RemoveAll p = os_call_at p (\<lambda>t _. remove_tree t p)"

definition WriteFile :: "path \<Rightarrow> bytes \<Rightarrow> disk \<Rightarrow> disk \<times> os_err option" where
  "WriteFile p b = os_call_at p (\<lambda>t now.
     case node_at t p of
       Some (Dir _) \<Rightarrow> Inl OtherErr
     | _ \<Rightarrow> (case put_at t p (Some (File b now)) of None \<Rightarrow> Inl NotExist | Some t' \<Rightarrow> Inr t'))"

text \<open>\<open>Rename\<close>: the target may be an empty directory when the source is one.\<close>

definition in_the_way :: "node \<Rightarrow> node option \<Rightarrow> bool" where
  "in_the_way n target =
     (case target of None \<Rightarrow> False
      | Some (File _ _) \<Rightarrow> (case n of Dir _ \<Rightarrow> True | File _ _ \<Rightarrow> False)
      | Some (Dir es) \<Rightarrow> (case n of Dir _ \<Rightarrow> es \<noteq> [] | File _ _ \<Rightarrow> True))"

definition rename_tree :: "node \<Rightarrow> path \<Rightarrow> path \<Rightarrow> os_err + node" where
  "rename_tree t src dst =
     (case node_at t src of
        None \<Rightarrow> Inl NotExist
      | Some n \<Rightarrow>
          if in_the_way n (node_at t dst) then Inl OtherErr
          else (case put_at t src None of
              None \<Rightarrow> Inl OtherErr
            | Some t' \<Rightarrow> (case put_at t' dst (Some n) of None \<Rightarrow> Inl NotExist | Some t'' \<Rightarrow> Inr t'')))"

definition Rename :: "path \<Rightarrow> path \<Rightarrow> disk \<Rightarrow> disk \<times> os_err option" where
  "Rename src dst = os_call (\<lambda>t _. rename_tree t src dst)"

definition ReadFile :: "path \<Rightarrow> disk \<Rightarrow> disk \<times> (os_err + bytes)" where
  "ReadFile p d =
     (case faulty d of
        (True, d) \<Rightarrow> (d, Inl OtherErr)
      | (False, d) \<Rightarrow> (d, case node_at (dk_tree d) p of
          None \<Rightarrow> Inl NotExist | Some (Dir _) \<Rightarrow> Inl OtherErr | Some (File b _) \<Rightarrow> Inr b))"

text \<open>\<open>ReadDir\<close>: the entries sorted by name, each with the flag \<open>IsDir\<close>.\<close>

definition is_dir :: "node \<Rightarrow> bool" where
  "is_dir n = (case n of Dir _ \<Rightarrow> True | File _ _ \<Rightarrow> False)"

definition entries_of :: "(string \<times> node) list \<Rightarrow> (string \<times> node) list" where
  "entries_of es = map (\<lambda>k. (k, the (map_of es k))) (sort (remdups (map fst es)))"

definition ReadDir :: "path \<Rightarrow> disk \<Rightarrow> disk \<times> (os_err + (string \<times> bool) list)" where
  "ReadDir p d =
     (case faulty d of
        (True, d) \<Rightarrow> (d, Inl OtherErr)
      | (False, d) \<Rightarrow> (d, case node_at (dk_tree d) p of
          None \<Rightarrow> Inl NotExist | Some (File _ _) \<Rightarrow> Inl OtherErr
        | Some (Dir es) \<Rightarrow> Inr (map (\<lambda>(k, n). (k, is_dir n)) (entries_of es))))"

definition Stat :: "path \<Rightarrow> disk \<Rightarrow> disk \<times> (os_err + node)" where
  "Stat p d =
     (case faulty d of
        (True, d) \<Rightarrow> (d, Inl OtherErr)
      | (False, d) \<Rightarrow> (d, case node_at (dk_tree d) p of None \<Rightarrow> Inl NotExist | Some n \<Rightarrow> Inr n))"

text \<open>
  The files below a directory in the order of \<open>WalkDir\<close>, each with its path, size and time. The walk
  reads the tree; a fault during it is an error of the walk.
\<close>

fun walk :: "path \<Rightarrow> node \<Rightarrow> (path \<times> nat \<times> int) list" where
  "walk p (File b t) = [(p, length b, t)]"
| "walk p (Dir es) = concat (map (\<lambda>(k, fs). fs) (sort_key fst (map (\<lambda>(k, n). (k, walk (p @ [k]) n)) es)))"

definition WalkFiles :: "path \<Rightarrow> disk \<Rightarrow> disk \<times> (os_err + (path \<times> nat \<times> int) list)" where
  "WalkFiles p d =
     (case faulty d of
        (True, d) \<Rightarrow> (d, Inl OtherErr)
      | (False, d) \<Rightarrow> (d, case node_at (dk_tree d) p of None \<Rightarrow> Inl NotExist | Some n \<Rightarrow> Inr (walk [] n)))"

section \<open>What the calls do to a path\<close>

lemma os_call_fail: "os_call f d = (d', Some e) \<Longrightarrow> dk_tree d' = dk_tree d"
  by (auto simp: os_call_def faulty_def split: prod.splits bool.splits list.splits sum.splits)

lemma os_call_ok: "os_call f d = (d', None) \<Longrightarrow> \<exists>t now. f (dk_tree d) now = Inr t \<and> dk_tree d' = t"
  by (auto simp: os_call_def faulty_def split: prod.splits bool.splits list.splits sum.splits)

lemma reads_keep_tree:
  "ReadFile p d = (d', r1) \<Longrightarrow> dk_tree d' = dk_tree d" "ReadDir p d = (d', r2) \<Longrightarrow> dk_tree d' = dk_tree d"
  "Stat p d = (d', r3) \<Longrightarrow> dk_tree d' = dk_tree d" "WalkFiles p d = (d', r4) \<Longrightarrow> dk_tree d' = dk_tree d"
  by (auto simp: ReadFile_def ReadDir_def Stat_def WalkFiles_def faulty_def split: list.splits bool.splits)

lemma remove_tree_apart: "remove_tree t p = Inr t' \<Longrightarrow> apart p q \<Longrightarrow> node_at t' q = node_at t q"
  by (auto simp: remove_tree_def node_at_put_apart split: option.splits)

lemma remove_tree_gone: "remove_tree t p = Inr t' \<Longrightarrow> node_at t' p = None"
  by (auto simp: remove_tree_def dest: node_at_put_same split: option.splits)

lemma rename_tree_Inr:
  assumes "rename_tree t src dst = Inr t'"
  obtains n t1 where "node_at t src = Some n" "put_at t src None = Some t1" "put_at t1 dst (Some n) = Some t'"
  using assms by (auto simp: rename_tree_def split: option.splits if_splits)

lemma rename_tree_apart:
  "rename_tree t src dst = Inr t' \<Longrightarrow> apart src q \<Longrightarrow> apart dst q \<Longrightarrow> node_at t' q = node_at t q"
  by (elim rename_tree_Inr) (metis node_at_put_apart)

lemma rename_tree_moved:
  "rename_tree t src dst = Inr t' \<Longrightarrow> node_at t' dst = node_at t src"
  by (elim rename_tree_Inr) (simp add: node_at_put_same)

lemma rename_tree_NotExist:
  assumes "rename_tree t (dir @ [a]) (dir @ [b]) = Inl NotExist"
  shows "node_at t (dir @ [a]) = None"
proof (cases "put_at t (dir @ [a]) None")
  case None
  with assms show ?thesis by (auto simp: rename_tree_def split: option.splits if_splits)
next
  case (Some t')
  have "\<exists>t''. put_at t' (dir @ [b]) (Some n) = Some t''" for n by (rule put_at_again [OF Some])
  with assms Some show ?thesis
    by (cases "node_at t (dir @ [a])") (auto simp: rename_tree_def split: option.splits if_splits, metis option.distinct(1))
qed

lemma os_call_cases:
  assumes "os_call f d = (d', e)"
  obtains (fault) "e = Some OtherErr" "dk_tree d' = dk_tree d"
  | (error) now x where "f (dk_tree d) now = Inl x" "e = Some x" "dk_tree d' = dk_tree d"
  | (ok) now where "f (dk_tree d) now = Inr (dk_tree d')" "e = None"
proof (cases "faulty d")
  case (Pair b d1)
  have same: "dk_tree d1 = dk_tree d" using Pair by (auto simp: faulty_def split: list.splits)
  show ?thesis
  proof (cases b)
    case True
    then show ?thesis using assms Pair same fault by (simp add: os_call_def)
  next
    case False
    then show ?thesis
      using assms Pair same error [of "dk_now d1"] ok [of "dk_now d1"]
      by (cases "f (dk_tree d1) (dk_now d1)") (auto simp: os_call_def)
  qed
qed

lemma damage_apart: "apart p q \<Longrightarrow> node_at (damage p d) q = node_at (dk_tree d) q"
  by (auto simp: damage_def node_at_put_apart split: list.split disk_fault.split option.split)

lemma os_call_at_cases:
  assumes "os_call_at p f d = (d', e)"
  obtains (fault) "e = Some OtherErr" "dk_tree d' = damage p d"
  | (error) now x where "f (dk_tree d) now = Inl x" "e = Some x" "dk_tree d' = dk_tree d"
  | (ok) now where "f (dk_tree d) now = Inr (dk_tree d')" "e = None"
proof (cases "faulty d")
  case (Pair b d1)
  have same: "dk_tree d1 = dk_tree d" using Pair by (auto simp: faulty_def split: list.splits)
  show ?thesis
  proof (cases b)
    case True
    then show ?thesis using assms Pair fault by (auto simp: os_call_at_def os_call_def)
  next
    case False
    then show ?thesis
      using assms Pair same error [of "dk_now d1"] ok [of "dk_now d1"]
      by (cases "f (dk_tree d1) (dk_now d1)") (auto simp: os_call_at_def os_call_def)
  qed
qed

lemma RemoveAll_apart: "RemoveAll p d = (d', e) \<Longrightarrow> apart p q \<Longrightarrow> node_at (dk_tree d') q = node_at (dk_tree d) q"
  unfolding RemoveAll_def by (erule os_call_at_cases) (simp_all add: remove_tree_apart damage_apart)

lemma RemoveAll_gone: "RemoveAll p d = (d', None) \<Longrightarrow> node_at (dk_tree d') p = None"
  unfolding RemoveAll_def by (erule os_call_at_cases) (simp_all add: remove_tree_gone)

lemma Rename_apart:
  "Rename src dst d = (d', e) \<Longrightarrow> apart src q \<Longrightarrow> apart dst q \<Longrightarrow> node_at (dk_tree d') q = node_at (dk_tree d) q"
  unfolding Rename_def by (erule os_call_cases) (simp_all add: rename_tree_apart)

lemma Rename_moved: "Rename src dst d = (d', None) \<Longrightarrow> node_at (dk_tree d') dst = node_at (dk_tree d) src"
  unfolding Rename_def by (erule os_call_cases) (simp_all add: rename_tree_moved)

lemma Rename_fail: "Rename src dst d = (d', Some e) \<Longrightarrow> dk_tree d' = dk_tree d"
  unfolding Rename_def by (rule os_call_fail)

lemma Rename_NotExist:
  "Rename (dir @ [a]) (dir @ [b]) d = (d', Some NotExist) \<Longrightarrow> node_at (dk_tree d) (dir @ [a]) = None"
  unfolding Rename_def by (erule os_call_cases) (auto dest: rename_tree_NotExist)

section \<open>What survives\<close>

lemma node_at_append: "node_at n (p @ q) = (case node_at n p of None \<Rightarrow> None | Some m \<Rightarrow> node_at m q)"
  by (induction n p rule: node_at.induct) (auto split: option.split)

lemma put_at_through_file: "node_at t q = Some (File b x) \<Longrightarrow> strict_prefix q p \<Longrightarrow> put_at t p v = None"
proof (induction t q arbitrary: p rule: node_at.induct)
  case (1 n)
  then show ?case by (cases p) (auto simp: strict_prefix_def)
next
  case (3 es a ps)
  from "3.prems"(2) obtain p' where p: "p = a # p'" and p': "strict_prefix ps p'"
    by (cases p) auto
  from "3.prems"(1) obtain n where n: "map_of es a = Some n" and "node_at n ps = Some (File b x)"
    by (auto split: option.splits)
  from "3.IH" [OF this p'] p p' n show ?case by auto
qed simp

text \<open>How two different paths can lie.\<close>

lemma path_cases:
  obtains (same) "q = p" | (apart) "apart p q" | (above) "strict_prefix q p" | (below) r where "q = p @ r" "r \<noteq> []"
  unfolding apart_def strict_prefix_def prefix_def by (cases "\<exists>r. q = p @ r") fastforce+

lemma put_at_keeps_file:
  assumes "put_at t p v = Some t'" and "node_at t q = Some (File b x)" and "q \<noteq> p" and "\<not> (\<exists>es. node_at t p = Some (Dir es))"
  shows "node_at t' q = Some (File b x)"
proof (cases q p rule: path_cases)
  case apart
  with assms show ?thesis by (simp add: node_at_put_apart)
next
  case above
  with assms put_at_through_file show ?thesis by fastforce
next
  case (below r)
  with assms(2,4) show ?thesis
    by (cases r; cases "node_at t p"; cases "the (node_at t p)") (auto simp: node_at_append)
qed (use assms in simp)

lemma mkdir_at_other:
  assumes "mkdir_at t p = Inr t'" and "\<not> prefix q p"
  shows "node_at t' q = node_at t q"
proof (cases "node_at t p")
  case None
  then have put: "put_at t p (Some (Dir [])) = Some t'" using assms by (auto simp: mkdir_at_def split: option.splits)
  show ?thesis
  proof (cases q p rule: path_cases)
    case (below r)
    then show ?thesis using None node_at_put_same [OF put] by (cases r) (auto simp: node_at_append)
  qed (use assms(2) put in \<open>auto simp: node_at_put_apart strict_prefix_def\<close>)
next
  case (Some n)
  with assms show ?thesis by (auto simp: mkdir_at_def split: node.splits)
qed

lemma mkdir_at_keeps_file:
  assumes "mkdir_at t p = Inr t'" and "node_at t q = Some (File b x)"
  shows "node_at t' q = Some (File b x)"
  using assms put_at_keeps_file [of t p "Some (Dir [])" t' q b x]
  by (cases "q = p") (auto simp: mkdir_at_def split: option.splits node.splits)

lemma mkdirs_other: "mkdirs t us ps = Inr t' \<Longrightarrow> \<not> prefix q (us @ ps) \<Longrightarrow> node_at t' q = node_at t q"
proof (induction ps arbitrary: t us)
  case (Cons p ps)
  then obtain t1 where t1: "mkdir_at t (us @ [p]) = Inr t1" and rest: "mkdirs t1 (us @ [p]) ps = Inr t'"
    by (auto simp: rbind_Inr_iff)
  have "\<not> prefix q (us @ [p])" using Cons.prems(2) by (metis append_Cons append_Nil append_assoc prefix_order.trans prefixI)
  with Cons.IH [OF rest] Cons.prems(2) mkdir_at_other [OF t1] show ?case by simp
qed simp

lemma mkdirs_keeps_file: "mkdirs t us ps = Inr t' \<Longrightarrow> node_at t q = Some (File b x) \<Longrightarrow> node_at t' q = Some (File b x)"
  by (induction ps arbitrary: t us) (auto simp: rbind_Inr_iff dest: mkdir_at_keeps_file)

lemma MkdirAll_other: "MkdirAll p d = (d', e) \<Longrightarrow> \<not> prefix q p \<Longrightarrow> node_at (dk_tree d') q = node_at (dk_tree d) q"
  unfolding MkdirAll_def by (erule os_call_cases) (auto dest: mkdirs_other)

lemma MkdirAll_keeps_file:
  "MkdirAll p d = (d', e) \<Longrightarrow> node_at (dk_tree d) q = Some (File b x) \<Longrightarrow> node_at (dk_tree d') q = Some (File b x)"
  unfolding MkdirAll_def by (erule os_call_cases) (auto dest: mkdirs_keeps_file)

lemma WriteFile_apart: "WriteFile p b d = (d', e) \<Longrightarrow> apart p q \<Longrightarrow> node_at (dk_tree d') q = node_at (dk_tree d) q"
  unfolding WriteFile_def
  by (erule os_call_at_cases) (auto simp: damage_apart node_at_put_apart split: option.splits node.splits)

lemma WriteFile_written: "WriteFile p b d = (d', None) \<Longrightarrow> \<exists>x. node_at (dk_tree d') p = Some (File b x)"
  unfolding WriteFile_def
  by (erule os_call_at_cases) (auto dest: node_at_put_same split: option.splits node.splits)

lemma WriteFile_keeps_file:
  "WriteFile p b d = (d', None) \<Longrightarrow> node_at (dk_tree d) q = Some (File c x) \<Longrightarrow> q \<noteq> p \<Longrightarrow>
   node_at (dk_tree d') q = Some (File c x)"
  unfolding WriteFile_def
  by (erule os_call_at_cases) (auto dest: put_at_keeps_file split: option.splits node.splits)

end
