(* ===== verification/ProfileStore.thy ===== *)
theory ProfileStore
  imports Profile Files GoCrypto
begin

text \<open>
  The store of profiles (src/internal/config/profiles.go): reading a directory of profiles into an
  immutable snapshot, replacing the snapshot on a reload, and falling back when a read fails. The
  YAML decoder, the regular-expression compiler and the Unicode tables are the record \<open>codec\<close>. A
  result is an error, a panic, or a value.
\<close>

section \<open>Snapshots\<close>

definition profileFile :: string where "profileFile = ''profile.yaml''"
definition SharedDir :: string where "SharedDir = ''_shared''"

record codec =
  cd_unicode :: unicode
  cd_compile :: "string \<Rightarrow> regexp option"
  cd_decode :: "Profile \<Rightarrow> bytes \<Rightarrow> Profile option"

record Snapshot =
  sn_Gen :: int
  sn_Fingerprint :: string
  sn_byName :: "string \<rightharpoonup> Profile"
  sn_names :: "string list"

definition Snapshot_Profile :: "Snapshot option \<Rightarrow> string \<Rightarrow> Profile option" where
  "Snapshot_Profile s name =
     (case s of None \<Rightarrow> None
      | Some s \<Rightarrow> sn_byName s (if name = [] then DefaultName else name))"

definition Snapshot_Names :: "Snapshot option \<Rightarrow> string list" where
  "Snapshot_Names s = (case s of None \<Rightarrow> [] | Some s \<Rightarrow> sn_names s)"

definition Snapshot_All :: "Snapshot option \<Rightarrow> Profile option list" where
  "Snapshot_All s = (case s of None \<Rightarrow> [] | Some s \<Rightarrow> map (sn_byName s) (sn_names s))"

record Store =
  st_dir :: path
  st_base :: path
  st_cur :: "Snapshot option"
  st_gen :: int

definition Current :: "Store \<Rightarrow> Snapshot option" where
  "Current s = st_cur s"

section \<open>Reading\<close>

datatype read_err = OsErr os_err | DecodeErr string | ProfileErr string verr | DefaultMissing path

definition readProfile :: "codec \<Rightarrow> path \<Rightarrow> string \<Rightarrow> disk \<Rightarrow> disk \<times> (read_err fault + Profile option)" where
  "readProfile C dir name d =
     (case ReadFile (dir @ [name, profileFile]) d of
        (d, Inl NotExist) \<Rightarrow> (d, Inr None)
      | (d, Inl e) \<Rightarrow> (d, Inl (Fails (OsErr e)))
      | (d, Inr raw) \<Rightarrow>
          (d, case ParseProfile (cd_decode C) name raw of
             None \<Rightarrow> Inl (Fails (DecodeErr name))
           | Some p \<Rightarrow> rbind (wrap_err (ProfileErr name) (Validate (cd_unicode C) (cd_compile C) p)) (\<lambda>p. Inr (Some p))))"

text \<open>The loop over the entries of the directory.\<close>

fun read_entries :: "codec \<Rightarrow> path \<Rightarrow> (string \<times> bool) list \<Rightarrow> disk \<Rightarrow> disk \<times> (read_err fault + (string \<times> Profile) list)" where
  "read_entries C dir [] d = (d, Inr [])"
| "read_entries C dir ((name, isDir) # es) d =
     (if \<not> isDir \<or> name = SharedDir then read_entries C dir es d
      else (case readProfile C dir name d of
          (d, Inl e) \<Rightarrow> (d, Inl e)
        | (d, Inr None) \<Rightarrow> read_entries C dir es d
        | (d, Inr (Some p)) \<Rightarrow>
            (case read_entries C dir es d of
               (d, Inl e) \<Rightarrow> (d, Inl e)
             | (d, Inr ps) \<Rightarrow> (d, Inr ((name, p) # ps)))))"

text \<open>The probe profile of the base directory, when the directory has none; its errors are only logged.\<close>

definition read_probe ::
  "codec \<Rightarrow> path \<Rightarrow> path \<Rightarrow> (string \<times> Profile) list \<Rightarrow> disk \<Rightarrow> disk \<times> (read_err fault + (string \<times> Profile) list)" where
  "read_probe C base dir ps d =
     (if ProbeName \<notin> fst ` set ps \<and> base \<noteq> dir
      then (case readProfile C base ProbeName d of
          (d, Inl (Panics e)) \<Rightarrow> (d, Inl (Panics e))
        | (d, Inl (Fails e)) \<Rightarrow> (d, Inr ps)
        | (d, Inr None) \<Rightarrow> (d, Inr ps)
        | (d, Inr (Some p)) \<Rightarrow> (d, Inr (ps @ [(ProbeName, p)])))
      else (d, Inr ps))"

definition fingerprint :: "path \<Rightarrow> disk \<Rightarrow> disk \<times> (read_err fault + string)" where
  "fingerprint dir d =
     (case WalkFiles dir d of
        (d, Inl e) \<Rightarrow> (d, Inl (Fails (OsErr e)))
      | (d, Inr fs) \<Rightarrow>
          (d, Inr (hex_sha256 (concat (map (\<lambda>(rel, size, mtime).
             join (CHR ''/'') rel @ [CHR 0x00] @ FormatInt (int size) @ [CHR 0x00] @ FormatInt mtime @ [CHR 0x00]) fs)))))"

text \<open>\<open>read\<close>: a new snapshot with the next generation number.\<close>

definition read_snapshot :: "codec \<Rightarrow> Store \<Rightarrow> disk \<Rightarrow> disk \<times> (read_err fault + Snapshot)" where
  "read_snapshot C s d =
     (case ReadDir (st_dir s) d of
        (d, Inl e) \<Rightarrow> (d, Inl (Fails (OsErr e)))
      | (d, Inr entries) \<Rightarrow>
          (case read_entries C (st_dir s) entries d of
             (d, Inl e) \<Rightarrow> (d, Inl e)
           | (d, Inr ps) \<Rightarrow>
               (case read_probe C (st_base s) (st_dir s) ps d of
                  (d, Inl e) \<Rightarrow> (d, Inl e)
                | (d, Inr ps) \<Rightarrow>
                    if DefaultName \<notin> fst ` set ps then (d, Inl (Fails (DefaultMissing (st_dir s))))
                    else (case fingerprint (st_dir s) d of
                        (d, Inl e) \<Rightarrow> (d, Inl e)
                      | (d, Inr fp) \<Rightarrow>
                          (d, Inr \<lparr>sn_Gen = st_gen s + 1, sn_Fingerprint = fp,
                                   sn_byName = map_of (rev ps), sn_names = sort (map fst ps)\<rparr>)))))"

text \<open>Publishing a snapshot.\<close>

definition publish_snapshot :: "Snapshot \<Rightarrow> Store \<Rightarrow> Store" where
  "publish_snapshot snap s = s\<lparr>st_cur := Some snap, st_gen := sn_Gen snap\<rparr>"

definition LoadProfiles :: "codec \<Rightarrow> path \<Rightarrow> disk \<Rightarrow> disk \<times> (read_err fault + Store)" where
  "LoadProfiles C dir d =
     (let s = \<lparr>st_dir = dir, st_base = dir, st_cur = None, st_gen = 0\<rparr> in
      case read_snapshot C s d of
        (d, Inl e) \<Rightarrow> (d, Inl e)
      | (d, Inr snap) \<Rightarrow> (d, Inr (publish_snapshot snap s)))"

definition ReloadFrom :: "codec \<Rightarrow> path \<Rightarrow> Store \<Rightarrow> disk \<Rightarrow> disk \<times> Store \<times> (read_err fault) option" where
  "ReloadFrom C dir s d =
     (let prev = st_dir s; s = s\<lparr>st_dir := dir\<rparr> in
      case read_snapshot C s d of
        (d, Inl (Fails e)) \<Rightarrow> (d, s\<lparr>st_dir := prev\<rparr>, Some (Fails e))
      | (d, Inl (Panics e)) \<Rightarrow> (d, s, Some (Panics e))
      | (d, Inr snap) \<Rightarrow> (d, publish_snapshot snap s, None))"

definition Reload :: "codec \<Rightarrow> Store \<Rightarrow> disk \<Rightarrow> disk \<times> Store \<times> (read_err fault + bool)" where
  "Reload C s d =
     (case fingerprint (st_dir s) d of
        (d, Inl e) \<Rightarrow> (d, s, Inl e)
      | (d, Inr fp) \<Rightarrow>
          if (case st_cur s of None \<Rightarrow> False | Some cur \<Rightarrow> sn_Fingerprint cur = fp) then (d, s, Inr False)
          else (case read_snapshot C s d of
              (d, Inl e) \<Rightarrow> (d, s, Inl e)
            | (d, Inr snap) \<Rightarrow> (d, publish_snapshot snap s, Inr True)))"

section \<open>Snapshots are valid\<close>

definition snapshot_ok :: "codec \<Rightarrow> Snapshot \<Rightarrow> bool" where
  "snapshot_ok C snap \<longleftrightarrow>
     DefaultName \<in> dom (sn_byName snap) \<and>
     (\<forall>name p. sn_byName snap name = Some p \<longrightarrow> p_Name p = name \<and> profile_ok (cd_unicode C) (cd_compile C) p) \<and>
     set (sn_names snap) = dom (sn_byName snap) \<and> sorted (sn_names snap)"

definition entry_ok :: "codec \<Rightarrow> string \<times> Profile \<Rightarrow> bool" where
  "entry_ok C e \<longleftrightarrow> p_Name (snd e) = fst e \<and> profile_ok (cd_unicode C) (cd_compile C) (snd e)"

lemma Validate_name: "Validate U recomp p = Inr p' \<Longrightarrow> p_Name p' = p_Name p"
  by (auto simp: Validate_def rbind_Inr_iff split: if_splits)

lemma readProfile_ok:
  assumes "readProfile C dir name d = (d', Inr (Some p))"
  shows "entry_ok C (name, p)"
proof -
  obtain raw p0 where "ParseProfile (cd_decode C) name raw = Some p0"
    and v: "Validate (cd_unicode C) (cd_compile C) p0 = Inr p"
    using assms
    by (auto simp: readProfile_def rbind_Inr_iff split: prod.splits sum.splits os_err.splits option.splits)
  then have "p_Name p0 = name" by (auto simp: ParseProfile_def)
  with profile_check.check_ok [OF v] Validate_name [OF v] show ?thesis by (simp add: entry_ok_def)
qed

lemma read_entries_ok:
  "read_entries C dir es d = (d', Inr ps) \<Longrightarrow> \<forall>e\<in>set ps. entry_ok C e"
proof (induction es arbitrary: d ps)
  case (Cons e es)
  obtain name isDir where e: "e = (name, isDir)" by fastforce
  obtain d1 r where r: "readProfile C dir name d = (d1, r)" by fastforce
  obtain d2 q where q: "read_entries C dir es d1 = (d2, q)" by fastforce
  show ?case
    using Cons.prems Cons.IH [of d] Cons.IH [of d1] readProfile_ok r q
    by (auto simp: e split: if_splits sum.splits option.splits)
qed simp

lemma read_probe_ok:
  assumes "read_probe C base dir ps d = (d', Inr qs)" and "\<forall>e\<in>set ps. entry_ok C e"
  shows "\<forall>e\<in>set qs. entry_ok C e"
proof -
  obtain d1 r where r: "readProfile C base ProbeName d = (d1, r)" by fastforce
  with assms show ?thesis
    using readProfile_ok [of C base ProbeName d d1]
    by (auto simp: read_probe_def split: if_splits sum.splits fault.splits option.splits)
qed

lemma map_of_ok: "\<forall>e\<in>set ps. P e \<Longrightarrow> map_of ps k = Some v \<Longrightarrow> P (k, v)"
  by (auto dest: map_of_SomeD)

lemma read_snapshot_ok:
  assumes "read_snapshot C s d = (d', Inr snap)"
  shows "snapshot_ok C snap \<and> sn_Gen snap = st_gen s + 1"
proof -
  obtain d1 entries where 1: "ReadDir (st_dir s) d = (d1, Inr entries)"
    using assms by (auto simp: read_snapshot_def split: prod.splits sum.splits)
  obtain d2 ps where 2: "read_entries C (st_dir s) entries d1 = (d2, Inr ps)"
    using assms 1 by (auto simp: read_snapshot_def split: prod.splits sum.splits)
  obtain d3 qs where 3: "read_probe C (st_base s) (st_dir s) ps d2 = (d3, Inr qs)"
    using assms 1 2 by (auto simp: read_snapshot_def split: prod.splits sum.splits)
  obtain fp where def: "DefaultName \<in> fst ` set qs"
    and snap: "snap = \<lparr>sn_Gen = st_gen s + 1, sn_Fingerprint = fp, sn_byName = map_of (rev qs), sn_names = sort (map fst qs)\<rparr>"
    using assms 1 2 3 by (auto simp: read_snapshot_def split: prod.splits sum.splits if_splits)
  have "\<forall>e\<in>set (rev qs). entry_ok C e" using read_probe_ok [OF 3 read_entries_ok [OF 2]] by simp
  from map_of_ok [OF this] def show ?thesis
    by (auto simp: snap snapshot_ok_def entry_ok_def dom_map_of_conv_image_fst)
qed

text \<open>Every snapshot the store publishes is valid, and its generation is the store's counter.\<close>

definition store_inv :: "codec \<Rightarrow> Store \<Rightarrow> bool" where
  "store_inv C s \<longleftrightarrow> (\<forall>snap. st_cur s = Some snap \<longrightarrow> snapshot_ok C snap \<and> sn_Gen snap = st_gen s)"

lemma publish_snapshot_inv: "snapshot_ok C snap \<Longrightarrow> store_inv C (publish_snapshot snap s)"
  by (simp add: store_inv_def publish_snapshot_def)

lemma LoadProfiles_inv: "LoadProfiles C dir d = (d', Inr s) \<Longrightarrow> store_inv C s \<and> st_cur s \<noteq> None \<and> st_base s = dir"
  by (auto simp: LoadProfiles_def Let_def publish_snapshot_inv split: prod.splits sum.splits
      dest!: read_snapshot_ok) (simp_all add: publish_snapshot_def)

lemma ReloadFrom_cases:
  assumes "ReloadFrom C dir s d = (d', s', e)"
  obtains (ok) snap where "e = None" "s' = publish_snapshot snap (s\<lparr>st_dir := dir\<rparr>)" "snapshot_ok C snap"
      "sn_Gen snap = st_gen s + 1" "read_snapshot C (s\<lparr>st_dir := dir\<rparr>) d = (d', Inr snap)"
  | (fails) x where "e = Some (Fails x)" "s' = s"
  | (panics) x where "e = Some (Panics x)" "s' = s\<lparr>st_dir := dir\<rparr>"
proof (cases "read_snapshot C (s\<lparr>st_dir := dir\<rparr>) d")
  case (Pair d1 r)
  show ?thesis
  proof (cases r)
    case (Inl x)
    with Pair assms show ?thesis by (cases x) (auto simp: ReloadFrom_def intro: fails panics)
  next
    case (Inr snap)
    with Pair assms read_snapshot_ok [of C "s\<lparr>st_dir := dir\<rparr>" d d1 snap] show ?thesis
      by (intro ok [of snap]) (auto simp: ReloadFrom_def)
  qed
qed

lemma Reload_cases:
  assumes "Reload C s d = (d', s', r)"
  obtains (ok) snap where "r = Inr True" "s' = publish_snapshot snap s" "snapshot_ok C snap" "sn_Gen snap = st_gen s + 1"
  | (same) "r = Inr False" "s' = s"
  | (fails) x where "r = Inl x" "s' = s"
proof (cases "fingerprint (st_dir s) d")
  case (Pair d1 fp)
  obtain d2 q where q: "read_snapshot C s d1 = (d2, q)" by fastforce
  show ?thesis
    using assms Pair q ok same fails read_snapshot_ok [of C s d1 d2]
    by (cases fp; cases q) (auto simp: Reload_def split: if_splits)
qed

lemma ReloadFrom_inv: "ReloadFrom C dir s d = (d', s', e) \<Longrightarrow> store_inv C s \<Longrightarrow> store_inv C s'"
  by (erule ReloadFrom_cases) (auto simp: publish_snapshot_inv, auto simp: store_inv_def)

lemma Reload_inv: "Reload C s d = (d', s', r) \<Longrightarrow> store_inv C s \<Longrightarrow> store_inv C s'"
  by (erule Reload_cases) (auto simp: publish_snapshot_inv)

text \<open>Reading leaves the tree alone.\<close>

lemma readProfile_tree: "readProfile C dir name d = (d', r) \<Longrightarrow> dk_tree d' = dk_tree d"
  by (auto simp: readProfile_def split: prod.splits sum.splits os_err.splits dest!: reads_keep_tree(1))

lemma read_entries_tree: "read_entries C dir es d = (d', r) \<Longrightarrow> dk_tree d' = dk_tree d"
proof (induction es arbitrary: d d' r)
  case (Cons e es)
  obtain name isDir where e: "e = (name, isDir)" by fastforce
  obtain d1 x where x: "readProfile C dir name d = (d1, x)" by fastforce
  obtain d2 q where q: "read_entries C dir es d1 = (d2, q)" by fastforce
  show ?case
    using Cons.prems Cons.IH [of d] Cons.IH [OF q] readProfile_tree [OF x] x q
    by (auto simp: e split: if_splits sum.splits option.splits)
qed simp

lemma read_probe_tree: "read_probe C base dir ps d = (d', r) \<Longrightarrow> dk_tree d' = dk_tree d"
  by (cases "readProfile C base ProbeName d")
    (auto simp: read_probe_def split: if_splits sum.splits fault.splits option.splits dest!: readProfile_tree)

lemma fingerprint_tree: "fingerprint dir d = (d', r) \<Longrightarrow> dk_tree d' = dk_tree d"
  by (auto simp: fingerprint_def split: prod.splits sum.splits dest!: reads_keep_tree(4))

lemma read_snapshot_tree: "read_snapshot C s d = (d', r) \<Longrightarrow> dk_tree d' = dk_tree d"
proof -
  assume r: "read_snapshot C s d = (d', r)"
  obtain d1 x1 where 1: "ReadDir (st_dir s) d = (d1, x1)" by fastforce
  note t1 = reads_keep_tree(2) [OF 1]
  show ?thesis
  proof (cases x1)
    case (Inl e)
    then show ?thesis using r 1 t1 by (simp add: read_snapshot_def)
  next
    case (Inr es)
    obtain d2 x2 where 2: "read_entries C (st_dir s) es d1 = (d2, x2)" by fastforce
    note t2 = read_entries_tree [OF 2]
    show ?thesis
    proof (cases x2)
      case (Inl e)
      then show ?thesis using r 1 2 t1 t2 \<open>x1 = Inr es\<close> by (simp add: read_snapshot_def)
    next
      case (Inr ps)
      with r 1 2 t1 t2 \<open>x1 = Inr es\<close> show ?thesis
        by (auto simp: read_snapshot_def split: prod.splits sum.splits if_splits
            dest!: read_probe_tree fingerprint_tree)
    qed
  qed
qed

lemma ReloadFrom_tree: "ReloadFrom C dir s d = (d', s', e) \<Longrightarrow> dk_tree d' = dk_tree d"
  by (cases "read_snapshot C (s\<lparr>st_dir := dir\<rparr>) d")
    (auto simp: ReloadFrom_def Let_def split: sum.splits fault.splits dest: read_snapshot_tree)

section \<open>The store over time\<close>

text \<open>
  The store is reloaded by its ticker and by the desired-state watcher, while anything may happen to
  the disk.
\<close>

inductive store_step :: "codec \<Rightarrow> Store \<times> disk \<Rightarrow> Store \<times> disk \<Rightarrow> bool" for C where
  reload: "Reload C s d = (d', s', r) \<Longrightarrow> store_step C (s, d) (s', d')"
| reload_from: "ReloadFrom C dir s d = (d', s', None) \<Longrightarrow> store_step C (s, d) (s', d')"
| reload_from_fails: "ReloadFrom C dir s d = (d', s', Some (Fails e)) \<Longrightarrow> store_step C (s, d) (s', d')"
| disk_changes: "store_step C (s, d) (s, d')"

definition store_init :: "codec \<Rightarrow> Store \<times> disk \<Rightarrow> bool" where
  "store_init C sd \<longleftrightarrow> (\<exists>dir d. LoadProfiles C dir d = (snd sd, Inr (fst sd)))"

definition store_sys_inv :: "codec \<Rightarrow> Store \<times> disk \<Rightarrow> bool" where
  "store_sys_inv C sd \<longleftrightarrow> store_inv C (fst sd) \<and> st_cur (fst sd) \<noteq> None"

lemma publish_snapshot_cur [simp]: "st_cur (publish_snapshot snap s) = Some snap"
  by (simp add: publish_snapshot_def)

interpretation store: transition_system "store_init C" "store_step C" "store_sys_inv C" for C
proof
  fix s assume "store_init C s"
  then show "store_sys_inv C s" by (auto simp: store_init_def store_sys_inv_def dest: LoadProfiles_inv)
next
  fix s t assume inv: "store_sys_inv C s" and "store_step C s t"
  from this(2) show "store_sys_inv C t"
  proof cases
    case (reload s0 d d' s' r)
    then show ?thesis using inv Reload_inv [OF reload(3)]
      by (auto simp: store_sys_inv_def elim: Reload_cases)
  next
    case (reload_from dir s0 d d' s')
    then show ?thesis using inv ReloadFrom_inv [OF reload_from(3)]
      by (auto simp: store_sys_inv_def elim: ReloadFrom_cases)
  next
    case (reload_from_fails dir s0 d d' s' e)
    then show ?thesis using inv by (auto simp: store_sys_inv_def elim: ReloadFrom_cases)
  next
    case (disk_changes s0 d d')
    then show ?thesis using inv by (simp add: store_sys_inv_def)
  qed
qed

section \<open>Properties\<close>

definition example_codec :: codec where
  "example_codec = \<lparr>cd_unicode = \<lparr>uc_lower = id, uc_fold = (=), uc_letter = (\<lambda>_. False), uc_digit = (\<lambda>_. False)\<rparr>,
     cd_compile = (\<lambda>_. None), cd_decode = (\<lambda>p raw. Some p)\<rparr>"

definition example_disk :: disk where
  "example_disk = \<lparr>dk_tree = Dir [(''p'', Dir [(''default'', Dir [(''profile.yaml'', File ''mode: enforce'' 7)])])],
     dk_faults = [], dk_now = 9\<rparr>"

definition example_snapshot :: Snapshot where
  "example_snapshot = \<lparr>sn_Gen = 1, sn_Fingerprint = hex_sha256 (''default/profile.yaml'' @ [CHR 0x00] @ ''13'' @ [CHR 0x00] @ ''7'' @ [CHR 0x00]),
     sn_byName = [''default'' \<mapsto> defaults ''default''], sn_names = [''default'']\<rparr>"

definition example_store :: Store where
  "example_store = \<lparr>st_dir = [''p''], st_base = [''p''], st_cur = Some example_snapshot, st_gen = 1\<rparr>"

lemma example_digits: "char_of (49 :: nat) = CHR ''1''" "char_of (51 :: nat) = CHR ''3''" "char_of (55 :: nat) = CHR ''7''"
  by code_simp+

lemma example_read:
  "st_dir s = [''p''] \<Longrightarrow> st_base s = [''p''] \<Longrightarrow>
   read_snapshot example_codec s example_disk = (example_disk, Inr (example_snapshot\<lparr>sn_Gen := st_gen s + 1\<rparr>))"
  by (simp add: read_snapshot_def ReadDir_def faulty_def example_disk_def entries_of_def is_dir_def
      readProfile_def ReadFile_def profileFile_def SharedDir_def ParseProfile_def example_codec_def
      Validate_def defaults_def mode_defs DefaultDenyResponse_def limit_defs read_probe_def DefaultName_def
      fingerprint_def WalkFiles_def example_snapshot_def FormatInt_def nat_digits.simps example_digits)

lemma example_LoadProfiles: "LoadProfiles example_codec [''p''] example_disk = (example_disk, Inr example_store)"
  by (simp add: LoadProfiles_def Let_def example_read publish_snapshot_def example_store_def)
    (simp add: example_snapshot_def)

lemma example_store_init: "store_init example_codec (example_store, example_disk)"
  unfolding store_init_def using example_LoadProfiles by auto

text \<open>
  C33. Whatever happens to the disk and however reloads succeed or fail, every profile that a request
  can be matched with has passed validation and carries the name it is found under, and there is
  always a default profile.
\<close>

theorem profiles_always_valid:
  assumes "store_init C sd0" and "(store_step C)\<^sup>*\<^sup>* sd0 (s, d)"
  shows "Snapshot_Profile (Current s) [] \<noteq> None \<and>
    (\<forall>name p. Snapshot_Profile (Current s) name = Some p \<longrightarrow>
       profile_ok (cd_unicode C) (cd_compile C) p \<and> p_Name p = (if name = [] then DefaultName else name))"
proof -
  have "store_sys_inv C (s, d)" using assms by (rule store.inv_reachable)
  then show ?thesis
    by (auto simp: store_sys_inv_def store_inv_def snapshot_ok_def Snapshot_Profile_def Current_def split: if_splits)
qed

theorem profiles_always_valid_witness:
  "Snapshot_Profile (Current example_store) [] \<noteq> None"
  using profiles_always_valid [OF example_store_init rtranclp.rtrancl_refl] by blast

text \<open>
  A reload that fails, from the ticker or from the watcher, changes neither the directory nor the
  snapshot in use; one that succeeds publishes a valid snapshot whose generation is one higher.
\<close>

theorem failed_reload_changes_nothing:
  "(case ReloadFrom C dir s d of
      (d', s', None) \<Rightarrow> st_dir s' = dir \<and> st_gen s' = st_gen s + 1 \<and>
        (\<exists>snap. st_cur s' = Some snap \<and> snapshot_ok C snap \<and> sn_Gen snap = st_gen s + 1)
    | (d', s', Some (Fails e)) \<Rightarrow> s' = s
    | (d', s', Some (Panics e)) \<Rightarrow> st_cur s' = st_cur s) \<and>
   (case Reload C s d of
      (d', s', Inr True) \<Rightarrow> st_dir s' = st_dir s \<and> st_gen s' = st_gen s + 1 \<and>
        (\<exists>snap. st_cur s' = Some snap \<and> snapshot_ok C snap \<and> sn_Gen snap = st_gen s + 1)
    | (d', s', _) \<Rightarrow> s' = s)"
proof (intro conjI)
  obtain d' s' e where r: "ReloadFrom C dir s d = (d', s', e)" by (metis prod_cases3)
  then show "case ReloadFrom C dir s d of
      (d', s', None) \<Rightarrow> st_dir s' = dir \<and> st_gen s' = st_gen s + 1 \<and>
        (\<exists>snap. st_cur s' = Some snap \<and> snapshot_ok C snap \<and> sn_Gen snap = st_gen s + 1)
    | (d', s', Some (Fails e)) \<Rightarrow> s' = s
    | (d', s', Some (Panics e)) \<Rightarrow> st_cur s' = st_cur s"
    by (rule ReloadFrom_cases) (simp_all add: r publish_snapshot_def)
next
  obtain d' s' e where r: "Reload C s d = (d', s', e)" by (metis prod_cases3)
  then show "case Reload C s d of
      (d', s', Inr True) \<Rightarrow> st_dir s' = st_dir s \<and> st_gen s' = st_gen s + 1 \<and>
        (\<exists>snap. st_cur s' = Some snap \<and> snapshot_ok C snap \<and> sn_Gen snap = st_gen s + 1)
    | (d', s', _) \<Rightarrow> s' = s"
    by (rule Reload_cases) (simp_all add: r publish_snapshot_def)
qed

end
