(* ===== verification/Handler.thy ===== *)
theory Handler
  imports Decide Queue AuditSink Body Config ProfileStore
begin

text \<open>
  The message handler of the inspector (src/cmd/inspector: handler.go, frame.go): receiving a
  message, evaluating a task, inspecting a response or a WebSocket frame, and sending the verdict.
  Its surroundings are the record \<open>handler\<close>: the configuration, the current snapshot, the body loader,
  and the writer of rewritten bodies. What a call does to the world is explicit: the
  messages published, the objects put, the tasks submitted and the audit sink. The context with the
  budget bounds the store calls; its effect is the result of those calls. \<open>elapsed\<close> is the reading of
  \<open>engineMS\<close>. Logging is not modelled.
\<close>

section \<open>State\<close>

text \<open>The values of the engine map of an audit event.\<close>

datatype any =
    AStr string | ABool bool | AInt int | AFloat float64 | AStrs "string list"
  | ARows "GroupRow list" | AOutcomes "ActionOutcome list"

type_synonym details = "any Details"

definition enc_GroupRow :: "GroupRow \<Rightarrow> json" where
  "enc_GroupRow r = JObj
     ([(''group'', JStr (gr_Group r)), (''matches'', enc_int (gr_Matches r)), (''headers'', enc_int (gr_Headers r))]
      @ omit_if (gr_Skipped r = []) ''skipped'' (JStr (gr_Skipped r)))"

definition enc_ActionOutcome :: "ActionOutcome \<Rightarrow> json" where
  "enc_ActionOutcome x = JObj
     ([(''from'', JStr (o_From x)), (''do'', JStr (o_Do x)), (''apply'', JStr (o_Apply x))]
      @ omit_if (o_Code x = []) ''code'' (JStr (o_Code x))
      @ omit_if (o_Groups x = []) ''groups'' (enc_slice JStr (o_Groups x))
      @ [(''outcome'', JStr (o_Outcome x))])"

fun enc_any :: "any \<Rightarrow> json" where
  "enc_any (AStr s) = JStr s"
| "enc_any (ABool b) = JBool b"
| "enc_any (AInt i) = enc_int i"
| "enc_any (AFloat x) = enc_float x"
| "enc_any (AStrs ss) = enc_slice JStr ss"
| "enc_any (ARows rs) = enc_slice enc_GroupRow rs"
| "enc_any (AOutcomes xs) = enc_slice enc_ActionOutcome xs"

record handler =
  hd_cfg :: Config
  hd_snapshot :: "Snapshot option"
  hd_loader :: Loader
  hd_writer :: "(string \<Rightarrow> bytes \<Rightarrow> int \<Rightarrow> store_err option) option"
  hd_unicode :: unicode
  hd_order :: "(string \<times> Locator option) list \<Rightarrow> (string \<times> Locator option) list"
  hd_ts :: string

type_synonym put = "string \<times> bytes \<times> int"

record world =
  wd_published :: "(string \<times> bytes) list"
  wd_puts :: "put list"
  wd_submitted :: "Task list"
  wd_sink :: Sink

section \<open>Replies and details\<close>

definition plain :: "Request \<Rightarrow> string \<Rightarrow> string \<Rightarrow> Reply" where
  "plain req verdict code = (NewReply req verdict)\<lparr>y_Reason := Some \<lparr>rn_Code = code, rn_Class = []\<rparr>\<rparr>"

text \<open>Assignment to the engine map, which is not nil wherever the code assigns to it.\<close>

definition set_engine :: "string \<Rightarrow> any \<Rightarrow> details \<Rightarrow> details" where
  "set_engine k v det = det\<lparr>d_Engine := map_option (\<lambda>m. m(k \<mapsto> v)) (d_Engine det)\<rparr>"

definition set_ms :: "float64 \<Rightarrow> details \<Rightarrow> details" where
  "set_ms ms det = det\<lparr>d_EngineMS := ms\<rparr>"

definition failPer :: "Profile \<Rightarrow> Request \<Rightarrow> string \<Rightarrow> details \<Rightarrow> Reply \<times> details" where
  "failPer p req code det =
     (let det = set_engine ''error'' (AStr code) det in
      if p_Mode p = ModeObserve then (plain req VerdictAllow code, det)
      else ((plain req VerdictDeny code)\<lparr>y_Response := Some (p_DenyResponse p)\<rparr>, det))"

section \<open>Conditions\<close>

definition groupsNeedBody :: "Group list \<Rightarrow> bool" where
  "groupsNeedBody groups = list_ex HasBody groups"

definition bodyWanted :: "unicode \<Rightarrow> Group list \<Rightarrow> int \<Rightarrow> string \<Rightarrow> bool" where
  "bodyWanted U groups status contentType = list_ex (\<lambda>g. HasBody g \<and> Matches U g status contentType) groups"

definition frameBodyWanted :: "unicode \<Rightarrow> Group list \<Rightarrow> string \<Rightarrow> string \<Rightarrow> bool" where
  "frameBodyWanted U groups direction opcode = list_ex (\<lambda>g. HasBody g \<and> MatchesFrame U g direction opcode) groups"

text \<open>The first header that is named \<open>content-type\<close>.\<close>

definition find_content_type :: "unicode \<Rightarrow> Header list \<Rightarrow> string option" where
  "find_content_type U hs = map_option Header_Value (find (\<lambda>p. EqualFold U (Header_Name p) ''content-type'') hs)"

definition contentType :: "handler \<Rightarrow> Request \<Rightarrow> Group list \<Rightarrow> panic + string" where
  "contentType h req active =
     (let need = list_ex (\<lambda>g. g_ContentType g \<noteq> []) active;
          inline = (case r_Response req of None \<Rightarrow> None | Some r \<Rightarrow> find_content_type (hd_unicode h) (rs_Headers r)) in
      if \<not> need then Inr []
      else (case inline of
          Some v \<Rightarrow> Inr v
        | None \<Rightarrow>
            rbind (Load (hd_loader h) (s_Headers (r_Store req))) (\<lambda>loaded.
              if \<not> Available loaded \<or> bytes_of (bo_Data loaded) = [] then Inr []
              else (case decodeHeaders (bytes_of (bo_Data loaded)) of
                  None \<Rightarrow> Inr []
                | Some pairs \<Rightarrow>
                    Inr (case find_content_type (hd_unicode h) pairs of Some v \<Rightarrow> v | None \<Rightarrow> [])))))"

section \<open>Storing the rewritten body\<close>

text \<open>
  The common end of \<open>inspect\<close> and \<open>inspectFrame\<close>: put the new body beside the old one. \<open>Inl\<close> is a
  refused or impossible put. The second component are the puts attempted.
\<close>

datatype put_result = NoWriter | PutFailed put | PutDone put

definition put_body :: "handler \<Rightarrow> Request \<Rightarrow> bytes \<Rightarrow> panic + put_result" where
  "put_body h req body =
     rbind (deref (s_Body (r_Store req))) (\<lambda>loc.
       let key = l_Key loc @ OutSuffix in
       case hd_writer h of
         None \<Rightarrow> Inr NoWriter
       | Some write \<Rightarrow>
           (case write key body OutTTL of
              Some _ \<Rightarrow> Inr (PutFailed (key, body, OutTTL))
            | None \<Rightarrow> Inr (PutDone (key, body, OutTTL))))"

definition attempted :: "put_result \<Rightarrow> put list" where
  "attempted r = (case r of NoWriter \<Rightarrow> [] | PutFailed p \<Rightarrow> [p] | PutDone p \<Rightarrow> [p])"

definition rewrite_body :: "put \<Rightarrow> RewriteBody" where
  "rewrite_body p = (case p of (key, body, _) \<Rightarrow>
     \<lparr>rb_Key = key, rb_Size = int (length body), rb_SHA256 = hex_sha256 body\<rparr>)"

section \<open>Inspection\<close>

type_synonym verdict = "Reply \<times> details \<times> put list"

text \<open>
  What a loaded body means to the caller: a store fault, the bytes, or a body that is missing or
  incomplete.
\<close>

datatype body_state = BodyFault string | BodyBytes slice | BodyMissing

definition body_state :: "Body \<Rightarrow> body_state" where
  "body_state loaded =
     (if Failed loaded then BodyFault (bo_Unavailable loaded)
      else if Available loaded \<and> \<not> bo_Truncated loaded then BodyBytes (bo_Data loaded)
      else BodyMissing)"

definition note_applied :: "Applied \<Rightarrow> details \<Rightarrow> details" where
  "note_applied applied det =
     (let det = set_engine ''groups'' (ARows (ap_Rows applied)) det
      in if ap_BudgetSpent applied then set_engine ''budget_spent'' (ABool True) det else det)"

text \<open>The end of \<open>inspect\<close>, after the groups have been applied.\<close>

definition conclude ::
  "handler \<Rightarrow> float64 \<Rightarrow> Profile \<Rightarrow> Request \<Rightarrow> Applied \<Rightarrow> bool \<Rightarrow> slice \<Rightarrow> details \<Rightarrow> panic + verdict" where
  "conclude h elapsed p req applied wantedMissing raw det =
     (let fail = (\<lambda>code puts. case failPer p req code (set_ms elapsed det) of (reply, det) \<Rightarrow> (reply, det, puts)) in
      if wantedMissing then Inr (fail CodeBodyUnavailable [])
      else if p_Mode p = ModeObserve then
        (if ap_Groups applied = [] then Inr (plain req VerdictAllow CodeNoop, set_ms elapsed det, [])
         else Inr (plain req VerdictAllow CodeObserve,
                   set_engine ''would_apply'' (AStrs (ap_Groups applied)) (set_ms elapsed det), []))
      else if ap_Groups applied = [] then
        Inr ((plain req VerdictAllow CodeApplied)\<lparr>y_Reason := Some \<lparr>rn_Code = CodeNoop, rn_Class = []\<rparr>\<rparr>,
             set_ms elapsed det, [])
      else
        (let reply = (plain req VerdictAllow CodeApplied)\<lparr>y_Headers := ap_Headers applied,
                       y_Rewrite := Some \<lparr>rw_Body = None, rw_Groups = ap_Groups applied\<rparr>\<rparr>;
             finish = (\<lambda>det. set_ms elapsed (set_engine ''applied'' (AStrs (ap_Groups applied)) det)) in
         if ap_BodyChanged applied then
           rbind (put_body h req (bytes_of (ap_Body applied))) (\<lambda>r.
             case r of
               PutDone put \<Rightarrow>
                 Inr (reply\<lparr>y_Rewrite := Some \<lparr>rw_Body = Some (rewrite_body put), rw_Groups = ap_Groups applied\<rparr>\<rparr>,
                      finish (set_engine ''bytes_out'' (AInt (int (length (bytes_of (ap_Body applied)))))
                             (set_engine ''bytes_in'' (AInt (int (length (bytes_of raw)))) det)),
                      attempted r)
             | _ \<Rightarrow> Inr (fail CodeStoreError (attempted r)))
         else Inr (reply, finish det, [])))"

definition conclude_frame ::
  "handler \<Rightarrow> float64 \<Rightarrow> Profile \<Rightarrow> Request \<Rightarrow> Applied \<Rightarrow> bool \<Rightarrow> slice \<Rightarrow> details \<Rightarrow> panic + verdict" where
  "conclude_frame h elapsed p req applied wantedMissing raw det =
     (let fail = (\<lambda>code puts. case failPer p req code (set_ms elapsed det) of (reply, det) \<Rightarrow> (reply, det, puts)) in
      if wantedMissing then Inr (fail CodeBodyUnavailable [])
      else if p_Mode p = ModeObserve then
        (if ap_Groups applied = [] then Inr (plain req VerdictAllow CodeNoop, set_ms elapsed det, [])
         else Inr (plain req VerdictAllow CodeObserve,
                   set_engine ''would_apply'' (AStrs (ap_Groups applied)) (set_ms elapsed det), []))
      else if ap_Groups applied = [] \<or> \<not> ap_BodyChanged applied then
        Inr ((plain req VerdictAllow CodeApplied)\<lparr>y_Reason := Some \<lparr>rn_Code = CodeNoop, rn_Class = []\<rparr>\<rparr>,
             set_ms elapsed det, [])
      else
        rbind (put_body h req (bytes_of (ap_Body applied))) (\<lambda>r.
          case r of
            PutDone put \<Rightarrow>
              Inr ((plain req VerdictAllow CodeApplied)\<lparr>y_Rewrite :=
                     Some \<lparr>rw_Body = Some (rewrite_body put), rw_Groups = ap_Groups applied\<rparr>\<rparr>,
                   set_ms elapsed (set_engine ''applied'' (AStrs (ap_Groups applied))
                     (set_engine ''bytes_out'' (AInt (int (length (bytes_of (ap_Body applied)))))
                     (set_engine ''bytes_in'' (AInt (int (length (bytes_of raw)))) det))),
                   attempted r)
          | _ \<Rightarrow> Inr (fail CodeStoreError (attempted r))))"

definition store_fault :: "float64 \<Rightarrow> Request \<Rightarrow> string \<Rightarrow> details \<Rightarrow> verdict" where
  "store_fault elapsed req why det =
     (ErrorReply req CodeStoreUnavailable, set_engine ''store'' (AStr why) (set_ms elapsed det), [])"

definition inspectFrame ::
  "handler \<Rightarrow> float64 \<Rightarrow> Request \<Rightarrow> Profile \<Rightarrow> Ask \<Rightarrow> details \<Rightarrow> panic + verdict" where
  "inspectFrame h elapsed req p ask det =
     (let direction = (case r_Stream req of None \<Rightarrow> [] | Some st \<Rightarrow> st_Direction st);
          opcode = (case r_Stream req of None \<Rightarrow> [] | Some st \<Rightarrow> st_Opcode st);
          det = set_engine ''conn'' (AStr (r_ConnID req)) det;
          det = set_engine ''seq'' (AInt (int (r_Seq req))) det;
          det = set_engine ''direction'' (AStr direction) det;
          det = set_engine ''opcode'' (AStr opcode) det in
      rbind (Active ask p) (\<lambda>gs.
        let active = ForPhase gs True in
        if active = [] then Inr (plain req VerdictAllow CodeNoop, set_ms elapsed det, [])
        else
          rbind (Load (hd_loader h) (s_Body (r_Store req))) (\<lambda>loaded.
            case body_state loaded of
              BodyFault why \<Rightarrow> Inr (store_fault elapsed req why det)
            | st \<Rightarrow>
                (let raw = (case st of BodyBytes b \<Rightarrow> b | _ \<Rightarrow> None);
                     bodyMissing = (st = BodyMissing) in
                 rbind (ApplyFrame (hd_unicode h) active direction opcode raw) (\<lambda>applied.
                   conclude_frame h elapsed p req applied
                     (bodyMissing \<and> frameBodyWanted (hd_unicode h) active direction opcode) raw
                     (note_applied applied det))))))"

definition inspect :: "handler \<Rightarrow> float64 \<Rightarrow> Request \<Rightarrow> panic + verdict" where
  "inspect h elapsed req =
     (case Snapshot_Profile (hd_snapshot h) (rt_Profile (r_Route req)) of
        None \<Rightarrow> Inr (ErrorReply req CodeUnknownProfile, no_details, [])
      | Some p \<Rightarrow>
          if p_Mode p = ModeOff then Inr (plain req VerdictAllow CodeProfileOff, no_details, [])
          else
            rbind (EvaluatePrior (r_Prior req) (Some p)) (\<lambda>ask.
              let engine = [''profile'' \<mapsto> AStr (p_Name p), ''mode'' \<mapsto> AStr (p_Mode p)];
                  det = \<lparr>d_EngineMS = 0, d_Findings = None, d_Engine = Some engine\<rparr>;
                  det = (if p_Mode p = ModeObserve then set_engine ''passive'' (ABool True) det else det);
                  det = (if k_Outcomes ask \<noteq> [] then set_engine ''actions'' (AOutcomes (k_Outcomes ask)) det else det) in
              if k_Skip ask then Inr (plain req VerdictAllow CodeSkipped, set_ms elapsed det, [])
              else if r_Phase req = PhaseFrame then inspectFrame h elapsed req p ask det
              else
                rbind (Active ask p) (\<lambda>gs.
                  let active = ForPhase gs False;
                      status = (case r_Response req of None \<Rightarrow> 0 | Some r \<Rightarrow> rs_Status r) in
                  if active = [] then Inr (plain req VerdictAllow CodeNoop, set_ms elapsed det, [])
                  else
                    rbind (contentType h req active) (\<lambda>ct.
                    rbind (if groupsNeedBody active
                           then rbind (Load (hd_loader h) (s_Body (r_Store req))) (\<lambda>loaded. Inr (body_state loaded))
                           else Inr (BodyBytes None)) (\<lambda>st.
                      case st of
                        BodyFault why \<Rightarrow> Inr (store_fault elapsed req why det)
                      | _ \<Rightarrow>
                          (let raw = (case st of BodyBytes b \<Rightarrow> b | _ \<Rightarrow> None);
                               bodyMissing = (st = BodyMissing) in
                           rbind (Apply (hd_unicode h) active status ct raw) (\<lambda>applied.
                             conclude h elapsed p req applied
                               (bodyMissing \<and> bodyWanted (hd_unicode h) active status ct) raw
                               (note_applied applied det))))))))"

section \<open>Sending and receiving\<close>

definition send_reply :: "handler \<Rightarrow> string \<Rightarrow> Reply \<Rightarrow> Request option \<Rightarrow> details \<Rightarrow> world \<Rightarrow> world" where
  "send_reply h subject reply req det w =
     (if subject = [] then w
      else
        (let publish = (\<lambda>payload.
               w\<lparr>wd_published := wd_published w @ [(subject, payload)],
                 wd_sink := Add True enc_any (hd_ts h) req (Some reply) det (wd_sink w)\<rparr>) in
         case Marshal reply of
           Inr payload \<Rightarrow> publish payload
         | Inl _ \<Rightarrow>
             (case Marshal (FallbackReply (y_RID reply) (y_Inspector reply) CodeInternalError) of
                Inr payload \<Rightarrow> publish payload
              | Inl _ \<Rightarrow> w)))"

text \<open>The deferred recovery: after a panic the world is the one before the call.\<close>

definition recoverInto :: "handler \<Rightarrow> string \<Rightarrow> string \<Rightarrow> world \<Rightarrow> panic + world \<Rightarrow> world" where
  "recoverInto h subject rid w r =
     (case r of
        Inr w' \<Rightarrow> w'
      | Inl _ \<Rightarrow>
          if subject = [] then w
          else send_reply h subject (FallbackReply rid (cf_Name (hd_cfg h)) CodeInternalError) None no_details w)"

text \<open>\<open>budget.Microseconds()\<close> divided by 1000: the quotient of the microseconds truncates towards zero.\<close>

definition budget_ms :: "int \<Rightarrow> float64" where
  "budget_ms budget = sgn budget * (\<bar>budget\<bar> div 1000)"

definition evaluate :: "handler \<Rightarrow> float64 \<Rightarrow> Task \<Rightarrow> int \<Rightarrow> string \<Rightarrow> world \<Rightarrow> world" where
  "evaluate h elapsed t budget shed w =
     recoverInto h (t_Reply t) (r_RID (t_Req t)) w
       (if shed \<noteq> [] then
          Inr (send_reply h (t_Reply t) (ShedReply (t_Req t) shed) (Some (t_Req t))
                (no_details\<lparr>d_Engine := Some [''shed'' \<mapsto> AStr shed, ''budget_ms'' \<mapsto> AFloat (budget_ms budget)]\<rparr>) w)
        else
          rbind (inspect h elapsed (t_Req t)) (\<lambda>(reply, det, puts).
            Inr (send_reply h (t_Reply t) reply (Some (t_Req t)) det (w\<lparr>wd_puts := wd_puts w @ puts\<rparr>))))"

definition receive :: "handler \<Rightarrow> string \<Rightarrow> bytes \<Rightarrow> world \<Rightarrow> world" where
  "receive h reply data w =
     recoverInto h reply [] w
       (Inr (case Parse (hd_order h) data of
          Inl e \<Rightarrow>
            send_reply h reply (FallbackReply (pe_RID e) (cf_Name (hd_cfg h)) CodeMalformedRequest) None no_details w
        | Inr req \<Rightarrow>
            if \<not> Supports (hd_cfg h) (r_V req) then
              send_reply h reply ((ErrorReply req CodeUnsupportedVersion)\<lparr>y_V := Version\<rparr>) (Some req) no_details w
            else if r_Release req \<noteq> None then w
            else if r_Phase req \<noteq> PhaseResponse \<and> r_Phase req \<noteq> PhaseFrame then
              send_reply h reply (ErrorReply req CodePhaseNotSupported) (Some req) no_details w
            else
              w\<lparr>wd_submitted := wd_submitted w @
                  [\<lparr>t_Req = req, t_Reply = reply, t_Personal = False, t_enqueued = 0\<rparr>]\<rparr>))"

section \<open>Shape of a verdict\<close>

text \<open>A reply answers its request: it carries the request's identity and a reason.\<close>

definition echoes :: "Request \<Rightarrow> Reply \<Rightarrow> bool" where
  "echoes req y \<longleftrightarrow> y_V y = r_V req \<and> y_RID y = r_RID req \<and> y_Inspector y = r_Inspector req \<and>
     y_Score y = None \<and> y_Reason y \<noteq> None"

definition reason_code :: "Reply \<Rightarrow> string" where
  "reason_code y = (case y_Reason y of None \<Rightarrow> [] | Some r \<Rightarrow> rn_Code r)"

text \<open>A reply that asks the proxy to change nothing.\<close>

definition quiet :: "Reply \<Rightarrow> bool" where
  "quiet y \<longleftrightarrow> y_Headers y = None \<and> y_Rewrite y = None"

text \<open>A put of the rewritten body beside the original one that the writer accepted.\<close>

definition stored_put :: "handler \<Rightarrow> Request \<Rightarrow> put \<Rightarrow> bool" where
  "stored_put h req put \<longleftrightarrow> (\<exists>loc write body. s_Body (r_Store req) = Some loc \<and> hd_writer h = Some write \<and>
     put = (l_Key loc @ OutSuffix, body, OutTTL) \<and> write (l_Key loc @ OutSuffix) body OutTTL = None)"

definition does_rewrite :: "handler \<Rightarrow> Request \<Rightarrow> Reply \<Rightarrow> put list \<Rightarrow> bool" where
  "does_rewrite h req y puts \<longleftrightarrow> y_Verdict y = VerdictAllow \<and> reason_code y = CodeApplied \<and> y_Response y = None \<and>
     (\<exists>rw. y_Rewrite y = Some rw \<and> rw_Groups rw \<noteq> [] \<and>
        (case rw_Body rw of None \<Rightarrow> puts = []
         | Some rb \<Rightarrow> \<exists>put. puts = [put] \<and> stored_put h req put \<and> rb = rewrite_body put))"

definition refuses :: "Profile \<Rightarrow> Reply \<Rightarrow> bool" where
  "refuses p y \<longleftrightarrow> y_Verdict y = VerdictDeny \<and> quiet y \<and> y_Response y = Some (p_DenyResponse p) \<and>
     reason_code y \<in> {CodeBodyUnavailable, CodeStoreError}"

definition leaves_alone :: "Reply \<Rightarrow> put list \<Rightarrow> bool" where
  "leaves_alone y puts \<longleftrightarrow> y_Verdict y \<in> {VerdictAllow, VerdictError} \<and> quiet y \<and> y_Response y = None \<and> puts = []"

definition fair :: "handler \<Rightarrow> Request \<Rightarrow> Profile \<Rightarrow> verdict \<Rightarrow> bool" where
  "fair h req p v = (case v of (y, det, puts) \<Rightarrow>
     echoes req y \<and> (leaves_alone y puts \<or> p_Mode p \<notin> {ModeOff, ModeObserve} \<and> (refuses p y \<or> does_rewrite h req y puts)))"

lemmas fair_defs = fair_def echoes_def leaves_alone_def refuses_def does_rewrite_def quiet_def

lemma plain_simps [simp]:
  "y_V (plain req v c) = r_V req" "y_RID (plain req v c) = r_RID req" "y_Inspector (plain req v c) = r_Inspector req"
  "y_Verdict (plain req v c) = v" "y_Score (plain req v c) = None" "y_Reason (plain req v c) = Some \<lparr>rn_Code = c, rn_Class = []\<rparr>"
  "y_Response (plain req v c) = None" "y_Headers (plain req v c) = None" "y_Rewrite (plain req v c) = None"
  by (simp_all add: plain_def)

lemma ErrorReply_simps [simp]:
  "y_V (ErrorReply req c) = r_V req" "y_RID (ErrorReply req c) = r_RID req" "y_Inspector (ErrorReply req c) = r_Inspector req"
  "y_Verdict (ErrorReply req c) = VerdictError" "y_Score (ErrorReply req c) = None"
  "y_Reason (ErrorReply req c) = Some \<lparr>rn_Code = c, rn_Class = []\<rparr>" "y_Response (ErrorReply req c) = None"
  "y_Headers (ErrorReply req c) = None" "y_Rewrite (ErrorReply req c) = None"
  by (simp_all add: ErrorReply_def)

lemma plain_fair [simp]: "fair h req p (plain req VerdictAllow c, det, [])"
  by (simp add: fair_defs)

lemma ErrorReply_fair [simp]: "fair h req p (ErrorReply req c, det, [])"
  by (simp add: fair_defs)

lemma failPer_fair:
  assumes "p_Mode p \<noteq> ModeOff" and "p_Mode p = ModeObserve \<Longrightarrow> puts = []" and "c \<in> {CodeBodyUnavailable, CodeStoreError}"
    and "failPer p req c det = (y, det')"
  shows "fair h req p (y, det', puts)"
  using assms by (auto simp: failPer_def fair_defs reason_code_def Let_def split: if_splits)

lemma put_body_cases:
  assumes "put_body h req body = Inr r"
  obtains "r = NoWriter" | put where "r = PutFailed put" | put where "r = PutDone put" "stored_put h req put"
  using assms
  by (auto simp: put_body_def stored_put_def rbind_Inr_iff deref_def Let_def split: option.splits)

lemma conclude_fair:
  assumes "conclude h elapsed p req applied missing raw det = Inr v" and "p_Mode p \<noteq> ModeOff"
  shows "fair h req p v"
proof -
  obtain y d puts where v: "v = (y, d, puts)" by (metis prod_cases3)
  show ?thesis
  proof (cases "missing \<or> p_Mode p = ModeObserve \<or> ap_Groups applied = [] \<or> \<not> ap_BodyChanged applied")
    case True
    with assms show ?thesis
      by (auto simp: conclude_def Let_def failPer_def split: if_splits) (auto simp: fair_defs reason_code_def)
  next
    case False
    with assms(1) obtain r where r: "put_body h req (bytes_of (ap_Body applied)) = Inr r"
      by (auto simp: conclude_def Let_def rbind_Inr_iff)
    from this show ?thesis
      by (rule put_body_cases)
        (use assms False r in \<open>auto simp: conclude_def Let_def failPer_def attempted_def fair_defs reason_code_def\<close>)
  qed
qed

lemma conclude_frame_fair:
  assumes "conclude_frame h elapsed p req applied missing raw det = Inr v" and "p_Mode p \<noteq> ModeOff"
  shows "fair h req p v"
proof (cases "missing \<or> p_Mode p = ModeObserve \<or> ap_Groups applied = [] \<or> \<not> ap_BodyChanged applied")
  case True
  with assms show ?thesis
    by (auto simp: conclude_frame_def Let_def failPer_def split: if_splits) (auto simp: fair_defs reason_code_def)
next
  case False
  with assms(1) obtain r where r: "put_body h req (bytes_of (ap_Body applied)) = Inr r"
    by (auto simp: conclude_frame_def Let_def rbind_Inr_iff)
  from this show ?thesis
    by (rule put_body_cases)
      (use assms False r in \<open>auto simp: conclude_frame_def Let_def failPer_def attempted_def fair_defs reason_code_def\<close>)
qed

lemma store_fault_fair: "fair h req p (store_fault elapsed req why det)"
  by (simp add: store_fault_def)

lemma inspectFrame_fair:
  assumes "inspectFrame h elapsed req p ask det = Inr v" and "p_Mode p \<noteq> ModeOff"
  shows "fair h req p v"
proof -
  obtain gs where gs: "Active ask p = Inr gs"
    using assms(1) by (auto simp: inspectFrame_def rbind_Inr_iff Let_def)
  show ?thesis
  proof (cases "ForPhase gs True = []")
    case True
    with assms gs show ?thesis by (auto simp: inspectFrame_def Let_def)
  next
    case False
    with assms(1) gs obtain loaded where loaded: "Load (hd_loader h) (s_Body (r_Store req)) = Inr loaded"
      by (auto simp: inspectFrame_def Let_def rbind_Inr_iff)
    show ?thesis
      using assms(1) False gs loaded
      by (cases "body_state loaded")
        (auto simp: inspectFrame_def Let_def rbind_Inr_iff store_fault_fair intro: conclude_frame_fair [OF _ assms(2)])
  qed
qed

text \<open>The details collected before the groups are looked at.\<close>

definition start_details :: "Profile \<Rightarrow> Ask \<Rightarrow> details" where
  "start_details p ask =
     (let det = \<lparr>d_EngineMS = 0, d_Findings = None,
                 d_Engine = Some [''profile'' \<mapsto> AStr (p_Name p), ''mode'' \<mapsto> AStr (p_Mode p)]\<rparr>;
          det = (if p_Mode p = ModeObserve then set_engine ''passive'' (ABool True) det else det)
      in if k_Outcomes ask \<noteq> [] then set_engine ''actions'' (AOutcomes (k_Outcomes ask)) det else det)"

text \<open>The body an inspection of a response works on.\<close>

definition response_body :: "handler \<Rightarrow> Request \<Rightarrow> Group list \<Rightarrow> panic + body_state" where
  "response_body h req active =
     (if groupsNeedBody active then rbind (Load (hd_loader h) (s_Body (r_Store req))) (\<lambda>loaded. Inr (body_state loaded))
      else Inr (BodyBytes None))"

definition status_of :: "Request \<Rightarrow> int" where
  "status_of req = (case r_Response req of None \<Rightarrow> 0 | Some r \<Rightarrow> rs_Status r)"

definition bytes_state :: "body_state \<Rightarrow> slice" where
  "bytes_state st = (case st of BodyBytes b \<Rightarrow> b | _ \<Rightarrow> None)"

text \<open>\<open>inspect\<close> on a response, once the active groups are known.\<close>

definition inspect_response :: "handler \<Rightarrow> float64 \<Rightarrow> Request \<Rightarrow> Profile \<Rightarrow> Group list \<Rightarrow> details \<Rightarrow> panic + verdict" where
  "inspect_response h elapsed req p active det =
     rbind (contentType h req active) (\<lambda>ct.
     rbind (response_body h req active) (\<lambda>st.
       case st of
         BodyFault why \<Rightarrow> Inr (store_fault elapsed req why det)
       | _ \<Rightarrow>
           rbind (Apply (hd_unicode h) active (status_of req) ct (bytes_state st)) (\<lambda>applied.
             conclude h elapsed p req applied
               (st = BodyMissing \<and> bodyWanted (hd_unicode h) active (status_of req) ct) (bytes_state st)
               (note_applied applied det))))"

lemma inspect_unfold:
  assumes "Snapshot_Profile (hd_snapshot h) (rt_Profile (r_Route req)) = Some p" and "p_Mode p \<noteq> ModeOff"
    and "EvaluatePrior (r_Prior req) (Some p) = Inr ask"
  shows "inspect h elapsed req =
    (if k_Skip ask then Inr (plain req VerdictAllow CodeSkipped, set_ms elapsed (start_details p ask), [])
     else if r_Phase req = PhaseFrame then inspectFrame h elapsed req p ask (start_details p ask)
     else rbind (Active ask p) (\<lambda>gs.
       if ForPhase gs False = [] then Inr (plain req VerdictAllow CodeNoop, set_ms elapsed (start_details p ask), [])
       else inspect_response h elapsed req p (ForPhase gs False) (start_details p ask)))"
  unfolding inspect_def assms option.case if_not_P [OF assms(2)] rbind.simps Let_def start_details_def
    inspect_response_def response_body_def status_of_def bytes_state_def
  by (rule refl)

lemma inspect_response_fair:
  assumes "inspect_response h elapsed req p active det = Inr v" and "p_Mode p \<noteq> ModeOff"
  shows "fair h req p v"
proof -
  obtain ct st where "contentType h req active = Inr ct" and "response_body h req active = Inr st"
    using assms(1) by (auto simp: inspect_response_def rbind_Inr_iff)
  with assms(1) show ?thesis
    by (cases st)
      (auto simp: inspect_response_def rbind_Inr_iff store_fault_fair intro: conclude_fair [OF _ assms(2)])
qed

lemma inspect_fair:
  assumes "inspect h elapsed req = Inr v" and "Snapshot_Profile (hd_snapshot h) (rt_Profile (r_Route req)) = Some p"
  shows "fair h req p v"
proof (cases "p_Mode p = ModeOff")
  case True
  with assms show ?thesis by (auto simp: inspect_def)
next
  case False
  obtain ask where ask: "EvaluatePrior (r_Prior req) (Some p) = Inr ask"
    using assms False by (auto simp: inspect_def rbind_Inr_iff)
  show ?thesis
    using assms(1) unfolding inspect_unfold [OF assms(2) False ask]
    by (auto simp: rbind_Inr_iff split: if_splits
        intro: inspectFrame_fair [OF _ False] inspect_response_fair [OF _ False])
qed

lemma inspect_unknown:
  "Snapshot_Profile (hd_snapshot h) (rt_Profile (r_Route req)) = None \<Longrightarrow>
   inspect h elapsed req = Inr (ErrorReply req CodeUnknownProfile, no_details, [])"
  by (simp add: inspect_def)

lemma inspect_echoes: "inspect h elapsed req = Inr (y, det, puts) \<Longrightarrow> echoes req y \<and> y_Verdict y \<in> {VerdictAllow, VerdictDeny, VerdictError}"
proof (cases "Snapshot_Profile (hd_snapshot h) (rt_Profile (r_Route req))")
  case None
  assume "inspect h elapsed req = Inr (y, det, puts)"
  then show ?thesis by (auto simp: inspect_unknown [OF None] echoes_def)
next
  case (Some p)
  assume "inspect h elapsed req = Inr (y, det, puts)"
  from inspect_fair [OF this Some] show ?thesis
    by (auto simp: fair_def leaves_alone_def refuses_def does_rewrite_def)
qed

section \<open>No panic\<close>

lemma put_body_total: "s_Body (r_Store req) \<noteq> None \<Longrightarrow> \<exists>r. put_body h req body = Inr r"
  by (auto simp: put_body_def deref_def Let_def split: option.split)

lemma conclude_total:
  "(ap_BodyChanged applied \<Longrightarrow> s_Body (r_Store req) \<noteq> None) \<Longrightarrow> \<exists>v. conclude h elapsed p req applied missing raw det = Inr v"
  using put_body_total [of req h "bytes_of (ap_Body applied)"]
  by (auto simp: conclude_def Let_def simp del: split_paired_Ex split: put_result.split)

lemma conclude_frame_total:
  "(ap_BodyChanged applied \<Longrightarrow> s_Body (r_Store req) \<noteq> None) \<Longrightarrow> \<exists>v. conclude_frame h elapsed p req applied missing raw det = Inr v"
  using put_body_total [of req h "bytes_of (ap_Body applied)"]
  by (auto simp: conclude_frame_def Let_def simp del: split_paired_Ex split: put_result.split)

text \<open>Only a body that was there can have been changed.\<close>

lemma apply_groups_changed:
  assumes "\<forall>g\<in>set gs. ops_ok recomp g"
  obtains out where "apply_groups U gs sel body = Inr out" and "ap_BodyChanged out \<Longrightarrow> body \<noteq> None"
  using apply_groups_inv [OF assms, of U sel body] by (auto simp: applied_inv_def)

text \<open>A loader that never panics: the one the program builds has no key source.\<close>

definition loads_safely :: "Loader \<Rightarrow> bool" where
  "loads_safely l \<longleftrightarrow> (\<forall>loc. \<exists>b. Load l loc = Inr b)"

lemma no_keys_safe: "ld_keys l = None \<Longrightarrow> loads_safely l"
  by (simp add: loads_safely_def Load_no_keys)

lemma contentType_total:
  assumes "loads_safely (hd_loader h)"
  shows "\<exists>ct. contentType h req active = Inr ct"
proof -
  obtain b where "Load (hd_loader h) (s_Headers (r_Store req)) = Inr b"
    using assms by (auto simp: loads_safely_def)
  then show ?thesis by (simp add: contentType_def Let_def split: option.split)
qed

lemma body_bytes_placed:
  assumes "Load l loc = Inr loaded" and "bytes_state (body_state loaded) \<noteq> None"
  shows "loc \<noteq> None"
  using Load_data_placed [OF assms(1)] assms(2)
  by (auto simp: bytes_state_def body_state_def split: if_splits)

lemma response_body_total:
  assumes "loads_safely (hd_loader h)"
  obtains st where "response_body h req active = Inr st" and "bytes_state st \<noteq> None \<Longrightarrow> s_Body (r_Store req) \<noteq> None"
proof (cases "groupsNeedBody active")
  case True
  obtain loaded where "Load (hd_loader h) (s_Body (r_Store req)) = Inr loaded"
    using assms by (auto simp: loads_safely_def)
  with True body_bytes_placed [OF this] that [of "body_state loaded"] show ?thesis
    by (simp add: response_body_def)
next
  case False
  with that [of "BodyBytes None"] show ?thesis by (simp add: response_body_def bytes_state_def)
qed

lemma inspect_response_total:
  assumes "loads_safely (hd_loader h)" and "\<forall>g\<in>set active. ops_ok recomp g"
  shows "\<exists>v. inspect_response h elapsed req p active det = Inr v"
proof -
  obtain ct where ct: "contentType h req active = Inr ct" using contentType_total [OF assms(1)] by blast
  obtain st where st: "response_body h req active = Inr st"
    and placed: "bytes_state st \<noteq> None \<Longrightarrow> s_Body (r_Store req) \<noteq> None"
    using response_body_total [OF assms(1)] by blast
  obtain out where out: "Apply (hd_unicode h) active (status_of req) ct (bytes_state st) = Inr out"
    and changed: "ap_BodyChanged out \<Longrightarrow> bytes_state st \<noteq> None"
    using apply_groups_changed [OF assms(2), of "hd_unicode h"] unfolding Apply_def by blast
  have "\<exists>v. conclude h elapsed p req out missing raw d = Inr v" for missing raw d
    using placed changed by (intro conclude_total) auto
  with out show ?thesis by (cases st) (simp_all add: inspect_response_def ct st del: split_paired_Ex)
qed

lemma inspectFrame_total:
  assumes "loads_safely (hd_loader h)" and "Active ask p = Inr gs" and "\<forall>g\<in>set gs. ops_ok recomp g"
  shows "\<exists>v. inspectFrame h elapsed req p ask det = Inr v"
proof -
  obtain loaded where loaded: "Load (hd_loader h) (s_Body (r_Store req)) = Inr loaded"
    using assms(1) by (auto simp: loads_safely_def)
  let ?body = "bytes_state (body_state loaded)"
  have "\<exists>out. ApplyFrame (hd_unicode h) (ForPhase gs True) dir opc ?body = Inr out \<and>
      (ap_BodyChanged out \<longrightarrow> s_Body (r_Store req) \<noteq> None)" for dir opc
    using apply_groups_changed [OF ForPhase_ok [OF assms(3)], of "hd_unicode h"] body_bytes_placed [OF loaded]
    unfolding ApplyFrame_def by metis
  then show ?thesis
    using conclude_frame_total [of _ req h elapsed p]
    unfolding bytes_state_def
    by (cases "body_state loaded")
      (auto simp: inspectFrame_def assms(2) loaded Let_def rbind_Inr_iff simp del: split_paired_Ex,
       (metis rbind.simps(2))+)
qed

lemma inspect_total:
  assumes "loads_safely (hd_loader h)"
    and "\<And>p. Snapshot_Profile (hd_snapshot h) (rt_Profile (r_Route req)) = Some p \<Longrightarrow> profile_ok U recomp p"
  shows "\<exists>v. inspect h elapsed req = Inr v"
proof (cases "Snapshot_Profile (hd_snapshot h) (rt_Profile (r_Route req))")
  case None
  then show ?thesis by (simp add: inspect_unknown)
next
  case (Some p)
  then have ok: "profile_ok U recomp p" by (rule assms(2))
  show ?thesis
  proof (cases "p_Mode p = ModeOff")
    case True
    with Some show ?thesis by (simp add: inspect_def)
  next
    case False
    obtain ask where ask: "EvaluatePrior (r_Prior req) (Some p) = Inr ask" using EvaluatePrior_total [OF ok] by blast
    obtain gs where gs: "Active ask p = Inr gs" and ops: "\<forall>g\<in>set gs. ops_ok recomp g" using Active_total [OF ok] by blast
    show ?thesis
      unfolding inspect_unfold [OF Some False ask]
      using inspectFrame_total [OF assms(1) gs ops] inspect_response_total [OF assms(1) ForPhase_ok [OF ops]]
      by (auto simp: gs simp del: split_paired_Ex)
  qed
qed

section \<open>Sending\<close>

lemma send_reply_publishes:
  assumes "subject \<noteq> []" and "y_Score reply = None"
  shows "wd_published (send_reply h subject reply req det w) = wd_published w @ [(subject, encodeReply reply)]"
    and "wd_puts (send_reply h subject reply req det w) = wd_puts w"
    and "wd_submitted (send_reply h subject reply req det w) = wd_submitted w"
  using assms by (simp_all add: send_reply_def Marshal_total)

lemma send_reply_no_subject [simp]: "send_reply h [] reply req det w = w"
  by (simp add: send_reply_def)

lemma send_reply_submitted [simp]: "wd_submitted (send_reply h subject reply req det w) = wd_submitted w"
  by (simp add: send_reply_def Let_def split: sum.split)

lemma FallbackReply_simps [simp]:
  "y_Score (FallbackReply rid n c) = None" "y_RID (FallbackReply rid n c) = rid"
  "y_Verdict (FallbackReply rid n c) = VerdictError" "y_Reason (FallbackReply rid n c) \<noteq> None"
  by (simp_all add: FallbackReply_def)

lemma ShedReply_simps [simp]:
  "y_Score (ShedReply req c) = None" "y_RID (ShedReply req c) = r_RID req" "y_Verdict (ShedReply req c) = VerdictError"
  "y_Reason (ShedReply req c) = Some \<lparr>rn_Code = c, rn_Class = ClassOverload\<rparr>"
  by (simp_all add: ShedReply_def Let_def)

text \<open>A reply the proxy can use: it names the request, gives one of three verdicts, and says why.\<close>

definition answers :: "Request \<Rightarrow> Reply \<Rightarrow> bool" where
  "answers req y \<longleftrightarrow> y_RID y = r_RID req \<and> y_Verdict y \<in> {VerdictAllow, VerdictDeny, VerdictError} \<and>
     y_Score y = None \<and> y_Reason y \<noteq> None"

lemma echoes_answers: "inspect h elapsed req = Inr (y, det, puts) \<Longrightarrow> answers req y"
  using inspect_echoes by (fastforce simp: answers_def echoes_def)

lemma evaluate_publishes:
  assumes "t_Reply t \<noteq> []"
  obtains y where "wd_published (evaluate h elapsed t budget shed w) = wd_published w @ [(t_Reply t, encodeReply y)]"
    and "answers (t_Req t) y"
proof (cases "shed \<noteq> []")
  case True
  with assms that [of "ShedReply (t_Req t) shed"] show ?thesis
    by (simp add: evaluate_def recoverInto_def send_reply_publishes answers_def)
next
  case False
  show ?thesis
  proof (cases "inspect h elapsed (t_Req t)")
    case (Inl e)
    with assms False that [of "FallbackReply (r_RID (t_Req t)) (cf_Name (hd_cfg h)) CodeInternalError"] show ?thesis
      by (simp add: evaluate_def recoverInto_def send_reply_publishes answers_def)
  next
    case (Inr v)
    obtain y det puts where v: "v = (y, det, puts)" by (metis prod_cases3)
    with Inr have ans: "answers (t_Req t) y" by (auto intro: echoes_answers)
    then have "y_Score y = None" by (simp add: answers_def)
    with assms False Inr v ans that [of y] show ?thesis
      by (simp add: evaluate_def recoverInto_def send_reply_publishes)
  qed
qed

section \<open>What an inspection does\<close>

text \<open>The context of an inspection: the profile is known and not off, and the groups are selected.\<close>

definition selects :: "handler \<Rightarrow> Request \<Rightarrow> Profile \<Rightarrow> Ask \<Rightarrow> Group list \<Rightarrow> bool" where
  "selects h req p ask active \<longleftrightarrow>
     Snapshot_Profile (hd_snapshot h) (rt_Profile (r_Route req)) = Some p \<and> p_Mode p \<noteq> ModeOff \<and>
     EvaluatePrior (r_Prior req) (Some p) = Inr ask \<and> \<not> k_Skip ask \<and>
     (\<exists>gs. Active ask p = Inr gs \<and> active = ForPhase gs (r_Phase req = PhaseFrame)) \<and> active \<noteq> []"

lemma inspect_selected_response:
  assumes "selects h req p ask active" and "r_Phase req \<noteq> PhaseFrame"
  shows "inspect h elapsed req = inspect_response h elapsed req p active (start_details p ask)"
proof -
  obtain gs where gs: "Active ask p = Inr gs" "active = ForPhase gs False" "active \<noteq> []"
    and sel: "Snapshot_Profile (hd_snapshot h) (rt_Profile (r_Route req)) = Some p" "p_Mode p \<noteq> ModeOff"
      "EvaluatePrior (r_Prior req) (Some p) = Inr ask" "\<not> k_Skip ask"
    using assms by (auto simp: selects_def)
  show ?thesis unfolding inspect_unfold [OF sel(1-3)] using gs sel(4) assms(2) by simp
qed

lemma selects_ops:
  assumes "selects h req p ask active" and "profile_ok U recomp p"
  shows "\<forall>g\<in>set active. ops_ok recomp g"
proof -
  obtain gs where "Active ask p = Inr gs" "active = ForPhase gs (r_Phase req = PhaseFrame)"
    using assms(1) by (auto simp: selects_def)
  moreover from this(1) Active_total [OF assms(2), of ask] have "\<forall>g\<in>set gs. ops_ok recomp g" by auto
  ultimately show ?thesis by (simp add: ForPhase_ok)
qed

text \<open>A response whose body cannot be used, in a profile that enforces.\<close>

lemma response_body_trouble:
  assumes sel: "selects h req p ask active" and resp: "r_Phase req \<noteq> PhaseFrame"
    and ok: "profile_ok U recomp p" and mode: "p_Mode p = ModeEnforce"
    and ct: "contentType h req active = Inr ct" and want: "bodyWanted (hd_unicode h) active (status_of req) ct"
    and load: "Load (hd_loader h) (s_Body (r_Store req)) = Inr b"
  shows "Failed b \<Longrightarrow> \<exists>det. inspect h elapsed req = Inr (ErrorReply req CodeStoreUnavailable, det, [])"
    and "\<not> Failed b \<Longrightarrow> \<not> (Available b \<and> \<not> bo_Truncated b) \<Longrightarrow>
      \<exists>det. inspect h elapsed req =
        Inr ((plain req VerdictDeny CodeBodyUnavailable)\<lparr>y_Response := Some (p_DenyResponse p)\<rparr>, det, [])"
proof -
  have need: "groupsNeedBody active"
    using want by (auto simp: bodyWanted_def groupsNeedBody_def list_ex_iff)
  have run: "inspect h elapsed req = inspect_response h elapsed req p active (start_details p ask)"
    by (rule inspect_selected_response [OF sel resp])
  show "\<exists>det. inspect h elapsed req = Inr (ErrorReply req CodeStoreUnavailable, det, [])" if "Failed b"
    using that need by (simp add: run inspect_response_def ct response_body_def load body_state_def store_fault_def)
  assume "\<not> Failed b" and "\<not> (Available b \<and> \<not> bo_Truncated b)"
  then have st: "body_state b = BodyMissing" by (auto simp: body_state_def)
  obtain out where "Apply (hd_unicode h) active (status_of req) ct None = Inr out"
    using apply_groups_changed [OF selects_ops [OF sel ok], of "hd_unicode h"] unfolding Apply_def by blast
  with need st want mode show "\<exists>det. inspect h elapsed req =
        Inr ((plain req VerdictDeny CodeBodyUnavailable)\<lparr>y_Response := Some (p_DenyResponse p)\<rparr>, det, [])"
    by (simp add: run inspect_response_def ct response_body_def load bytes_state_def conclude_def failPer_def
        Let_def mode_defs)
qed

text \<open>A response in a profile that enforces, with its body at hand or not needed.\<close>

lemma enforced_response:
  assumes sel: "selects h req p ask active" and resp: "r_Phase req \<noteq> PhaseFrame"
    and ok: "profile_ok U recomp p" and mode: "p_Mode p = ModeEnforce"
    and ct: "contentType h req active = Inr ct" and body: "response_body h req active = Inr (BodyBytes raw)"
  shows "\<exists>out det. Apply (hd_unicode h) active (status_of req) ct raw = Inr out \<and>
    inspect h elapsed req = conclude h elapsed p req out False raw det"
proof -
  obtain out where out: "Apply (hd_unicode h) active (status_of req) ct raw = Inr out"
    using apply_groups_changed [OF selects_ops [OF sel ok], of "hd_unicode h"] unfolding Apply_def by blast
  then show ?thesis
    by (intro exI conjI) (simp_all add: inspect_selected_response [OF sel resp] inspect_response_def ct body bytes_state_def)
qed

lemma conclude_unchanged:
  assumes "p_Mode p = ModeEnforce" and "\<not> ap_BodyChanged out" and "ap_Groups out \<noteq> []"
  shows "\<exists>det'. conclude h elapsed p req out False raw det =
    Inr ((plain req VerdictAllow CodeApplied)\<lparr>y_Headers := ap_Headers out,
           y_Rewrite := Some \<lparr>rw_Body = None, rw_Groups = ap_Groups out\<rparr>\<rparr>, det', [])"
  using assms by (simp add: conclude_def Let_def mode_defs)

lemma conclude_stored:
  assumes "p_Mode p = ModeEnforce" and "ap_BodyChanged out" and "ap_Groups out \<noteq> []"
    and "s_Body (r_Store req) = Some loc" and "hd_writer h = Some write"
    and "write (l_Key loc @ OutSuffix) (bytes_of (ap_Body out)) OutTTL = None"
  shows "\<exists>det'. conclude h elapsed p req out False raw det =
    Inr ((plain req VerdictAllow CodeApplied)\<lparr>y_Headers := ap_Headers out,
           y_Rewrite := Some \<lparr>rw_Body = Some \<lparr>rb_Key = l_Key loc @ OutSuffix, rb_Size = int (length (bytes_of (ap_Body out))),
             rb_SHA256 = hex_sha256 (bytes_of (ap_Body out))\<rparr>, rw_Groups = ap_Groups out\<rparr>\<rparr>, det',
         [(l_Key loc @ OutSuffix, bytes_of (ap_Body out), OutTTL)])"
  using assms by (simp add: conclude_def put_body_def deref_def attempted_def rewrite_body_def Let_def mode_defs)

section \<open>Properties\<close>

definition example_locator :: Locator where
  "example_locator = \<lparr>l_Store = ''main'', l_Driver = ''redis'', l_Key = ''k'', l_Unavailable = [], l_Size = 3,
     l_DeclaredSize = 3, l_SHA256 = [], l_ProcessedSHA256 = [], l_Transformed = False, l_Complete = True,
     l_Truncated = False, l_Encoding = [], l_ExpiresAt = 0, l_Hint = [], l_Enc = None\<rparr>"

definition example_response :: Request where
  "example_response = example_request\<lparr>r_Phase := ''response'',
     r_Response := Some \<lparr>rs_Status = 200, rs_Headers = [], rs_UpstreamMS = 1\<rparr>,
     r_Store := zero_store\<lparr>s_Body := Some example_locator\<rparr>\<rparr>"

definition masking_snapshot :: Snapshot where
  "masking_snapshot = example_snapshot\<lparr>sn_byName := [''default'' \<mapsto> example_profile]\<rparr>"

definition example_handler :: handler where
  "example_handler =
     \<lparr>hd_cfg = example_config, hd_snapshot = Some masking_snapshot,
      hd_loader = \<lparr>ld_store = Some (\<lambda>driver store key. Inr (Some ''axb'')), ld_keys = None, ld_aead = (\<lambda>_ _ _. None)\<rparr>,
      hd_writer = Some (\<lambda>_ _ _. None), hd_unicode = ascii_tables,
      hd_order = id, hd_ts = []\<rparr>"

definition example_world :: world where
  "example_world = \<lparr>wd_published = [], wd_puts = [], wd_submitted = [], wd_sink = NewSink\<rparr>"

lemma example_profile_found:
  "Snapshot_Profile (hd_snapshot example_handler) (rt_Profile (r_Route example_response)) = Some example_profile"
  by (simp add: Snapshot_Profile_def example_handler_def masking_snapshot_def example_response_def
      example_request_def zero_request_def zero_Route_def zero_HTTP_def zero_Conn_def DefaultName_def)

lemma example_selects: "selects example_handler example_response example_profile no_ask [example_group]"
proof -
  have "EvaluatePrior (r_Prior example_response) (Some example_profile) = Inr no_ask"
    by (simp add: EvaluatePrior_def example_profile_def deref_def example_response_def example_request_def zero_request_def zero_Route_def zero_HTTP_def zero_Conn_def)
  moreover have "[example_group] = ForPhase [example_group] (r_Phase example_response = PhaseFrame)"
    by (simp add: ForPhase_def Group_OnFrame_def example_group_def OnFrame_def example_response_def phase_defs)
  moreover have "p_Mode example_profile \<noteq> ModeOff" "\<not> k_Skip no_ask"
    by (simp_all add: example_profile_def defaults_def mode_defs no_ask_def)
  ultimately show ?thesis
    unfolding selects_def using example_profile_found example_active by blast
qed

lemma example_enforces: "p_Mode example_profile = ModeEnforce" "r_Phase example_response \<noteq> PhaseFrame"
  by (simp_all add: example_profile_def defaults_def example_response_def phase_defs)

lemma example_contentType: "contentType h example_response [example_group] = Inr []"
  by (simp add: contentType_def example_group_def)

lemma example_body_loads: "Load (hd_loader example_handler) (s_Body (r_Store example_response)) =
    Inr (zero_body\<lparr>bo_Data := Some ''axb'', bo_SHA256 := hex_sha256 ''axb''\<rparr>)"
  by (simp add: Load_def example_handler_def example_response_def example_locator_def finish_def check_digest_def
      bytes_of_def Let_def)

lemma example_body: "response_body example_handler example_response [example_group] = Inr (BodyBytes (Some ''axb''))"
  by (simp add: response_body_def groupsNeedBody_def HasBody_def example_group_def example_body_loads body_state_def
      Failed_def Available_def)

lemma example_inspect: "\<exists>y det puts. inspect example_handler 0 example_response = Inr (y, det, puts)"
  using inspect_total [OF no_keys_safe, of example_handler example_response ascii_tables literal_compile 0]
    example_profile_ok example_profile_found by (auto simp: example_handler_def)

text \<open>
  The handler answers every evaluated task with a reply subject exactly once, whatever happens in
  between (a shed, a store failure, a panic): it publishes one message on the task's reply subject,
  the encoding of a reply that names the request, gives allow, deny or error, and states a reason.
\<close>

theorem evaluate_answers_once:
  assumes "t_Reply t \<noteq> []"
  shows "\<exists>y. wd_published (evaluate h elapsed t budget shed w) = wd_published w @ [(t_Reply t, encodeReply y)] \<and>
    y_RID y = r_RID (t_Req t) \<and> y_Verdict y \<in> {''allow'', ''deny'', ''error''} \<and> y_Score y = None \<and> y_Reason y \<noteq> None"
  using evaluate_publishes [OF assms, of h elapsed budget shed w] unfolding answers_def verdict_defs by metis

theorem evaluate_answers_once_witness:
  "\<exists>y. wd_published (evaluate example_handler 0 example_task 9 [] example_world) = [(''inbox'', y)]"
  using evaluate_answers_once [of example_task example_handler 0 9 "[]" example_world]
  by (auto simp: example_task_def example_world_def)

text \<open>
  An inspection never panics when the snapshot comes from validated profiles and the loader has no
  key source, which is how the program builds it: every nil pointer and slice bound is safe.
\<close>

theorem inspect_never_panics:
  assumes "ld_keys (hd_loader h) = None" and "hd_snapshot h = Some snap" and "snapshot_ok C snap"
  shows "\<exists>y det puts. inspect h elapsed req = Inr (y, det, puts)"
proof -
  have "profile_ok (cd_unicode C) (cd_compile C) p"
    if "Snapshot_Profile (hd_snapshot h) (rt_Profile (r_Route req)) = Some p" for p
    using that assms(2,3) by (auto simp: Snapshot_Profile_def snapshot_ok_def split: if_splits)
  from inspect_total [OF no_keys_safe [OF assms(1)] this] show ?thesis by auto
qed

theorem inspect_never_panics_witness:
  "\<exists>y det puts. inspect (example_handler\<lparr>hd_snapshot := Some example_snapshot\<rparr>) 0 example_response = Inr (y, det, puts)"
proof (rule inspect_never_panics)
  show "snapshot_ok example_codec example_snapshot"
    using LoadProfiles_inv [OF example_LoadProfiles] by (auto simp: store_inv_def example_store_def)
qed (simp_all add: example_handler_def)

text \<open>
  C15. A profile that is off or only observes never touches the traffic: the verdict is allow, or error
  when the store fails; there are no header changes, no rewrite section, no deny response, and no
  object is written.
\<close>

theorem passive_modes_change_nothing:
  assumes "Snapshot_Profile (hd_snapshot h) (rt_Profile (r_Route req)) = Some p" and "p_Mode p \<in> {''off'', ''observe''}"
    and "inspect h elapsed req = Inr (y, det, puts)"
  shows "y_Verdict y \<in> {''allow'', ''error''} \<and> y_Headers y = None \<and> y_Rewrite y = None \<and> y_Response y = None \<and> puts = []"
proof -
  from assms(2) have mode: "p_Mode p \<in> {ModeOff, ModeObserve}" by (simp add: mode_defs)
  from inspect_fair [OF assms(3,1)] have "leaves_alone y puts"
    unfolding fair_def prod.case using mode by blast
  then show ?thesis by (simp add: leaves_alone_def quiet_def verdict_defs)
qed

lemma observing_found:
  "Snapshot_Profile (Some (masking_snapshot\<lparr>sn_byName := [''default'' \<mapsto> example_profile\<lparr>p_Mode := ''off''\<rparr>]\<rparr>))
     (rt_Profile (r_Route example_response)) = Some (example_profile\<lparr>p_Mode := ''off''\<rparr>)"
  by (simp add: Snapshot_Profile_def example_response_def example_request_def zero_request_def zero_Route_def zero_HTTP_def zero_Conn_def DefaultName_def)

theorem passive_modes_change_nothing_witness:
  "y_Rewrite (plain example_response ''allow'' ''REWRITE_PROFILE_OFF'') = None"
  using passive_modes_change_nothing [of "example_handler\<lparr>hd_snapshot := Some (masking_snapshot\<lparr>sn_byName := [''default'' \<mapsto> example_profile\<lparr>p_Mode := ''off''\<rparr>]\<rparr>)\<rparr>"
      example_response "example_profile\<lparr>p_Mode := ''off''\<rparr>" 0 "plain example_response ''allow'' ''REWRITE_PROFILE_OFF''" no_details "[]"]
  by (simp add: observing_found inspect_def mode_defs verdict_defs CodeProfileOff_def)

text \<open>
  C16. A rewritten body that a reply announces has been stored: exactly one object was put, under the
  key of the original body with the suffix \<open>:out\<close> and a lifetime of 60 seconds, the writer accepted it, and
  the reply gives its size and its SHA-256. A reply without a rewritten body and not a denial goes with
  no put at all.
\<close>

theorem announced_body_is_stored:
  assumes "inspect h elapsed req = Inr (y, det, puts)" and "y_Verdict y \<noteq> ''deny''"
  shows "case y_Rewrite y of
      Some rw \<Rightarrow> (case rw_Body rw of
          Some rb \<Rightarrow> \<exists>loc write body. s_Body (r_Store req) = Some loc \<and> hd_writer h = Some write \<and>
            puts = [(l_Key loc @ '':out'', body, 60000000000)] \<and> write (l_Key loc @ '':out'') body 60000000000 = None \<and>
            rb = \<lparr>rb_Key = l_Key loc @ '':out'', rb_Size = int (length body), rb_SHA256 = hex_sha256 body\<rparr>
        | None \<Rightarrow> puts = [])
    | None \<Rightarrow> puts = []"
proof (cases "Snapshot_Profile (hd_snapshot h) (rt_Profile (r_Route req))")
  case None
  with assms(1) show ?thesis by (auto simp: inspect_unknown)
next
  case (Some p)
  from inspect_fair [OF assms(1) Some] assms(2) have "leaves_alone y puts \<or> does_rewrite h req y puts"
    by (auto simp: fair_def refuses_def VerdictDeny_def)
  then show ?thesis
  proof
    assume "does_rewrite h req y puts"
    then obtain rw where "y_Rewrite y = Some rw" and "case rw_Body rw of None \<Rightarrow> puts = []
        | Some rb \<Rightarrow> \<exists>put. puts = [put] \<and> stored_put h req put \<and> rb = rewrite_body put"
      by (auto simp: does_rewrite_def)
    then show ?thesis
      by (cases "rw_Body rw") (auto simp: stored_put_def rewrite_body_def OutSuffix_def OutTTL_def)
  qed (simp add: leaves_alone_def quiet_def)
qed

lemma apply_groups_cong:
  assumes "\<forall>g\<in>set gs. sel g = sel' g"
  shows "apply_groups U gs sel body = apply_groups U gs sel' body"
proof -
  have "apply_loop U sel body gs st = apply_loop U sel' body gs st" for st
    using assms
  proof (induction gs arbitrary: st)
    case (Cons g gs)
    then have "apply_group U sel body g st = apply_group U sel' body g st" by (simp add: apply_group_def)
    with Cons show ?case by (cases "apply_group U sel' body g st") auto
  qed simp
  then show ?thesis by (simp add: apply_groups_def)
qed

lemma example_Apply: "Apply ascii_tables [example_group] 200 [] (Some ''axb'') = Inr
     \<lparr>ap_Groups = [''mask''], ap_Body = Some ''ab'', ap_BodyChanged = True,
      ap_Headers = Some \<lparr>ho_Set = [''X-Masked'' \<mapsto> ''1''], ho_Unset = []\<rparr>,
      ap_Rows = [\<lparr>gr_Group = ''mask'', gr_Matches = 1, gr_Headers = 1, gr_Skipped = []\<rparr>], ap_BudgetSpent = False\<rparr>"
proof -
  have "Matches ascii_tables example_group 200 []" by (simp add: Matches_def typeAllowed_def example_group_def)
  then have "Apply ascii_tables [example_group] 200 [] (Some ''axb'') = apply_groups ascii_tables [example_group] (\<lambda>_. True) (Some ''axb'')"
    unfolding Apply_def by (intro apply_groups_cong) simp
  moreover have "ForPhase [example_group] False = [example_group]"
    by (simp add: ForPhase_def Group_OnFrame_def example_group_def OnFrame_def)
  ultimately show ?thesis using example_apply by simp
qed

lemma example_verdict: "\<exists>det. inspect example_handler 0 example_response =
    Inr ((plain example_response VerdictAllow CodeApplied)\<lparr>y_Headers := Some \<lparr>ho_Set = [''X-Masked'' \<mapsto> ''1''], ho_Unset = []\<rparr>,
      y_Rewrite := Some \<lparr>rw_Body = Some \<lparr>rb_Key = ''k:out'', rb_Size = 2, rb_SHA256 = hex_sha256 ''ab''\<rparr>,
        rw_Groups = [''mask'']\<rparr>\<rparr>, det, [(''k:out'', ''ab'', OutTTL)])"
proof -
  have status: "status_of example_response = 200" and U: "hd_unicode example_handler = ascii_tables"
    by (simp_all add: status_of_def example_response_def example_handler_def)
  obtain out det where out: "Apply ascii_tables [example_group] 200 [] (Some ''axb'') = Inr out"
    and run: "inspect example_handler 0 example_response = conclude example_handler 0 example_profile example_response out False (Some ''axb'') det"
    using enforced_response [OF example_selects example_enforces(2) example_profile_ok example_enforces(1) example_contentType example_body]
    unfolding status U by blast
  from out have "out = \<lparr>ap_Groups = [''mask''], ap_Body = Some ''ab'', ap_BodyChanged = True,
      ap_Headers = Some \<lparr>ho_Set = [''X-Masked'' \<mapsto> ''1''], ho_Unset = []\<rparr>,
      ap_Rows = [\<lparr>gr_Group = ''mask'', gr_Matches = 1, gr_Headers = 1, gr_Skipped = []\<rparr>], ap_BudgetSpent = False\<rparr>"
    by (simp add: example_Apply)
  then show ?thesis
    unfolding run
    using conclude_stored [OF example_enforces(1), of out example_response example_locator example_handler "\<lambda>_ _ _. None" 0 "Some ''axb''" det]
    by (simp add: example_response_def example_handler_def bytes_of_def example_locator_def OutSuffix_def)
qed

theorem announced_body_is_stored_witness:
  "\<exists>write body. hd_writer example_handler = Some write \<and> write ''k:out'' body 60000000000 = None \<and>
     hex_sha256 ''ab'' = hex_sha256 body"
proof -
  obtain det where "inspect example_handler 0 example_response =
    Inr ((plain example_response VerdictAllow CodeApplied)\<lparr>y_Headers := Some \<lparr>ho_Set = [''X-Masked'' \<mapsto> ''1''], ho_Unset = []\<rparr>,
      y_Rewrite := Some \<lparr>rw_Body = Some \<lparr>rb_Key = ''k:out'', rb_Size = 2, rb_SHA256 = hex_sha256 ''ab''\<rparr>,
        rw_Groups = [''mask'']\<rparr>\<rparr>, det, [(''k:out'', ''ab'', OutTTL)])"
    using example_verdict by blast
  from announced_body_is_stored [OF this] show ?thesis
    by (auto simp: verdict_defs example_response_def example_locator_def)
qed


lemma example_truncated:
  "Load (hd_loader example_handler) (s_Body (r_Store (example_response\<lparr>r_Store := zero_store\<lparr>s_Body := Some (example_locator\<lparr>l_Unavailable := ''too_big'', l_Driver := [], l_Key := []\<rparr>)\<rparr>\<rparr>))) =
   Inr (zero_body\<lparr>bo_Unavailable := ''too_big''\<rparr>)"
  by (simp add: Load_def)

lemma example_wanted: "bodyWanted ascii_tables [example_group] 200 []"
  by (simp add: bodyWanted_def HasBody_def Matches_def typeAllowed_def example_group_def)


text \<open>
  C6. In an enforcing profile, with the body at hand or not needed, the verdict on a response is allow
  and carries out exactly what applying the selected groups yields: nothing when no group applies, the
  header changes and the list of groups when the body did not change, and the new body under its own
  key when it did and the writer accepts it; without a writer or when it refuses, the response is denied.
\<close>

theorem enforced_response_result:
  assumes "selects h req p ask active" and "r_Phase req \<noteq> PhaseFrame" and "profile_ok U recomp p" and "p_Mode p = ''enforce''"
    and "contentType h req active = Inr ct" and "response_body h req active = Inr (BodyBytes raw)"
  shows "\<exists>out y det puts. Apply (hd_unicode h) active (status_of req) ct raw = Inr out \<and> inspect h elapsed req = Inr (y, det, puts) \<and>
    (if ap_Groups out = [] then y = plain req ''allow'' ''REWRITE_NOOP'' \<and> puts = []
     else if \<not> ap_BodyChanged out
     then y = (plain req ''allow'' ''REWRITE_APPLIED'')\<lparr>y_Headers := ap_Headers out, y_Rewrite := Some \<lparr>rw_Body = None, rw_Groups = ap_Groups out\<rparr>\<rparr> \<and> puts = []
     else (\<exists>loc. s_Body (r_Store req) = Some loc \<and>
       (case hd_writer h of
          None \<Rightarrow> y = (plain req ''deny'' ''REWRITE_STORE_ERROR'')\<lparr>y_Response := Some (p_DenyResponse p)\<rparr> \<and> puts = []
        | Some write \<Rightarrow> puts = [(l_Key loc @ OutSuffix, bytes_of (ap_Body out), OutTTL)] \<and>
            (if write (l_Key loc @ OutSuffix) (bytes_of (ap_Body out)) OutTTL = None
             then y = (plain req ''allow'' ''REWRITE_APPLIED'')\<lparr>y_Headers := ap_Headers out,
                    y_Rewrite := Some \<lparr>rw_Body = Some \<lparr>rb_Key = l_Key loc @ OutSuffix, rb_Size = int (length (bytes_of (ap_Body out))),
                      rb_SHA256 = hex_sha256 (bytes_of (ap_Body out))\<rparr>, rw_Groups = ap_Groups out\<rparr>\<rparr>
             else y = (plain req ''deny'' ''REWRITE_STORE_ERROR'')\<lparr>y_Response := Some (p_DenyResponse p)\<rparr>))))"
proof -
  from assms(4) have mode: "p_Mode p = ModeEnforce" by (simp add: mode_defs)
  obtain out det where out: "Apply (hd_unicode h) active (status_of req) ct raw = Inr out"
    and run: "inspect h elapsed req = conclude h elapsed p req out False raw det"
    using enforced_response [OF assms(1-3) mode assms(5,6), of elapsed] by blast
  have placed: "\<exists>loc. s_Body (r_Store req) = Some loc" if "ap_BodyChanged out"
  proof -
    have "raw \<noteq> None"
      using apply_groups_changed [OF selects_ops [OF assms(1,3)], of "hd_unicode h" _ raw] out that unfolding Apply_def by (metis sum.inject(2))
    with assms(6) show ?thesis
      by (auto simp: response_body_def rbind_Inr_iff split: if_splits dest: body_bytes_placed simp: bytes_state_def)
  qed
  have same: "(plain req v a)\<lparr>y_Reason := Some \<lparr>rn_Code = b, rn_Class = []\<rparr>\<rparr> = plain req v b" for v a b
    by (simp add: plain_def)
  note simps = conclude_def put_body_def deref_def attempted_def rewrite_body_def failPer_def Let_def mode_defs
    verdict_defs CodeNoop_def CodeApplied_def CodeStoreError_def same
  show ?thesis
  proof (cases "ap_Groups out = [] \<or> \<not> ap_BodyChanged out")
    case True
    with mode show ?thesis unfolding run
      by (intro exI [of _ out]) (auto simp: out simps)
  next
    case False
    then obtain loc where loc: "s_Body (r_Store req) = Some loc" using placed by blast
    with False mode out show ?thesis unfolding run
      by (intro exI [of _ out], cases "hd_writer h")
        (auto simp: simps split: option.split)
  qed
qed

theorem enforced_response_result_witness:
  "\<exists>out y det puts. Apply (hd_unicode example_handler) [example_group] (status_of example_response) [] (Some ''axb'') = Inr out
     \<and> inspect example_handler 0 example_response = Inr (y, det, puts)"
  using enforced_response_result [OF example_selects example_enforces(2) example_profile_ok _ example_contentType example_body, of 0]
    example_enforces(1) by (auto simp: mode_defs)

text \<open>
  C37. A received message has exactly one effect: an error reply on its reply subject, or one task
  handed to the pool, or nothing for a release notice. A task is handed over only for a well-formed
  request of a supported version in the response or frame phase.
\<close>

theorem receive_has_one_effect:
  assumes "reply \<noteq> []" and "range_order (hd_order h)"
  shows "(\<exists>y. wd_published (receive h reply data w) = wd_published w @ [(reply, encodeReply y)] \<and>
      wd_submitted (receive h reply data w) = wd_submitted w \<and> y_Verdict y = ''error'' \<and> y_Reason y \<noteq> None)
    \<or> (\<exists>req. receive h reply data w = w\<lparr>wd_submitted := wd_submitted w @
          [\<lparr>t_Req = req, t_Reply = reply, t_Personal = False, t_enqueued = 0\<rparr>]\<rparr> \<and>
        decodeRequest data = Some req \<and> request_ok req \<and> r_Phase req \<in> {''response'', ''frame''} \<and>
        r_Release req = None \<and> r_V req \<in> set (cf_Versions (hd_cfg h)))
    \<or> (receive h reply data w = w \<and> (\<exists>req. decodeRequest data = Some req \<and> request_ok req \<and> r_Release req \<noteq> None))"
proof (cases "Parse (hd_order h) data")
  case (Inl e)
  have "wd_published (receive h reply data w) = wd_published w @
      [(reply, encodeReply (FallbackReply (pe_RID e) (cf_Name (hd_cfg h)) CodeMalformedRequest))]"
    by (simp add: receive_def recoverInto_def Inl send_reply_publishes [OF assms(1)])
  then show ?thesis
    by (intro disjI1 exI [of _ "FallbackReply (pe_RID e) (cf_Name (hd_cfg h)) CodeMalformedRequest"])
      (simp add: receive_def recoverInto_def Inl verdict_defs [symmetric] VerdictError_def [symmetric])
next
  case (Inr req)
  then have req: "decodeRequest data = Some req" "request_ok req" by (simp_all add: Parse_Inr_iff [OF assms(2)])
  have supp: "Supports (hd_cfg h) (r_V req) \<longleftrightarrow> r_V req \<in> set (cf_Versions (hd_cfg h))"
    by (auto simp: Supports_def list_ex_iff)
  note run = receive_def recoverInto_def Inr
  consider (version) "\<not> Supports (hd_cfg h) (r_V req)"
    | (release) "Supports (hd_cfg h) (r_V req)" "r_Release req \<noteq> None"
    | (phase) "Supports (hd_cfg h) (r_V req)" "r_Release req = None" "r_Phase req \<noteq> PhaseResponse \<and> r_Phase req \<noteq> PhaseFrame"
    | (task) "Supports (hd_cfg h) (r_V req)" "r_Release req = None" "r_Phase req = PhaseResponse \<or> r_Phase req = PhaseFrame"
    by blast
  then show ?thesis
  proof cases
    case version
    then show ?thesis
      by (intro disjI1 exI [of _ "(ErrorReply req CodeUnsupportedVersion)\<lparr>y_V := Version\<rparr>"])
        (simp add: run send_reply_publishes [OF assms(1)] VerdictError_def)
  next
    case release
    then show ?thesis using req by (intro disjI2) (simp add: run)
  next
    case phase
    then show ?thesis
      by (intro disjI1 exI [of _ "ErrorReply req CodePhaseNotSupported"])
        (simp add: run send_reply_publishes [OF assms(1)] VerdictError_def)
  next
    case task
    then show ?thesis using req supp
      by (intro disjI2 disjI1 exI [of _ req]) (auto simp: run phase_defs)
  qed
qed

theorem receive_has_one_effect_witness:
  "wd_published (receive example_handler ''r'' ''{}'' example_world) = []
    \<or> (\<exists>y. wd_published (receive example_handler ''r'' ''{}'' example_world) = [(''r'', encodeReply y)])"
  using receive_has_one_effect [of "''r''" example_handler "''{}''" example_world]
  by (auto simp: example_world_def range_order_def example_handler_def)

end
