(* ===== verification/QueueDrain.thy ===== *)
theory QueueDrain
  imports Queue
begin

text \<open>
  The shutdown of the pool (src/internal/queue): once \<open>Close\<close> has closed the channel and set the flag,
  every turn of a thread that has something left to do brings the pool closer to the end, so that a
  bounded number of turns answers every task that was ever submitted. The bound counts the steps that
  are left for each program counter and four for each queued task.
\<close>

section \<open>The work that is left\<close>

fun turns_left :: "pc \<Rightarrow> nat" where
  "turns_left Ready = 0"
| "turns_left (Submit1 t) = 5"
| "turns_left (Submit2 t) = 4"
| "turns_left (SubDead ds t) = length ds + 3"
| "turns_left (Submit3 t) = 2"
| "turns_left (SubExpire t left) = 1"
| "turns_left (SubShed t) = 1"
| "turns_left (SubWait t due timedOut) = (if timedOut then 2 else 3)"
| "turns_left (SubWaitDead ds t due timedOut) = length ds + (if timedOut then 3 else 4)"
| "turns_left WPop = 2"
| "turns_left (WDead ds t ok) = length ds + (if \<not> ok then 1 else case t of None \<Rightarrow> 3 | Some _ \<Rightarrow> 5)"
| "turns_left (WBudget t) = 4"
| "turns_left (WRun t b shed) = 3"
| "turns_left WDone = 0"
| "turns_left SwIdle = 1"
| "turns_left (SwDead ds) = length ds + 2"
| "turns_left SwDone = 0"

definition work_left :: "sys \<Rightarrow> nat" where
  "work_left s = 4 * Queued (sy_pool s) + sum_list (map turns_left (sy_threads s))"

definition closing :: "sys \<Rightarrow> bool" where
  "closing s \<longleftrightarrow> q_closed (sy_pool s) \<and> q_stop (sy_pool s)"

lemma sum_list_replace:
  "i < length xs \<Longrightarrow> sum_list (map f (xs[i := y])) + f (xs ! i) = sum_list (map f xs) + (f y :: nat)"
  by (induction xs arbitrary: i) (auto split: nat.split simp: nth_Cons')

lemma takeExpired_length:
  "takeExpiredLocked p now = (p', dead) \<Longrightarrow> length (q_q p) = length (q_q p') + length dead \<and> p' = p\<lparr>q_q := q_q p'\<rparr>"
  using takeExpired_split [of p now p' dead] by (metis mset_append size_mset length_append)

lemma popLocked_closed:
  assumes "popLocked p now = (p', r)" and "q_closed p"
  shows "\<exists>t dead ok. r = Some (t, dead, ok) \<and> q_closed p' \<and> q_stop p' = q_stop p \<and> (ok \<longleftrightarrow> t \<noteq> None) \<and>
    length (q_q p) = length (q_q p') + length dead + (if t = None then 0 else 1)"
proof -
  obtain p1 dead where t: "takeExpiredLocked p now = (p1, dead)" by fastforce
  from takeExpired_length [OF t] have "q_closed p1" "q_stop p1 = q_stop p" and len: "length (q_q p) = length (q_q p1) + length dead"
    using assms(2) by (metis Pool.select_convs(3,4) Pool.surjective Pool.update_convs(1))+
  with assms(1) t show ?thesis by (cases "q_q p1") (auto simp: popLocked_def)
qed

lemma note_same [simp]:
  "work_left (note_accept t d s) = work_left s" "closing (note_accept t d s) = closing s"
  "work_left (note_pop x s) = work_left s" "closing (note_pop x s) = closing s"
  by (simp_all add: work_left_def closing_def note_accept_def note_pop_def split: option.split)

text \<open>A step that moves thread \<open>i\<close> on: it must cost less than the thread and the queue give up.\<close>

lemma work_left_goto:
  assumes "i < length (sy_threads s)" and "sy_threads s' = sy_threads s"
    and "4 * length (q_q (sy_pool s')) + turns_left pc < 4 * length (q_q (sy_pool s)) + turns_left (sy_threads s ! i)"
    and "q_closed (sy_pool s')" and "q_stop (sy_pool s')"
  shows "work_left (goto s' i pc) < work_left s \<and> closing (goto s' i pc)"
  using sum_list_replace [OF assms(1), of turns_left pc] assms(2-5)
  by (simp add: work_left_def goto_def Queued_def closing_def)

text \<open>One turn after the close: less work, and the pool stays closed.\<close>

lemma exec_pc_closing:
  assumes closing: "closing s" and i: "i < length (sy_threads s)" and pc: "sy_threads s ! i = pc"
    and busy: "pc \<notin> {Ready, WDone, SwDone}"
  shows "work_left (exec_pc i now pc s) < work_left s \<and> closing (exec_pc i now pc s)"
proof -
  have flags: "q_closed (sy_pool s)" "q_stop (sy_pool s)" using closing by (simp_all add: closing_def)
  note move = work_left_goto [OF i, unfolded pc]
  have take: "\<exists>p dead. takeExpiredLocked (sy_pool s) now = (p, dead) \<and> length (q_q (sy_pool s)) = length (q_q p) + length dead \<and>
      q_closed p \<and> q_stop p"
    using takeExpired_length [of "sy_pool s" now] flags
    by (metis Pool.select_convs(3,4) Pool.surjective Pool.update_convs(1) prod.collapse)
  have leave: "waitLocked (sy_pool s) t timedOut now = (sy_pool s, Leave (ExpireWith 0))" for t timedOut
    using flags by (simp add: waitLocked_def)
  have sub: "submitLocked (sy_pool s) t now = (sy_pool s, ExpireWith 0)" for t
    using flags by (simp add: submitLocked_def)
  show ?thesis
  proof (cases pc)
    case (Submit1 t)
    then show ?thesis using move [of s] flags by simp
  next
    case (Submit2 t)
    with take move [of "s\<lparr>sy_pool := _\<rparr>"] show ?thesis by force
  next
    case (SubDead ds t)
    then show ?thesis using move [of s] move [of "expire (hd ds) 0 s"] flags by (cases ds) (auto simp: expire_def)
  next
    case (Submit3 t)
    then show ?thesis using move [of s] flags by (simp add: sub decide_pc_def)
  next
    case (SubExpire t left)
    then show ?thesis using move [of "expire t left s"] flags by (simp add: expire_def)
  next
    case (SubShed t)
    then show ?thesis using move [of "shedLimit t s"] flags by (simp add: shedLimit_def)
  next
    case (SubWait t due timedOut)
    then show ?thesis using move [of s] flags by (simp add: leave decide_pc_def)
  next
    case (SubWaitDead ds t due timedOut)
    then show ?thesis using move [of s] move [of "expire (hd ds) 0 s"] flags by (cases ds) (auto simp: expire_def)
  next
    case WPop
    obtain p r where pop: "popLocked (sy_pool s) now = (p, r)" by fastforce
    with popLocked_closed [OF pop flags(1)] obtain t dead ok where
      r: "popLocked (sy_pool s) now = (p, Some (t, dead, ok))" "q_closed p" "q_stop p" "ok \<longleftrightarrow> t \<noteq> None"
      "length (q_q (sy_pool s)) = length (q_q p) + length dead + (if t = None then 0 else 1)" using flags(2) by auto
    with WPop show ?thesis using move [of "s\<lparr>sy_pool := p\<rparr>" "WDead dead t ok"] by (cases t) auto
  next
    case (WDead ds t ok)
    then show ?thesis using move [of s] move [of "expire (hd ds) 0 s"] flags
      by (cases ds; cases ok; cases t) (auto simp: expire_def)
  next
    case (WBudget t)
    then show ?thesis using flags move [of "s\<lparr>sy_pool := (sy_pool s)\<lparr>q_Expired := q_Expired (sy_pool s) + 1\<rparr>\<rparr>"] move [of "s\<lparr>sy_pool := sy_pool s\<rparr>"]
      by (auto simp: Pool_budget_def Let_def)
  next
    case (WRun t b shed)
    then show ?thesis using move [of "call_handler t b shed s"] flags by (simp add: call_handler_def)
  next
    case SwIdle
    then show ?thesis using move [of s] flags by simp
  next
    case (SwDead ds)
    then show ?thesis using move [of s] move [of "expire (hd ds) 0 s"] flags by (cases ds) (auto simp: expire_def)
  qed (use busy in auto)
qed

section \<open>Draining\<close>

fun is_worker :: "pc \<Rightarrow> bool" where
  "is_worker WPop = True"
| "is_worker (WDead ds t ok) = True"
| "is_worker (WBudget t) = True"
| "is_worker (WRun t b shed) = True"
| "is_worker WDone = True"
| "is_worker _ = False"

text \<open>A turn moves one thread, which stays a worker or not, and submits nothing.\<close>

lemma exec_pc_kind:
  assumes "i < length (sy_threads s)" and "sy_threads s ! i = pc"
  shows "\<exists>pc'. sy_threads (exec_pc i now pc s) = (sy_threads s)[i := pc'] \<and> is_worker pc' = is_worker pc \<and>
    sy_submitted (exec_pc i now pc s) = sy_submitted s \<and> sy_now (exec_pc i now pc s) = sy_now s"
proof -
  have same: "\<exists>pc'. sy_threads s = (sy_threads s)[i := pc'] \<and> is_worker pc' = is_worker pc"
    using assms by (intro exI [of _ pc]) auto
  show ?thesis
    by (cases "(i, now, pc, s)" rule: exec_pc.cases)
      (use same in \<open>auto simp: sys_defs decide_pc_def split: prod.split option.split wait_turn.split decision.split\<close>)
qed

lemma worker_kept:
  "i < length xs \<Longrightarrow> is_worker y = is_worker (xs ! i) \<Longrightarrow> \<exists>pc\<in>set xs. is_worker pc \<Longrightarrow> \<exists>pc\<in>set (xs[i := y]). is_worker pc"
  by (metis in_set_conv_nth length_list_update nth_list_update_eq nth_list_update_neq)

lemma exec_turn_busy:
  assumes "closing s" and "i < length (sy_threads s)" and "sy_now s \<le> now" and "sy_threads s ! i \<notin> {Ready, WDone, SwDone}"
  shows "work_left (exec (Turn i now) s) < work_left s" and "closing (exec (Turn i now) s)"
    and "sy_submitted (exec (Turn i now) s) = sy_submitted s" and "sy_now (exec (Turn i now) s) = now"
    and "\<exists>pc\<in>set (sy_threads s). is_worker pc \<Longrightarrow> \<exists>pc\<in>set (sy_threads (exec (Turn i now) s)). is_worker pc"
proof -
  let ?s = "s\<lparr>sy_now := now\<rparr>"
  have run: "exec (Turn i now) s = exec_pc i now (sy_threads s ! i) ?s" using assms by simp
  have "work_left ?s = work_left s" "closing ?s" using assms(1) by (simp_all add: work_left_def closing_def)
  with exec_pc_closing [of ?s i _ now] assms(2,4) show "work_left (exec (Turn i now) s) < work_left s" "closing (exec (Turn i now) s)"
    unfolding run by simp_all
  obtain pc' where "sy_threads (exec (Turn i now) s) = (sy_threads s)[i := pc']" "is_worker pc' = is_worker (sy_threads s ! i)"
    and rest: "sy_submitted (exec (Turn i now) s) = sy_submitted s" "sy_now (exec (Turn i now) s) = now"
    using exec_pc_kind [of i ?s "sy_threads s ! i" now] assms(2) unfolding run by auto
  then show "\<exists>pc\<in>set (sy_threads (exec (Turn i now) s)). is_worker pc" if "\<exists>pc\<in>set (sy_threads s). is_worker pc"
    using worker_kept [OF assms(2) _ that] by simp
  show "sy_submitted (exec (Turn i now) s) = sy_submitted s" "sy_now (exec (Turn i now) s) = now" by (fact rest)+
qed

lemma drains:
  "closing s \<Longrightarrow> \<exists>pc\<in>set (sy_threads s). is_worker pc \<Longrightarrow>
   \<exists>as. length as \<le> work_left s \<and> (\<forall>a\<in>set as. \<exists>i. a = Turn i (sy_now s)) \<and>
     set (sy_threads (fold exec as s)) \<subseteq> {Ready, WDone, SwDone} \<and> WDone \<in> set (sy_threads (fold exec as s)) \<and>
     sy_submitted (fold exec as s) = sy_submitted s"
proof (induction "work_left s" arbitrary: s rule: less_induct)
  case less
  show ?case
  proof (cases "set (sy_threads s) \<subseteq> {Ready, WDone, SwDone}")
    case True
    with less.prems(2) have "WDone \<in> set (sy_threads s)" by auto
    with True show ?thesis by (intro exI [of _ "[]"]) simp
  next
    case False
    then obtain i where i: "i < length (sy_threads s)" "sy_threads s ! i \<notin> {Ready, WDone, SwDone}"
      by (metis in_set_conv_nth subsetI)
    let ?a = "Turn i (sy_now s)"
    note turn = exec_turn_busy [OF less.prems(1) i(1) order_refl i(2)]
    obtain as where as: "length as \<le> work_left (exec ?a s)" "\<forall>a\<in>set as. \<exists>i. a = Turn i (sy_now s)"
      "set (sy_threads (fold exec as (exec ?a s))) \<subseteq> {Ready, WDone, SwDone}" "WDone \<in> set (sy_threads (fold exec as (exec ?a s)))"
      "sy_submitted (fold exec as (exec ?a s)) = sy_submitted s"
      using less.hyps [OF turn(1,2) turn(5) [OF less.prems(2)]] turn(3,4) by metis
    have "length (?a # as) \<le> work_left s" using as(1) turn(1) by simp
    then show ?thesis using as(2-5) by (intro exI [of _ "?a # as"]) simp
  qed
qed


definition closing_run :: sys where
  "closing_run = fold exec [Deliver 2 10 example_task, Turn 2 20, CloseStop, CloseFlag] (start 1 1 4 5 3 ''drop'')"

lemma closing_run_state:
  "sy_threads closing_run = [WPop, SwIdle, Submit2 (example_task\<lparr>t_enqueued := 10\<rparr>)]" "q_q (sy_pool closing_run) = []"
  "q_closed (sy_pool closing_run)" "q_stop (sy_pool closing_run)"
  by (simp_all add: closing_run_def start_def sys_defs Pool_New_def overdue_def example_left wrap64_id int64_def Millisecond_def)


end
