(* ===== verification/Desired.thy ===== *)
theory Desired
  imports ProfileStore JsonCodec
begin

text \<open>
  The desired state (src/internal/desired): manifests with profiles and settings arrive from a
  key-value bucket, are checked, written to a staging directory, swapped into place and loaded; when
  anything fails the previous generation is put back. The parser of log levels is an argument. The map of profiles is a list of pairs with distinct names; \<open>ord\<close> is the order in
  which it is ranged over.
\<close>

section \<open>Manifests\<close>

definition DefaultProfile :: string where "DefaultProfile = ''default''"
definition ApplyOK :: string where "ApplyOK = ''ok''"
definition ApplyFailed :: string where "ApplyFailed = ''apply_failed''"
definition treeDir :: string where "treeDir = ''profiles''"

record ManifestFile =
  f_Name :: string
  f_Text :: bytes

record ManifestProfile =
  mp_Files :: "ManifestFile list"

record Settings =
  se_LogLevel :: string
  se_level :: int

type_synonym profile_order = "(string \<times> ManifestProfile) list \<Rightarrow> (string \<times> ManifestProfile) list"

record Manifest =
  m_V :: int
  m_Rev :: int
  m_ConfigHash :: string
  m_Profiles :: "(string \<times> ManifestProfile) list"
  m_Settings :: "Settings option"

text \<open>The JSON form of a manifest; the field \<open>level\<close> of the settings is not exported and has none.\<close>

definition File_fields :: "ManifestFile field list" where
  "File_fields = [read_fld ''name'' dec_string f_Name f_Name_update, read_fld ''text'' dec_string f_Text f_Text_update]"

definition Profile_fields :: "ManifestProfile field list" where
  "Profile_fields = [read_fld ''files'' (dec_slice (dec_struct File_fields) \<lparr>f_Name = [], f_Text = []\<rparr>) mp_Files mp_Files_update]"

definition Settings_fields :: "Settings field list" where
  "Settings_fields = [read_fld ''log_level'' dec_string se_LogLevel se_LogLevel_update]"

definition Manifest_fields :: "Manifest field list" where
  "Manifest_fields =
     [read_fld ''v'' dec_int m_V m_V_update,
      read_fld ''rev'' dec_int m_Rev m_Rev_update,
      read_fld ''config_hash'' dec_string m_ConfigHash m_ConfigHash_update,
      read_fld ''profiles'' (dec_assoc (dec_struct Profile_fields) \<lparr>mp_Files = []\<rparr>) m_Profiles m_Profiles_update,
      read_fld ''settings'' (dec_ptr (dec_struct Settings_fields) \<lparr>se_LogLevel = [], se_level = 0\<rparr>) m_Settings m_Settings_update]"

definition zero_Manifest :: Manifest where
  "zero_Manifest = \<lparr>m_V = 0, m_Rev = 0, m_ConfigHash = [], m_Profiles = [], m_Settings = None\<rparr>"

definition decodeManifest :: "bytes \<Rightarrow> Manifest option" where
  "decodeManifest = Unmarshal (dec_struct Manifest_fields) zero_Manifest"

datatype manifest_err =
    InvalidJSON | UnsupportedV int | BadRev | DefaultProfileMissing | EmptyProfile string
  | BadFileName string string | BadProfileName string | BadLogLevel string | HashMismatch string string

definition Settings_validate :: "(string \<Rightarrow> int option) \<Rightarrow> Settings option \<Rightarrow> manifest_err + Settings option" where
  "Settings_validate parseLevel s =
     (case s of
        None \<Rightarrow> Inr None
      | Some s \<Rightarrow>
          (case parseLevel (se_LogLevel s) of
             None \<Rightarrow> Inl (BadLogLevel (se_LogLevel s))
           | Some level \<Rightarrow> Inr (Some (s\<lparr>se_level := level\<rparr>))))"

text \<open>What the hash is computed over.\<close>

definition nul :: "bytes \<Rightarrow> bytes" where
  "nul s = s @ [CHR 0x00]"

definition settings_bytes :: "Settings option \<Rightarrow> bytes" where
  "settings_bytes s =
     (case s of None \<Rightarrow> [] | Some s \<Rightarrow> nul ''settings'' @ nul ''log_level'' @ nul (se_LogLevel s))"

definition profile_bytes :: "string \<Rightarrow> ManifestProfile \<Rightarrow> bytes" where
  "profile_bytes name p = nul name @ concat (map (\<lambda>f. nul (f_Name f) @ nul (f_Text f)) (mp_Files p))"

definition hash_input :: "(string \<times> ManifestProfile) list \<Rightarrow> Settings option \<Rightarrow> bytes" where
  "hash_input profiles settings =
     concat (map (\<lambda>name. profile_bytes name (the (map_of profiles name))) (sort (map fst profiles)))
     @ settings_bytes settings"

definition HashWith :: "(string \<times> ManifestProfile) list \<Rightarrow> Settings option \<Rightarrow> string" where
  "HashWith profiles settings = ''sha256:'' @ hex_sha256 (hash_input profiles settings)"

definition Manifest_Names :: "Manifest \<Rightarrow> string list" where
  "Manifest_Names m = sort (map fst (m_Profiles m))"

definition file_error :: "string \<Rightarrow> ManifestFile \<Rightarrow> manifest_err option" where
  "file_error name f =
     (if f_Name f = [] \<or> ContainsAny (f_Name f) [CHR ''/'', CHR 0x5C] \<or> f_Name f = ''.'' \<or> f_Name f = ''..''
      then Some (BadFileName name (f_Name f)) else None)"

definition profile_error :: "string \<times> ManifestProfile \<Rightarrow> manifest_err option" where
  "profile_error = (\<lambda>(name, p).
     if name = [] \<or> mp_Files p = [] then Some (EmptyProfile name)
     else (case List.map_filter (file_error name) (mp_Files p) of
         e # _ \<Rightarrow> Some e
       | [] \<Rightarrow> if name = ''.'' \<or> name = ''..'' \<or> ContainsAny name [CHR ''/'', CHR 0x5C]
               then Some (BadProfileName name) else None))"

definition Manifest_Parse ::
  "profile_order \<Rightarrow> (string \<Rightarrow> int option) \<Rightarrow> bytes \<Rightarrow> manifest_err + Manifest" where
  "Manifest_Parse ord parseLevel raw =
     (case decodeManifest raw of
        None \<Rightarrow> Inl InvalidJSON
      | Some m \<Rightarrow>
          if m_V m \<noteq> 1 then Inl (UnsupportedV (m_V m))
          else if m_Rev m < 1 then Inl BadRev
          else if map_of (m_Profiles m) DefaultProfile = None then Inl DefaultProfileMissing
          else (case List.map_filter profile_error (ord (m_Profiles m)) of
              e # _ \<Rightarrow> Inl e
            | [] \<Rightarrow>
                rbind (Settings_validate parseLevel (m_Settings m)) (\<lambda>settings.
                  let got = HashWith (m_Profiles m) settings in
                  if m_ConfigHash m \<noteq> [] \<and> m_ConfigHash m \<noteq> got then Inl (HashMismatch got (m_ConfigHash m))
                  else Inr (m\<lparr>m_Settings := settings, m_ConfigHash := got\<rparr>))))"

section \<open>Writing and applying\<close>

fun write_files :: "path \<Rightarrow> ManifestFile list \<Rightarrow> disk \<Rightarrow> disk \<times> os_err option" where
  "write_files sub [] d = (d, None)"
| "write_files sub (f # fs) d =
     (case WriteFile (Join sub (f_Name f)) (f_Text f) d of
        (d, Some e) \<Rightarrow> (d, Some e)
      | (d, None) \<Rightarrow> write_files sub fs d)"

fun write_profiles :: "path \<Rightarrow> (string \<times> ManifestProfile) list \<Rightarrow> disk \<Rightarrow> disk \<times> os_err option" where
  "write_profiles dir [] d = (d, None)"
| "write_profiles dir ((name, p) # ps) d =
     (case MkdirAll (Join dir name) d of
        (d, Some e) \<Rightarrow> (d, Some e)
      | (d, None) \<Rightarrow>
          (case write_files (Join dir name) (mp_Files p) d of
             (d, Some e) \<Rightarrow> (d, Some e)
           | (d, None) \<Rightarrow> write_profiles dir ps d))"

definition write_tree :: "profile_order \<Rightarrow> path \<Rightarrow> Manifest \<Rightarrow> disk \<Rightarrow> disk \<times> os_err option" where
  "write_tree ord dir m d =
     (case MkdirAll dir d of
        (d, Some e) \<Rightarrow> (d, Some e)
      | (d, None) \<Rightarrow> write_profiles dir (ord (m_Profiles m)) d)"

datatype apply_err = DataDirErr os_err | WriteErr os_err | ParkErr os_err | PromoteErr os_err | ReloadErr read_err

type_synonym 's reload = "path \<Rightarrow> 's \<Rightarrow> disk \<Rightarrow> disk \<times> 's \<times> read_err fault option"

text \<open>
  The second half of \<open>Apply\<close>, from the promotion of the staging directory on; \<open>lived\<close> tells whether
  there was a generation to park. \<open>reload\<close> is the store's \<open>ReloadFrom\<close>; results that the code ignores
  are ignored here.
\<close>

definition restore :: "'s reload \<Rightarrow> path \<Rightarrow> path \<Rightarrow> 's \<Rightarrow> read_err \<Rightarrow> disk \<Rightarrow> disk \<times> 's \<times> apply_err fault option" where
  "restore reload prev live s e d =
     (case Rename prev live d of
        (d, Some _) \<Rightarrow> (d, s, Some (Fails (ReloadErr e)))
      | (d, None) \<Rightarrow>
          (case reload live s d of
             (d, s, Some (Panics p)) \<Rightarrow> (d, s, Some (Panics p))
           | (d, s, _) \<Rightarrow> (d, s, Some (Fails (ReloadErr e)))))"

definition promote ::
  "'s reload \<Rightarrow> bool \<Rightarrow> path \<Rightarrow> path \<Rightarrow> path \<Rightarrow> 's \<Rightarrow> disk \<Rightarrow> disk \<times> 's \<times> apply_err fault option" where
  "promote reload lived staging prev live s d =
     (case Rename staging live d of
        (d, Some e) \<Rightarrow>
          (let d = (if lived then fst (Rename prev live d) else d)
           in (fst (RemoveAll staging d), s, Some (Fails (PromoteErr e))))
      | (d, None) \<Rightarrow>
          (case reload live s d of
             (d, s, None) \<Rightarrow> (fst (RemoveAll prev d), s, None)
           | (d, s, Some (Panics p)) \<Rightarrow> (d, s, Some (Panics p))
           | (d, s, Some (Fails e)) \<Rightarrow>
               (let d = fst (RemoveAll live d)
                in if lived then restore reload prev live s e d else (d, s, Some (Fails (ReloadErr e))))))"

definition Manifest_Apply ::
  "'s reload \<Rightarrow> profile_order \<Rightarrow> 's \<Rightarrow> path \<Rightarrow> Manifest \<Rightarrow> disk \<Rightarrow> disk \<times> 's \<times> apply_err fault option" where
  "Manifest_Apply reload ord s dataDir m d =
     (case MkdirAll dataDir d of
        (d, Some e) \<Rightarrow> (d, s, Some (Fails (DataDirErr e)))
      | (d, None) \<Rightarrow>
          (let staging = Join dataDir ''.next''; prev = Join dataDir ''.prev''; live = Join dataDir treeDir;
               d = fst (RemoveAll staging d) in
           case write_tree ord staging m d of
             (d, Some e) \<Rightarrow> (fst (RemoveAll staging d), s, Some (Fails (WriteErr e)))
           | (d, None) \<Rightarrow>
               (let d = fst (RemoveAll prev d) in
                case Rename live prev d of
                  (d, None) \<Rightarrow> promote reload True staging prev live s d
                | (d, Some NotExist) \<Rightarrow> promote reload False staging prev live s d
                | (d, Some e) \<Rightarrow> (fst (RemoveAll staging d), s, Some (Fails (ParkErr e))))))"

section \<open>The watcher\<close>

record Applied =
  a_hash :: string
  a_rev :: int
  a_apply :: string
  a_names :: "string list"

definition Applied_Snapshot :: "Applied option \<Rightarrow> string \<times> int \<times> string \<times> string list" where
  "Applied_Snapshot a =
     (case a of None \<Rightarrow> ([], 0, [], []) | Some a \<Rightarrow> (a_hash a, a_rev a, a_apply a, a_names a))"

definition Applied_set :: "string \<Rightarrow> int \<Rightarrow> string \<Rightarrow> string list \<Rightarrow> Applied \<Rightarrow> Applied" where
  "Applied_set hash revn apl names a = a\<lparr>a_hash := hash, a_rev := revn, a_apply := apl, a_names := names\<rparr>"

definition Settings_apply :: "Settings option \<Rightarrow> int \<Rightarrow> int" where
  "Settings_apply s level = (case s of None \<Rightarrow> level | Some s \<Rightarrow> if level = se_level s then level else se_level s)"

text \<open>An update of the bucket: the marker after the initial values, a deletion, or a value.\<close>

datatype kv_entry = NoEntry | Deleted | Value bytes

record 's watcher =
  wt_applied :: Applied
  wt_store :: 's
  wt_level :: int
  wt_disk :: disk

definition watch_start :: "'s \<Rightarrow> int \<Rightarrow> disk \<Rightarrow> 's watcher" where
  "watch_start s level d =
     \<lparr>wt_applied = \<lparr>a_hash = [], a_rev = 0, a_apply = [], a_names = []\<rparr>, wt_store = s, wt_level = level, wt_disk = d\<rparr>"

text \<open>One turn of the loop of \<open>Watch\<close>; a panic is not recovered and ends the process.\<close>

definition watch_value ::
  "'s reload \<Rightarrow> profile_order \<Rightarrow> path \<Rightarrow> Manifest \<Rightarrow> 's watcher \<Rightarrow> panic + 's watcher" where
  "watch_value reload ord dataDir m w =
     (case Applied_Snapshot (Some (wt_applied w)) of
        (hash, revn, apl, names) \<Rightarrow>
          if apl = ApplyOK \<and> hash = m_ConfigHash m \<and> revn = m_Rev m then Inr w
          else (case Manifest_Apply reload ord (wt_store w) dataDir m (wt_disk w) of
              (d, s, Some (Panics p)) \<Rightarrow> Inl p
            | (d, s, Some (Fails e)) \<Rightarrow>
                Inr (w\<lparr>wt_store := s, wt_disk := d, wt_applied := Applied_set hash revn ApplyFailed names (wt_applied w)\<rparr>)
            | (d, s, None) \<Rightarrow>
                Inr (w\<lparr>wt_store := s, wt_disk := d,
                       wt_applied := Applied_set (m_ConfigHash m) (m_Rev m) ApplyOK (Manifest_Names m) (wt_applied w),
                       wt_level := Settings_apply (m_Settings m) (wt_level w)\<rparr>)))"

definition watch_entry ::
  "'s reload \<Rightarrow> profile_order \<Rightarrow> (string \<Rightarrow> int option) \<Rightarrow> path \<Rightarrow> kv_entry \<Rightarrow>
   's watcher \<Rightarrow> panic + 's watcher" where
  "watch_entry reload ord parseLevel dataDir e w =
     (case e of
        NoEntry \<Rightarrow> Inr w
      | Deleted \<Rightarrow> Inr w
      | Value raw \<Rightarrow>
          (case Manifest_Parse ord parseLevel raw of
             Inl _ \<Rightarrow> Inr w
           | Inr m \<Rightarrow> watch_value reload ord dataDir m w))"

section \<open>Start\<close>

text \<open>The data directory as a path; \<open>None\<close> is the empty string.\<close>

definition Bootstrap :: "'s reload \<Rightarrow> path option \<Rightarrow> 's \<Rightarrow> disk \<Rightarrow> disk \<times> 's \<times> (panic + bool)" where
  "Bootstrap reload dataDir s d =
     (case dataDir of
        None \<Rightarrow> (d, s, Inr False)
      | Some dataDir \<Rightarrow>
          (let live = Join dataDir treeDir in
           case Stat (Join (Join live DefaultProfile) ''profile.yaml'') d of
             (d, Inl _) \<Rightarrow> (d, s, Inr False)
           | (d, Inr _) \<Rightarrow>
               (case reload live s d of
                  (d, s, Some (Panics p)) \<Rightarrow> (d, s, Inl p)
                | (d, s, Some (Fails _)) \<Rightarrow> (d, s, Inr False)
                | (d, s, None) \<Rightarrow> (d, s, Inr True))))"

section \<open>Safe manifests\<close>

text \<open>What \<open>Parse\<close> promises of the names: each is one component of a path, and no profile is empty.\<close>

definition names_ok :: "(string \<times> ManifestProfile) list \<Rightarrow> bool" where
  "names_ok ps \<longleftrightarrow> (\<forall>(name, p)\<in>set ps. plain_name name \<and> CHR 0x5C \<notin> set name \<and> mp_Files p \<noteq> [] \<and>
     (\<forall>f\<in>set (mp_Files p). plain_name (f_Name f) \<and> CHR 0x5C \<notin> set (f_Name f)))"

lemma map_filter_Nil_iff: "List.map_filter f xs = [] \<longleftrightarrow> (\<forall>x\<in>set xs. f x = None)"
  by (induction xs) (auto simp: List.map_filter_simps split: option.split)

lemma ContainsAny_slashes: "ContainsAny s [CHR ''/'', CHR 0x5C] \<longleftrightarrow> CHR ''/'' \<in> set s \<or> CHR 0x5C \<in> set s"
  by (auto simp: ContainsAny_def list_ex_iff)

lemma file_error_None_iff: "file_error name f = None \<longleftrightarrow> plain_name (f_Name f) \<and> CHR 0x5C \<notin> set (f_Name f)"
  by (auto simp: file_error_def plain_name_def ContainsAny_slashes)

lemma profile_error_None_iff:
  "profile_error (name, p) = None \<longleftrightarrow> plain_name name \<and> CHR 0x5C \<notin> set name \<and> mp_Files p \<noteq> [] \<and>
     (\<forall>f\<in>set (mp_Files p). plain_name (f_Name f) \<and> CHR 0x5C \<notin> set (f_Name f))"
proof (cases "List.map_filter (file_error name) (mp_Files p)")
  case Nil
  then have "\<forall>f\<in>set (mp_Files p). plain_name (f_Name f) \<and> CHR 0x5C \<notin> set (f_Name f)"
    by (simp add: map_filter_Nil_iff file_error_None_iff)
  with Nil show ?thesis by (simp add: profile_error_def ContainsAny_slashes) (auto simp: plain_name_def)
next
  case (Cons e es)
  then have "\<not> (\<forall>f\<in>set (mp_Files p). plain_name (f_Name f) \<and> CHR 0x5C \<notin> set (f_Name f))"
    by (metis file_error_None_iff list.distinct(1) map_filter_Nil_iff)
  with Cons show ?thesis by (simp add: profile_error_def)
qed

lemma profile_errors_iff: "range_order ord \<Longrightarrow> List.map_filter profile_error (ord ps) = [] \<longleftrightarrow> names_ok ps"
  by (auto simp: map_filter_Nil_iff range_order_set names_ok_def profile_error_None_iff)

lemma Manifest_Parse_Inr:
  assumes "range_order ord"
  shows "Manifest_Parse ord parseLevel raw = Inr m \<longleftrightarrow>
    (\<exists>m0 settings. decodeManifest raw = Some m0 \<and> m_V m0 = 1 \<and> 1 \<le> m_Rev m0 \<and> DefaultProfile \<in> fst ` set (m_Profiles m0) \<and>
      names_ok (m_Profiles m0) \<and> Settings_validate parseLevel (m_Settings m0) = Inr settings \<and>
      m_ConfigHash m0 \<in> {[], HashWith (m_Profiles m0) settings} \<and>
      m = m0\<lparr>m_Settings := settings, m_ConfigHash := HashWith (m_Profiles m0) settings\<rparr>)"
  using profile_errors_iff [OF assms]
  by (auto simp: Manifest_Parse_def rbind_Inr_iff Let_def map_of_eq_None_iff not_less split: option.splits list.splits if_splits)
    (metis list.distinct(1))+

lemma Manifest_Parse_names: "range_order ord \<Longrightarrow> Manifest_Parse ord parseLevel raw = Inr m \<Longrightarrow> names_ok (m_Profiles m)"
  by (auto simp: Manifest_Parse_Inr)

text \<open>A decoded manifest names no profile twice, and its numbers have 64 bits.\<close>

definition manifest_wf :: "Manifest \<Rightarrow> bool" where
  "manifest_wf m \<longleftrightarrow> int64 (m_V m) \<and> int64 (m_Rev m) \<and> distinct (map fst (m_Profiles m))"

lemma decodeManifest_wf: "decodeManifest raw = Some m \<Longrightarrow> manifest_wf m"
proof -
  assume "decodeManifest raw = Some m"
  then obtain j where j: "parse_json raw = Some j" and m: "dec_struct Manifest_fields j zero_Manifest = Some m"
    by (auto simp: decodeManifest_def Unmarshal_def split: option.splits)
  have "list_all (keeps manifest_wf) Manifest_fields"
    by (auto simp: Manifest_fields_def manifest_wf_def dec_int_ok dec_assoc_distinct)
  moreover have "manifest_wf zero_Manifest" by (simp add: manifest_wf_def zero_Manifest_def)
  ultimately show "manifest_wf m" by (rule dec_struct_keep [OF m _ parse_texts [OF j]])
qed

section \<open>Writing stays inside the staging directory\<close>

lemma write_files_apart:
  "write_files sub fs d = (d', e) \<Longrightarrow> \<forall>f\<in>set fs. plain_name (f_Name f) \<Longrightarrow> apart sub q \<Longrightarrow>
   node_at (dk_tree d') q = node_at (dk_tree d) q"
proof (induction fs arbitrary: d)
  case (Cons f fs)
  obtain d1 e1 where w: "WriteFile (sub @ [f_Name f]) (f_Text f) d = (d1, e1)" by fastforce
  have "node_at (dk_tree d1) q = node_at (dk_tree d) q"
    using WriteFile_apart [OF w] Cons.prems(3) apart_append [of sub q "[f_Name f]" "[]"] by simp
  with Cons w show ?case by (auto simp: Join_plain split: option.splits)
qed simp

lemma not_prefix_apart: "apart p q \<Longrightarrow> \<not> prefix q (p @ r)"
  using apart_append [of p q r "[]"] by (simp add: apart_def)

lemma write_profiles_apart:
  "write_profiles dir ps d = (d', e) \<Longrightarrow> names_ok ps \<Longrightarrow> apart dir q \<Longrightarrow> node_at (dk_tree d') q = node_at (dk_tree d) q"
proof (induction ps arbitrary: d)
  case (Cons np ps)
  obtain name p where np: "np = (name, p)" by fastforce
  from Cons.prems(2) np have plain: "plain_name name" and ps: "names_ok ps"
    and files: "\<forall>f\<in>set (mp_Files p). plain_name (f_Name f)" by (auto simp: names_ok_def)
  obtain d1 e1 where m: "MkdirAll (dir @ [name]) d = (d1, e1)" by fastforce
  obtain d2 e2 where w: "write_files (dir @ [name]) (mp_Files p) d1 = (d2, e2)" by fastforce
  have "node_at (dk_tree d1) q = node_at (dk_tree d) q"
    using MkdirAll_other [OF m] not_prefix_apart Cons.prems(3) by blast
  moreover have "node_at (dk_tree d2) q = node_at (dk_tree d1) q"
    using write_files_apart [OF w files] apart_append [OF Cons.prems(3), of "[name]" "[]"] by simp
  ultimately show ?case
    using Cons.prems(1) Cons.IH [OF _ ps Cons.prems(3)] np m w plain by (auto simp: Join_plain split: option.splits)
qed simp

lemma write_tree_apart:
  assumes "write_tree ord dir m d = (d', e)" and "range_order ord" and "names_ok (m_Profiles m)" and "apart dir q"
  shows "node_at (dk_tree d') q = node_at (dk_tree d) q"
proof -
  obtain d1 e1 where m: "MkdirAll dir d = (d1, e1)" by fastforce
  have "node_at (dk_tree d1) q = node_at (dk_tree d) q"
    using MkdirAll_other [OF m] not_prefix_apart [OF assms(4), of "[]"] by simp
  moreover have "names_ok (ord (m_Profiles m))" using assms(2,3) by (simp add: names_ok_def range_order_set)
  ultimately show ?thesis
    using assms(1,4) m by (auto simp: write_tree_def split: option.splits dest: write_profiles_apart)
qed

end
