(* ===== verification/Generations.thy ===== *)
theory Generations
  imports Desired
begin

text \<open>
  Correctness of the desired state: what a written staging directory holds, the swap of generations
  under arbitrary faults of the operating system, the watcher over time, and the hash of a manifest.
  The store enters through the interface \<open>generation_store\<close>, which the profile store implements.
\<close>

section \<open>What has been written\<close>

text \<open>The text of a file of a profile: the last one with that name wins.\<close>

definition text_of :: "ManifestFile list \<Rightarrow> string \<Rightarrow> bytes option" where
  "text_of fs n = map_of (map (\<lambda>f. (f_Name f, f_Text f)) (rev fs)) n"

lemma text_of_Cons:
  "text_of (f # fs) n = (case text_of fs n of Some b \<Rightarrow> Some b | None \<Rightarrow> if n = f_Name f then Some (f_Text f) else None)"
  by (auto simp: text_of_def map_of_append map_add_def split: option.split)

definition file_at :: "node \<Rightarrow> path \<Rightarrow> bytes \<Rightarrow> bool" where
  "file_at t p b \<longleftrightarrow> (\<exists>x. node_at t p = Some (File b x))"

lemma file_at_keeps:
  "WriteFile p b d = (d', None) \<Longrightarrow> file_at (dk_tree d) q c \<Longrightarrow> q \<noteq> p \<Longrightarrow> file_at (dk_tree d') q c"
  "MkdirAll r d = (d', e) \<Longrightarrow> file_at (dk_tree d) q c \<Longrightarrow> file_at (dk_tree d') q c"
  by (auto simp: file_at_def dest: WriteFile_keeps_file MkdirAll_keeps_file)

lemma write_files_keeps:
  "write_files sub fs d = (d', None) \<Longrightarrow> \<forall>f\<in>set fs. plain_name (f_Name f) \<Longrightarrow> file_at (dk_tree d) q c \<Longrightarrow>
   \<forall>f\<in>set fs. q \<noteq> sub @ [f_Name f] \<Longrightarrow> file_at (dk_tree d') q c"
  by (induction fs arbitrary: d) (auto simp: Join_plain split: prod.splits option.splits dest: file_at_keeps(1))

lemma write_files_written:
  "write_files sub fs d = (d', None) \<Longrightarrow> \<forall>f\<in>set fs. plain_name (f_Name f) \<Longrightarrow> text_of fs n = Some b \<Longrightarrow>
   file_at (dk_tree d') (sub @ [n]) b"
proof (induction fs arbitrary: d)
  case (Cons f fs)
  obtain d1 where w: "WriteFile (sub @ [f_Name f]) (f_Text f) d = (d1, None)" and rest: "write_files sub fs d1 = (d', None)"
    using Cons.prems(1,2) by (auto simp: Join_plain split: prod.splits option.splits)
  show ?case
  proof (cases "text_of fs n")
    case None
    then have "n = f_Name f" "b = f_Text f" using Cons.prems(3) by (auto simp: text_of_Cons split: if_splits)
    moreover have "\<forall>g\<in>set fs. sub @ [n] \<noteq> sub @ [f_Name g]"
      using None by (auto simp: text_of_def map_of_eq_None_iff image_iff)
    moreover have "file_at (dk_tree d1) (sub @ [f_Name f]) (f_Text f)"
      using WriteFile_written [OF w] by (simp add: file_at_def)
    ultimately show ?thesis using write_files_keeps [OF rest] Cons.prems(2) by auto
  next
    case (Some c)
    with Cons.prems Cons.IH [OF rest] show ?thesis by (simp add: text_of_Cons)
  qed
qed (simp add: text_of_def)

lemma write_profiles_step:
  assumes "write_profiles dir ((name, p) # ps) d = (d', None)" and "plain_name name"
  obtains d1 d2 where "MkdirAll (dir @ [name]) d = (d1, None)" "write_files (dir @ [name]) (mp_Files p) d1 = (d2, None)"
    "write_profiles dir ps d2 = (d', None)"
  using assms by (auto simp: Join_plain split: prod.splits option.splits)

lemma write_profiles_keeps:
  "write_profiles dir ps d = (d', None) \<Longrightarrow> names_ok ps \<Longrightarrow> file_at (dk_tree d) (dir @ [name, n]) b \<Longrightarrow>
   name \<notin> fst ` set ps \<Longrightarrow> file_at (dk_tree d') (dir @ [name, n]) b"
proof (induction ps arbitrary: d)
  case (Cons np ps)
  obtain other p where np: "np = (other, p)" by fastforce
  from Cons.prems(2) np have plain: "plain_name other" and ps: "names_ok ps"
    and files: "\<forall>f\<in>set (mp_Files p). plain_name (f_Name f)" by (auto simp: names_ok_def)
  obtain d1 d2 where m: "MkdirAll (dir @ [other]) d = (d1, None)"
    and w: "write_files (dir @ [other]) (mp_Files p) d1 = (d2, None)" and rest: "write_profiles dir ps d2 = (d', None)"
    using write_profiles_step Cons.prems(1) np plain by metis
  have "file_at (dk_tree d2) (dir @ [name, n]) b"
    using write_files_keeps [OF w files file_at_keeps(2) [OF m Cons.prems(3)]] Cons.prems(4) np by auto
  from Cons.IH [OF rest ps this] Cons.prems(4) show ?case by simp
qed simp

lemma write_profiles_written:
  "write_profiles dir ps d = (d', None) \<Longrightarrow> names_ok ps \<Longrightarrow> distinct (map fst ps) \<Longrightarrow> (name, p) \<in> set ps \<Longrightarrow>
   text_of (mp_Files p) n = Some b \<Longrightarrow> file_at (dk_tree d') (dir @ [name, n]) b"
proof (induction ps arbitrary: d)
  case (Cons np ps)
  obtain other p' where np: "np = (other, p')" by fastforce
  from Cons.prems(2) np have plain: "plain_name other" and ps: "names_ok ps"
    and files: "\<forall>f\<in>set (mp_Files p'). plain_name (f_Name f)" by (auto simp: names_ok_def)
  obtain d1 d2 where m: "MkdirAll (dir @ [other]) d = (d1, None)"
    and w: "write_files (dir @ [other]) (mp_Files p') d1 = (d2, None)" and rest: "write_profiles dir ps d2 = (d', None)"
    using write_profiles_step Cons.prems(1) np plain by metis
  show ?case
  proof (cases "(name, p) = np")
    case True
    then have "file_at (dk_tree d2) (dir @ [name, n]) b"
      using write_files_written [OF w files, of n b] Cons.prems(5) np by simp
    with write_profiles_keeps [OF rest ps] Cons.prems(3) True np show ?thesis by force
  next
    case False
    with Cons.IH [OF rest ps] Cons.prems(3-5) show ?thesis by auto
  qed
qed simp

text \<open>A directory that holds every file of a manifest.\<close>

definition holds :: "Manifest \<Rightarrow> node \<Rightarrow> bool" where
  "holds m t \<longleftrightarrow> (\<forall>(name, p)\<in>set (m_Profiles m). \<forall>n b. text_of (mp_Files p) n = Some b \<longrightarrow> file_at t [name, n] b)"

lemma mset_distinct_fst: "mset xs = mset ys \<Longrightarrow> distinct (map fst xs) \<longleftrightarrow> distinct (map fst ys)"
  by (metis mset_eq_imp_distinct_iff mset_map)

lemma write_tree_holds:
  assumes "write_tree ord dir m d = (d', None)" and "range_order ord" and "names_ok (m_Profiles m)"
    and "distinct (map fst (m_Profiles m))" and "m_Profiles m \<noteq> []"
  shows "\<exists>t. node_at (dk_tree d') dir = Some t \<and> holds m t"
proof -
  obtain d1 where w: "write_profiles dir (ord (m_Profiles m)) d1 = (d', None)"
    using assms(1) by (auto simp: write_tree_def split: prod.splits option.splits)
  have ok: "names_ok (ord (m_Profiles m))" "distinct (map fst (ord (m_Profiles m)))"
    using assms(2-4) mset_distinct_fst [of "ord (m_Profiles m)" "m_Profiles m"]
    by (simp_all add: names_ok_def range_order_set range_order_def)
  have at: "file_at (dk_tree d') (dir @ [name, n]) b"
    if "(name, p) \<in> set (m_Profiles m)" "text_of (mp_Files p) n = Some b" for name p n b
    using write_profiles_written [OF w ok] that assms(2) by (simp add: range_order_set)
  obtain name p where np: "(name, p) \<in> set (m_Profiles m)" using assms(5) by (cases "m_Profiles m") auto
  moreover from this have "mp_Files p \<noteq> []" using assms(3) by (auto simp: names_ok_def)
  then obtain f fs where "mp_Files p = fs @ [f]" by (metis rev_exhaust)
  then have "text_of (mp_Files p) (f_Name f) = Some (f_Text f)" by (simp add: text_of_def)
  ultimately have "file_at (dk_tree d') (dir @ [name, f_Name f]) (f_Text f)" by (rule at)
  then obtain t where t: "node_at (dk_tree d') dir = Some t"
    by (auto simp: file_at_def node_at_append split: option.splits)
  moreover have "holds m t" using at t by (fastforce simp: holds_def file_at_def node_at_append)
  ultimately show ?thesis by blast
qed

section \<open>The swap of generations\<close>

text \<open>
  What applying a manifest needs of the store: reading profiles leaves the files alone, and a reload
  that fails leaves the store as it was.
\<close>

locale generation_store =
  fixes reload :: "'s reload"
  assumes reload_tree: "reload p s d = (d', s', e) \<Longrightarrow> dk_tree d' = dk_tree d"
    and reload_fails: "reload p s d = (d', s', Some (Fails x)) \<Longrightarrow> s' = s"
begin

text \<open>
  The parked generation survives the promotion, whichever calls fail: it is parked, or back in place.
  The files that the swap may touch are \<open>staging\<close>, \<open>prev\<close> and \<open>live\<close>.
\<close>

lemma restore_keeps:
  assumes "restore reload prev live s e d = (d', s', r)" and "apart prev live"
  shows "node_at (dk_tree d') live = node_at (dk_tree d) prev \<or> node_at (dk_tree d') prev = node_at (dk_tree d) prev"
proof (cases "Rename prev live d")
  case (Pair d1 x)
  show ?thesis
  proof (cases x)
    case None
    have "dk_tree d' = dk_tree d1"
      using assms(1) Pair None by (auto simp: restore_def split: prod.splits option.splits fault.splits dest: reload_tree)
    with Rename_moved Pair None show ?thesis by auto
  next
    case (Some y)
    with assms(1) Pair show ?thesis by (auto simp: restore_def dest: Rename_fail)
  qed
qed

lemma restore_error: "restore reload prev live s e d = (d', s', r) \<Longrightarrow> r \<noteq> None"
  by (auto simp: restore_def split: prod.splits option.splits fault.splits)

lemma restore_elsewhere:
  assumes "restore reload prev live s e d = (d', s', r)" and "apart prev q" and "apart live q"
  shows "node_at (dk_tree d') q = node_at (dk_tree d) q"
proof -
  obtain d1 x where re: "Rename prev live d = (d1, x)" by fastforce
  have "dk_tree d' = dk_tree d1"
    using assms(1) re by (auto simp: restore_def split: prod.splits option.splits fault.splits dest: reload_tree)
  with Rename_apart [OF re assms(2,3)] show ?thesis by simp
qed

lemma restore_store:
  assumes "restore reload prev live s e d = (d', s', Some (Fails x))"
  shows "s' = s \<or> (\<exists>d0. reload live s d0 = (d', s', None) \<and> node_at (dk_tree d') live = node_at (dk_tree d) prev)"
proof (cases "Rename prev live d")
  case (Pair d1 y)
  then show ?thesis
    using assms Rename_moved [of prev live d d1]
    by (auto simp: restore_def split: prod.splits option.splits fault.splits dest: reload_fails reload_tree)
qed

end

interpretation profile_store: generation_store "ReloadFrom C" for C
  by unfold_locales (auto dest: ReloadFrom_tree elim: ReloadFrom_cases)

context generation_store
begin

lemma promote_cases:
  assumes "promote reload lived staging prev live s d = (d', s', r)"
  obtains (stuck) d1 e where "Rename staging live d = (d1, Some e)" "s' = s" "r = Some (Fails (PromoteErr e))"
      "d' = fst (RemoveAll staging (if lived then fst (Rename prev live d1) else d1))"
  | (swapped) d1 d2 where "Rename staging live d = (d1, None)" "reload live s d1 = (d2, s', None)"
      "d' = fst (RemoveAll prev d2)" "r = None"
  | (panics) d1 p where "Rename staging live d = (d1, None)" "reload live s d1 = (d', s', Some (Panics p))" "r = Some (Panics p)"
  | (parked) d1 d2 e where "Rename staging live d = (d1, None)" "reload live s d1 = (d2, s, Some (Fails e))"
      "lived" "restore reload prev live s e (fst (RemoveAll live d2)) = (d', s', r)"
  | (gone) d1 d2 e where "Rename staging live d = (d1, None)" "reload live s d1 = (d2, s, Some (Fails e))"
      "\<not> lived" "d' = fst (RemoveAll live d2)" "s' = s" "r = Some (Fails (ReloadErr e))"
proof (cases "Rename staging live d")
  case (Pair d1 x)
  show ?thesis
  proof (cases x)
    case (Some e)
    with Pair assms show ?thesis by (intro stuck [of d1 e]) (auto simp: promote_def Let_def)
  next
    case None
    obtain d2 s2 y where re: "reload live s d1 = (d2, s2, y)" by (metis prod_cases3)
    show ?thesis
    proof (cases y)
      case None
      with Pair \<open>x = None\<close> re assms show ?thesis by (intro swapped [of d1 d2]) (auto simp: promote_def)
    next
      case (Some f)
      show ?thesis
      proof (cases f)
        case (Panics p)
        with Pair \<open>x = None\<close> re Some assms show ?thesis by (intro panics [of d1 p]) (auto simp: promote_def)
      next
        case (Fails e)
        with re Some have "s2 = s" by (auto dest: reload_fails)
        with re Some Fails have re2: "reload live s d1 = (d2, s, Some (Fails e))" by simp
        from Pair \<open>x = None\<close> have mv: "Rename staging live d = (d1, None)" by simp
        note run = assms [unfolded promote_def mv prod.case option.case re2 fault.case Let_def]
        show ?thesis
        proof (cases lived)
          case True
          with run show ?thesis by (intro parked [OF mv re2]) simp_all
        next
          case False
          with run show ?thesis by (intro gone [OF mv re2]) simp_all
        qed
      qed
    qed
  qed
qed

text \<open>Three directories side by side.\<close>

lemma promote_keeps:
  assumes "promote reload True staging prev live s d = (d', s', Some x)"
    and "apart staging prev" and "apart staging live" and "apart prev live"
  shows "node_at (dk_tree d') live = node_at (dk_tree d) prev \<or> node_at (dk_tree d') prev = node_at (dk_tree d) prev"
  using assms(1)
proof (cases rule: promote_cases)
  case (stuck d1 e)
  obtain d2 y where d2: "Rename prev live d1 = (d2, y)" by fastforce
  obtain d3 z where d3: "RemoveAll staging d2 = (d3, z)" by fastforce
  have d1: "dk_tree d1 = dk_tree d" using Rename_fail [OF stuck(1)] .
  have keep: "node_at (dk_tree d') live = node_at (dk_tree d2) live" "node_at (dk_tree d') prev = node_at (dk_tree d2) prev"
    using stuck(4) d2 d3 RemoveAll_apart [OF d3] assms(2,3) by simp_all
  then show ?thesis using Rename_moved [of prev live d1 d2] Rename_fail [of prev live d1 d2] d2 d1 by (cases y) auto
next
  case (panics d1 p)
  then show ?thesis using Rename_apart [OF panics(1), of prev] reload_tree [OF panics(2)] assms(2,4) by (simp add: apart_sym)
next
  case (parked d1 d2 e)
  obtain d3 z where d3: "RemoveAll live d2 = (d3, z)" by fastforce
  have "node_at (dk_tree d3) prev = node_at (dk_tree d) prev"
    using Rename_apart [OF parked(1), of prev] reload_tree [OF parked(2)] RemoveAll_apart [OF d3, of prev] assms(2,4)
    by (simp add: apart_sym)
  with restore_keeps [OF parked(4)] d3 assms(4) show ?thesis by simp
qed simp_all

lemma promote_done:
  assumes "promote reload lived staging prev live s d = (d', s', None)" and "apart prev live"
  shows "node_at (dk_tree d') live = node_at (dk_tree d) staging \<and>
    (\<exists>d1 d2. reload live s d1 = (d2, s', None) \<and> node_at (dk_tree d1) live = node_at (dk_tree d) staging)"
  using assms(1)
proof (cases rule: promote_cases)
  case (swapped d1 d2)
  obtain d3 z where d3: "RemoveAll prev d2 = (d3, z)" by fastforce
  have "node_at (dk_tree d1) live = node_at (dk_tree d) staging" using Rename_moved [OF swapped(1)] .
  then show ?thesis using swapped(2,3) d3 RemoveAll_apart [OF d3 assms(2)] reload_tree [OF swapped(2)] by auto
next
  case (parked d1 d2 e)
  then show ?thesis using restore_error by blast
qed simp_all

lemma promote_store:
  assumes "promote reload lived staging prev live s d = (d', s', Some (Fails x))"
    and "apart staging prev" and "apart prev live"
  shows "s' = s \<or> lived \<and> (\<exists>d0. reload live s d0 = (d', s', None) \<and> node_at (dk_tree d') live = node_at (dk_tree d) prev)"
  using assms(1)
proof (cases rule: promote_cases)
  case (parked d1 d2 e)
  obtain d3 z where d3: "RemoveAll live d2 = (d3, z)" by fastforce
  have "node_at (dk_tree d3) prev = node_at (dk_tree d) prev"
    using Rename_apart [OF parked(1), of prev] reload_tree [OF parked(2)] RemoveAll_apart [OF d3, of prev] assms(2,3)
    by (simp add: apart_sym)
  with restore_store [OF parked(4)] parked(3) d3 show ?thesis by auto
qed simp_all

lemma promote_elsewhere:
  assumes "promote reload lived staging prev live s d = (d', s', r)"
    and "apart staging q" and "apart prev q" and "apart live q"
  shows "node_at (dk_tree d') q = node_at (dk_tree d) q"
proof -
  have rm: "node_at (dk_tree (fst (RemoveAll p e))) q = node_at (dk_tree e) q" if "apart p q" for p e
    using RemoveAll_apart [of p e _ _ q] that by (metis prod.collapse)
  have mv: "node_at (dk_tree (fst (Rename prev live e))) q = node_at (dk_tree e) q" for e
    using Rename_apart [of prev live e _ _ q] assms(3,4) by (metis prod.collapse)
  show ?thesis
    using assms(1)
  proof (cases rule: promote_cases)
    case (stuck d1 e)
    then show ?thesis using Rename_fail [OF stuck(1)] rm mv assms(2) by simp
  next
    case (swapped d1 d2)
    then show ?thesis using Rename_apart [OF swapped(1), of q] reload_tree [OF swapped(2)] rm assms by simp
  next
    case (panics d1 p)
    then show ?thesis using Rename_apart [OF panics(1), of q] reload_tree [OF panics(2)] assms by simp
  next
    case (parked d1 d2 e)
    then show ?thesis
      using Rename_apart [OF parked(1), of q] reload_tree [OF parked(2)] rm restore_elsewhere [OF parked(4)] assms by simp
  next
    case (gone d1 d2 e)
    then show ?thesis using Rename_apart [OF gone(1), of q] reload_tree [OF gone(2)] rm assms by simp
  qed
qed

end

text \<open>The three directories below the data directory.\<close>

definition staging_dir :: "path \<Rightarrow> path" where "staging_dir dataDir = dataDir @ [''.next'']"
definition prev_dir :: "path \<Rightarrow> path" where "prev_dir dataDir = dataDir @ [''.prev'']"
definition live_dir :: "path \<Rightarrow> path" where "live_dir dataDir = dataDir @ [''profiles'']"

lemmas dir_defs = staging_dir_def prev_dir_def live_dir_def

lemma Join_dirs:
  "Join dataDir ''.next'' = staging_dir dataDir" "Join dataDir ''.prev'' = prev_dir dataDir" "Join dataDir treeDir = live_dir dataDir"
  by (simp_all add: dir_defs Join_plain plain_name_def treeDir_def)

lemma dirs_apart:
  "apart (staging_dir p) (prev_dir p)" "apart (staging_dir p) (live_dir p)" "apart (prev_dir p) (live_dir p)"
  "apart (live_dir p) (prev_dir p)" "apart (prev_dir p) (staging_dir p)" "apart (live_dir p) (staging_dir p)"
  by (simp_all add: dir_defs)

lemma dirs_below: "\<not> prefix (staging_dir p) p" "\<not> prefix (prev_dir p) p" "\<not> prefix (live_dir p) p"
  by (simp_all add: dir_defs)

lemma RemoveAll_fst: "apart p q \<Longrightarrow> node_at (dk_tree (fst (RemoveAll p d))) q = node_at (dk_tree d) q"
  using RemoveAll_apart [of p d "fst (RemoveAll p d)" "snd (RemoveAll p d)" q] by simp

text \<open>How far an application got before it ended or came to the promotion.\<close>

lemma Manifest_Apply_cases:
  assumes "Manifest_Apply reload ord s dataDir m d = (d', s', r)"
  obtains (no_dir) e where "MkdirAll dataDir d = (d', Some e)" "s' = s" "r = Some (Fails (DataDirErr e))"
  | (unwritten) d1 d2 e where "MkdirAll dataDir d = (d1, None)"
      "write_tree ord (staging_dir dataDir) m (fst (RemoveAll (staging_dir dataDir) d1)) = (d2, Some e)"
      "d' = fst (RemoveAll (staging_dir dataDir) d2)" "s' = s" "r = Some (Fails (WriteErr e))"
  | (unparked) d1 d2 d3 e where "MkdirAll dataDir d = (d1, None)"
      "write_tree ord (staging_dir dataDir) m (fst (RemoveAll (staging_dir dataDir) d1)) = (d2, None)"
      "Rename (live_dir dataDir) (prev_dir dataDir) (fst (RemoveAll (prev_dir dataDir) d2)) = (d3, Some e)"
      "d' = fst (RemoveAll (staging_dir dataDir) d3)" "s' = s" "r = Some (Fails (ParkErr e))"
  | (swap) d1 d2 d3 e where "MkdirAll dataDir d = (d1, None)"
      "write_tree ord (staging_dir dataDir) m (fst (RemoveAll (staging_dir dataDir) d1)) = (d2, None)"
      "Rename (live_dir dataDir) (prev_dir dataDir) (fst (RemoveAll (prev_dir dataDir) d2)) = (d3, e)"
      "e = None \<or> e = Some NotExist"
      "promote reload (e = None) (staging_dir dataDir) (prev_dir dataDir) (live_dir dataDir) s d3 = (d', s', r)"
proof (cases "MkdirAll dataDir d")
  case (Pair d1 x)
  note run = assms [unfolded Manifest_Apply_def Join_dirs Let_def]
  show ?thesis
  proof (cases x)
    case (Some e)
    with run Pair show ?thesis by (intro no_dir) auto
  next
    case None
    with Pair have mk: "MkdirAll dataDir d = (d1, None)" by simp
    obtain d2 y where w: "write_tree ord (staging_dir dataDir) m (fst (RemoveAll (staging_dir dataDir) d1)) = (d2, y)" by fastforce
    show ?thesis
    proof (cases y)
      case (Some e)
      with run mk w show ?thesis by (intro unwritten [OF mk]) auto
    next
      case None
      with w have w: "write_tree ord (staging_dir dataDir) m (fst (RemoveAll (staging_dir dataDir) d1)) = (d2, None)" by simp
      obtain d3 z where mv: "Rename (live_dir dataDir) (prev_dir dataDir) (fst (RemoveAll (prev_dir dataDir) d2)) = (d3, z)" by fastforce
      show ?thesis
      proof (cases "z = None \<or> z = Some NotExist")
        case True
        with run mk w mv show ?thesis by (intro swap [OF mk w mv]) auto
      next
        case False
        then have "z = Some OtherErr" using os_err.exhaust by (cases z) auto
        with run mk w mv show ?thesis by (intro unparked [OF mk w]) auto
      qed
    qed
  qed
qed

text \<open>The state of the directories when the promotion begins.\<close>

lemma before_promotion:
  assumes "MkdirAll dataDir d = (d1, None)"
    and "write_tree ord (staging_dir dataDir) m (fst (RemoveAll (staging_dir dataDir) d1)) = (d2, w)"
    and "Rename (live_dir dataDir) (prev_dir dataDir) (fst (RemoveAll (prev_dir dataDir) d2)) = (d3, e)"
    and "range_order ord" and "names_ok (m_Profiles m)"
  shows "e = None \<Longrightarrow> node_at (dk_tree d3) (prev_dir dataDir) = node_at (dk_tree d) (live_dir dataDir)"
    and "e = Some NotExist \<Longrightarrow> node_at (dk_tree d) (live_dir dataDir) = None"
    and "e = Some x \<Longrightarrow> node_at (dk_tree d3) (live_dir dataDir) = node_at (dk_tree d) (live_dir dataDir)"
    and "node_at (dk_tree d3) (staging_dir dataDir) = node_at (dk_tree d2) (staging_dir dataDir)"
    and "\<not> prefix q dataDir \<Longrightarrow> apart (staging_dir dataDir) q \<Longrightarrow> apart (prev_dir dataDir) q \<Longrightarrow> apart (live_dir dataDir) q \<Longrightarrow>
      node_at (dk_tree d3) q = node_at (dk_tree d) q"
proof -
  have to2: "node_at (dk_tree d2) q = node_at (dk_tree d) q" if "\<not> prefix q dataDir" "apart (staging_dir dataDir) q" for q
    using MkdirAll_other [OF assms(1) that(1)] write_tree_apart [OF assms(2,4,5) that(2)] RemoveAll_fst [OF that(2)] by simp
  note live = to2 [OF dirs_below(3) dirs_apart(2)]
  let ?e = "fst (RemoveAll (prev_dir dataDir) d2)"
  have e: "node_at (dk_tree ?e) q = node_at (dk_tree d2) q" if "apart (prev_dir dataDir) q" for q
    using RemoveAll_fst [OF that] .
  show "node_at (dk_tree d3) (prev_dir dataDir) = node_at (dk_tree d) (live_dir dataDir)" if "e = None"
    using Rename_moved [of "live_dir dataDir" "prev_dir dataDir" ?e d3] assms(3) that e [OF dirs_apart(3)] live by simp
  show "node_at (dk_tree d) (live_dir dataDir) = None" if "e = Some NotExist"
    using Rename_NotExist [of dataDir "''profiles''" "''.prev''" ?e d3] assms(3) that e [OF dirs_apart(3)] live by (simp add: dir_defs)
  show "node_at (dk_tree d3) (live_dir dataDir) = node_at (dk_tree d) (live_dir dataDir)" if "e = Some x"
    using Rename_fail [of "live_dir dataDir" "prev_dir dataDir" ?e d3 x] assms(3) that e [OF dirs_apart(3)] live by simp
  show "node_at (dk_tree d3) (staging_dir dataDir) = node_at (dk_tree d2) (staging_dir dataDir)"
    using Rename_apart [OF assms(3) dirs_apart(6) dirs_apart(5)] e [OF dirs_apart(5)] by simp
  show "node_at (dk_tree d3) q = node_at (dk_tree d) q"
    if "\<not> prefix q dataDir" "apart (staging_dir dataDir) q" "apart (prev_dir dataDir) q" "apart (live_dir dataDir) q"
    using Rename_apart [OF assms(3) that(4,3)] e [OF that(3)] to2 [OF that(1,2)] by simp
qed

context generation_store
begin

lemma apply_keeps_old:
  assumes "Manifest_Apply reload ord s dataDir m d = (d', s', Some x)" and "range_order ord" and "names_ok (m_Profiles m)"
    and "node_at (dk_tree d) (live_dir dataDir) = Some old"
  shows "node_at (dk_tree d') (live_dir dataDir) = Some old \<or> node_at (dk_tree d') (prev_dir dataDir) = Some old"
  using assms(1)
proof (cases rule: Manifest_Apply_cases)
  case (no_dir e)
  then show ?thesis using MkdirAll_other [OF no_dir(1) dirs_below(3)] assms(4) by simp
next
  case (unwritten d1 d2 e)
  then show ?thesis
    using MkdirAll_other [OF unwritten(1) dirs_below(3)] write_tree_apart [OF unwritten(2) assms(2,3) dirs_apart(2)]
      RemoveAll_fst [OF dirs_apart(2)] assms(4) by simp
next
  case (unparked d1 d2 d3 e)
  then show ?thesis
    using before_promotion(3) [OF unparked(1,2,3) assms(2,3) refl] RemoveAll_fst [OF dirs_apart(2)] assms(4) by simp
next
  case (swap d1 d2 d3 e)
  note before = before_promotion [OF swap(1,2,3) assms(2,3)]
  from swap(4) before(2) assms(4) have "e = None" by auto
  with swap(5) before(1) promote_keeps [of _ _ "live_dir dataDir", OF _ dirs_apart(1-3)] assms(4) show ?thesis by metis
qed

lemma apply_store:
  assumes "Manifest_Apply reload ord s dataDir m d = (d', s', Some (Fails x))" and "range_order ord" and "names_ok (m_Profiles m)"
  shows "s' = s \<or> (\<exists>d0. reload (live_dir dataDir) s d0 = (d', s', None) \<and>
    node_at (dk_tree d') (live_dir dataDir) = node_at (dk_tree d) (live_dir dataDir))"
  using assms(1)
proof (cases rule: Manifest_Apply_cases)
  case (swap d1 d2 d3 e)
  note before = before_promotion [OF swap(1,2,3) assms(2,3)]
  from promote_store [OF swap(5) dirs_apart(1,3)] before(1) show ?thesis by auto
qed simp_all

lemma apply_done:
  assumes "Manifest_Apply reload ord s dataDir m d = (d', s', None)" and "range_order ord" and "names_ok (m_Profiles m)"
    and "distinct (map fst (m_Profiles m))" and "m_Profiles m \<noteq> []"
  obtains t d1 d2 where "node_at (dk_tree d') (live_dir dataDir) = Some t" and "holds m t"
    and "reload (live_dir dataDir) s d1 = (d2, s', None)" and "node_at (dk_tree d1) (live_dir dataDir) = Some t"
  using assms(1)
proof (cases rule: Manifest_Apply_cases)
  case (swap d1 d2 d3 e)
  obtain t where "node_at (dk_tree d2) (staging_dir dataDir) = Some t" and t: "holds m t"
    using write_tree_holds [OF swap(2) assms(2-5)] by blast
  then have "node_at (dk_tree d3) (staging_dir dataDir) = Some t"
    using before_promotion(4) [OF swap(1,2,3) assms(2,3)] by simp
  with promote_done [OF swap(5) dirs_apart(3)] t that show ?thesis by auto
qed simp_all

lemma apply_elsewhere:
  assumes "Manifest_Apply reload ord s dataDir m d = (d', s', r)" and "range_order ord" and "names_ok (m_Profiles m)"
    and q: "\<not> prefix q dataDir" "apart (staging_dir dataDir) q" "apart (prev_dir dataDir) q" "apart (live_dir dataDir) q"
  shows "node_at (dk_tree d') q = node_at (dk_tree d) q"
  using assms(1)
proof (cases rule: Manifest_Apply_cases)
  case (no_dir e)
  then show ?thesis using MkdirAll_other [OF no_dir(1) q(1)] by simp
next
  case (unwritten d1 d2 e)
  then show ?thesis
    using MkdirAll_other [OF unwritten(1) q(1)] write_tree_apart [OF unwritten(2) assms(2,3) q(2)] RemoveAll_fst [OF q(2)] by simp
next
  case (unparked d1 d2 d3 e)
  then show ?thesis using before_promotion(5) [OF unparked(1,2,3) assms(2,3) q] RemoveAll_fst [OF q(2)] by simp
next
  case (swap d1 d2 d3 e)
  then show ?thesis
    using before_promotion(5) [OF swap(1,2,3) assms(2,3) q] promote_elsewhere [OF swap(5) q(2-4)] by simp
qed

end

section \<open>The watcher over time\<close>

text \<open>
  What the record of the last application promises when it says ok: its hash, revision and names are
  those of a manifest whose files are all in the directory that the store serves.
\<close>

definition serves :: "path \<Rightarrow> Manifest \<Rightarrow> Store watcher \<Rightarrow> bool" where
  "serves dataDir m w \<longleftrightarrow> a_hash (wt_applied w) = HashWith (m_Profiles m) (m_Settings m) \<and> a_rev (wt_applied w) = m_Rev m \<and>
     a_names (wt_applied w) = Manifest_Names m \<and> st_dir (wt_store w) = live_dir dataDir \<and>
     (\<exists>t. node_at (dk_tree (wt_disk w)) (live_dir dataDir) = Some t \<and> holds m t)"

definition watcher_inv :: "codec \<Rightarrow> path \<Rightarrow> Store watcher \<Rightarrow> bool" where
  "watcher_inv C dataDir w \<longleftrightarrow> store_inv C (wt_store w) \<and> st_cur (wt_store w) \<noteq> None \<and>
     (a_apply (wt_applied w) = ApplyOK \<longrightarrow> (\<exists>m. serves dataDir m w))"

definition watcher_init :: "codec \<Rightarrow> Store watcher \<Rightarrow> bool" where
  "watcher_init C w \<longleftrightarrow> (\<exists>s level d. w = watch_start s level d \<and> store_inv C s \<and> st_cur s \<noteq> None)"

lemma ReloadFrom_current:
  assumes "ReloadFrom C dir s d = (d', s', None)"
  shows "st_dir s' = dir \<and> st_cur s' \<noteq> None \<and> st_gen s' = st_gen s + 1 \<and> store_inv C s'"
  using assms by (rule ReloadFrom_cases) (auto simp: publish_snapshot_def store_inv_def)

lemma watch_value_inv:
  assumes "watch_value (ReloadFrom C) ord dataDir m w = Inr w'" and "watcher_inv C dataDir w"
    and "range_order ord" and "names_ok (m_Profiles m)" and "distinct (map fst (m_Profiles m))" and "m_Profiles m \<noteq> []"
    and "m_ConfigHash m = HashWith (m_Profiles m) (m_Settings m)"
  shows "watcher_inv C dataDir w'"
proof (cases "w' = w")
  case False
  then obtain d s r where run: "Manifest_Apply (ReloadFrom C) ord (wt_store w) dataDir m (wt_disk w) = (d, s, r)"
    and step: "(case r of None \<Rightarrow> w' = w\<lparr>wt_store := s, wt_disk := d,
          wt_applied := Applied_set (m_ConfigHash m) (m_Rev m) ApplyOK (Manifest_Names m) (wt_applied w),
          wt_level := Settings_apply (m_Settings m) (wt_level w)\<rparr>
      | Some (Fails e) \<Rightarrow> (\<exists>h v n. w' = w\<lparr>wt_store := s, wt_disk := d, wt_applied := Applied_set h v ApplyFailed n (wt_applied w)\<rparr>)
      | Some (Panics p) \<Rightarrow> False)"
    using assms(1) by (fastforce simp: watch_value_def split: prod.splits if_splits option.splits fault.splits)
  show ?thesis
  proof (cases r)
    case None
    obtain t d1 d2 where "node_at (dk_tree d) (live_dir dataDir) = Some t" "holds m t"
      and re: "ReloadFrom C (live_dir dataDir) (wt_store w) d1 = (d2, s, None)"
      using profile_store.apply_done [of C ord "wt_store w" dataDir m "wt_disk w" d s] run None assms(3-6) by metis
    with step None ReloadFrom_current [OF re] assms(7) show ?thesis
      by (auto simp: watcher_inv_def serves_def Applied_set_def)
  next
    case (Some f)
    then obtain e where e: "f = Fails e" using step by (cases f) auto
    then have "s = wt_store w \<or> (\<exists>d0. ReloadFrom C (live_dir dataDir) (wt_store w) d0 = (d, s, None))"
      using profile_store.apply_store [of C ord "wt_store w" dataDir m "wt_disk w" d s e] run Some assms(3,4) by auto
    then have "store_inv C s \<and> st_cur s \<noteq> None"
      using assms(2) by (auto simp: watcher_inv_def dest: ReloadFrom_current)
    with step Some e show ?thesis by (auto simp: watcher_inv_def Applied_set_def ApplyOK_def ApplyFailed_def)
  qed
qed (use assms(2) in simp)

text \<open>A turn of the watcher, for any entry.\<close>

definition watch_step :: "codec \<Rightarrow> profile_order \<Rightarrow> (string \<Rightarrow> int option) \<Rightarrow> path \<Rightarrow>
    Store watcher \<Rightarrow> Store watcher \<Rightarrow> bool" where
  "watch_step C ord parseLevel dataDir w w' \<longleftrightarrow> range_order ord \<and>
     (\<exists>e. watch_entry (ReloadFrom C) ord parseLevel dataDir e w = Inr w')"

lemma Manifest_Parse_facts:
  assumes "Manifest_Parse ord parseLevel raw = Inr m" and "range_order ord"
  shows "names_ok (m_Profiles m)" and "m_Profiles m \<noteq> []" and "m_ConfigHash m = HashWith (m_Profiles m) (m_Settings m)"
    and "distinct (map fst (m_Profiles m))"
  using assms by (auto simp: Manifest_Parse_Inr manifest_wf_def dest: decodeManifest_wf)

lemma watch_entry_inv:
  assumes "watch_entry (ReloadFrom C) ord parseLevel dataDir e w = Inr w'" and "watcher_inv C dataDir w"
    and "range_order ord"
  shows "watcher_inv C dataDir w'"
proof (cases "w' = w")
  case False
  then obtain raw m where m: "Manifest_Parse ord parseLevel raw = Inr m"
    and run: "watch_value (ReloadFrom C) ord dataDir m w = Inr w'"
    using assms(1) by (auto simp: watch_entry_def split: kv_entry.splits sum.splits)
  show ?thesis
    using watch_value_inv [OF run assms(2,3)] Manifest_Parse_facts [OF m assms(3)] by blast
qed (use assms(2) in simp)

interpretation watcher: transition_system "watcher_init C" "watch_step C ord parseLevel dataDir" "watcher_inv C dataDir"
  for C ord parseLevel dataDir
proof
  fix w assume "watcher_init C w"
  then show "watcher_inv C dataDir w"
    by (auto simp: watcher_init_def watcher_inv_def watch_start_def ApplyOK_def)
next
  fix w w' assume "watcher_inv C dataDir w" and "watch_step C ord parseLevel dataDir w w'"
  then show "watcher_inv C dataDir w'" by (auto simp: watch_step_def intro: watch_entry_inv)
qed

section \<open>Properties\<close>

definition example_manifest :: Manifest where
  "example_manifest = \<lparr>m_V = 1, m_Rev = 3, m_ConfigHash = [],
     m_Profiles = [(''default'', \<lparr>mp_Files = [\<lparr>f_Name = ''profile.yaml'', f_Text = ''mode: observe''\<rparr>]\<rparr>)], m_Settings = None\<rparr>"

definition parsed_manifest :: Manifest where
  "parsed_manifest = example_manifest\<lparr>m_ConfigHash := HashWith (m_Profiles example_manifest) None\<rparr>"

lemma example_order: "range_order (\<lambda>xs. xs)"
  by (simp add: range_order_def)

definition example_raw :: bytes where
  "example_raw = ''{\"v\":1,\"rev\":3,\"profiles\":{\"default\":{\"files\":[{\"name\":\"profile.yaml\",\"text\":\"mode: observe\"}]}}}''"

lemma example_decode: "decodeManifest example_raw = Some example_manifest"
  by code_simp

lemma example_Parse: "Manifest_Parse (\<lambda>xs. xs) (\<lambda>_. None) example_raw = Inr parsed_manifest"
  by (simp add: Manifest_Parse_Inr [OF example_order] example_decode)
    (simp add: example_manifest_def parsed_manifest_def DefaultProfile_def names_ok_def plain_name_def Settings_validate_def)

text \<open>A disk with a generation in place, and a fault in the eighth call of \<open>Apply\<close>.\<close>

definition old_generation :: node where
  "old_generation = Dir [(''default'', Dir [(''profile.yaml'', File ''mode: enforce'' 7)])]"

definition data_disk :: "disk_fault list \<Rightarrow> disk" where
  "data_disk faults = \<lparr>dk_tree = Dir [(''data'', Dir [(''profiles'', old_generation)])], dk_faults = faults, dk_now = 9\<rparr>"

lemmas os_defs = MkdirAll_def RemoveAll_def WriteFile_def Rename_def os_call_def os_call_at_def faulty_def damage_def
  mkdir_at_def remove_tree_def rename_tree_def in_the_way_def

definition example_swap :: "disk_fault list \<Rightarrow> disk \<times> Store \<times> apply_err fault option" where
  "example_swap faults =
     Manifest_Apply (ReloadFrom example_codec) (\<lambda>xs. xs) example_store [''data''] parsed_manifest (data_disk faults)"

definition promotion_fault :: "disk_fault list" where
  "promotion_fault = [Works, Works, Works, Works, Works, Works, Works, Breaks None]"

lemma example_failed_apply: "\<exists>d'. example_swap promotion_fault = (d', example_store, Some (Fails (PromoteErr OtherErr)))"
  by (simp add: example_swap_def promotion_fault_def Manifest_Apply_def data_disk_def os_defs Join_plain plain_name_def treeDir_def write_tree_def promote_def
      parsed_manifest_def example_manifest_def old_generation_def)

lemma example_done_apply:
  "\<exists>d' s'. example_swap [] = (d', s', None)"
  by (simp add: example_swap_def Manifest_Apply_def data_disk_def os_defs Join_plain plain_name_def treeDir_def write_tree_def promote_def
      parsed_manifest_def example_manifest_def old_generation_def ReloadFrom_def Let_def read_snapshot_def ReadDir_def
      entries_of_def is_dir_def readProfile_def ReadFile_def profileFile_def SharedDir_def ParseProfile_def example_codec_def
      Validate_def defaults_def mode_defs DefaultDenyResponse_def limit_defs read_probe_def DefaultName_def ProbeName_def
      fingerprint_def WalkFiles_def example_store_def)

text \<open>
  C5. Applying a manifest never loses the generation in use. Whichever calls of the operating system
  fail, and whatever a failing removal or write leaves behind: if an application does not succeed, the
  previous generation is intact in its place or parked beside it. Unless it panics, the store still
  serves the snapshot it had, or has read that previous generation again from its place.
\<close>

theorem desired_generation_never_lost:
  assumes "Manifest_Parse ord parseLevel raw = Inr m" and "range_order ord"
    and "node_at (dk_tree d) (live_dir dataDir) = Some old"
    and "Manifest_Apply (ReloadFrom C) ord s dataDir m d = (d', s', Some x)"
  shows "(node_at (dk_tree d') (live_dir dataDir) = Some old \<or> node_at (dk_tree d') (prev_dir dataDir) = Some old) \<and>
    (\<forall>e. x = Fails e \<longrightarrow> s' = s \<or>
       (st_dir s' = live_dir dataDir \<and> st_gen s' = st_gen s + 1 \<and> store_inv C s' \<and>
        node_at (dk_tree d') (live_dir dataDir) = Some old))"
proof -
  note names = Manifest_Parse_facts(1) [OF assms(1,2)]
  have "node_at (dk_tree d') (live_dir dataDir) = Some old \<or> node_at (dk_tree d') (prev_dir dataDir) = Some old"
    by (rule profile_store.apply_keeps_old [OF assms(4,2) names assms(3)])
  moreover have "s' = s \<or> (st_dir s' = live_dir dataDir \<and> st_gen s' = st_gen s + 1 \<and> store_inv C s' \<and>
        node_at (dk_tree d') (live_dir dataDir) = Some old)" if "x = Fails e" for e
    using profile_store.apply_store [of C ord s dataDir m d d' s' e] assms(2-4) names that
    by (auto dest: ReloadFrom_current)
  ultimately show ?thesis by blast
qed

theorem desired_generation_never_lost_witness:
  "case example_swap promotion_fault of (d', s', r) \<Rightarrow> r \<noteq> None \<and>
     (node_at (dk_tree d') (live_dir [''data'']) = Some old_generation \<or>
      node_at (dk_tree d') (prev_dir [''data'']) = Some old_generation)"
proof -
  have old: "node_at (dk_tree (data_disk f)) (live_dir [''data'']) = Some old_generation" for f
    by (simp add: data_disk_def live_dir_def)
  obtain d' where run: "example_swap promotion_fault = (d', example_store, Some (Fails (PromoteErr OtherErr)))"
    using example_failed_apply by blast
  from desired_generation_never_lost [OF example_Parse example_order old run [unfolded example_swap_def]]
  show ?thesis by (simp add: run)
qed



text \<open>
  C12. Applying a manifest that was accepted touches nothing outside the data directory, and inside it
  only the staging, the parked and the live tree, whatever the manifest's names are and whichever
  calls fail: there is no path traversal.
\<close>

theorem apply_is_confined:
  assumes "Manifest_Parse ord parseLevel raw = Inr m" and "range_order ord"
    and "Manifest_Apply (ReloadFrom C) ord s dataDir m d = (d', s', r)"
    and "\<not> prefix q dataDir" and "\<forall>tree\<in>{staging_dir dataDir, prev_dir dataDir, live_dir dataDir}. apart tree q"
  shows "node_at (dk_tree d') q = node_at (dk_tree d) q"
  using profile_store.apply_elsewhere [OF assms(3,2) Manifest_Parse_facts(1) [OF assms(1,2)] assms(4)] assms(5) by simp

theorem apply_is_confined_witness:
  "node_at (dk_tree (fst (example_swap promotion_fault))) [''etc''] = node_at (dk_tree (data_disk promotion_fault)) [''etc'']"
proof -
  obtain d' where run: "example_swap promotion_fault = (d', example_store, Some (Fails (PromoteErr OtherErr)))"
    using example_failed_apply by blast
  from apply_is_confined [OF example_Parse example_order run [unfolded example_swap_def], of "[''etc'']"] show ?thesis
    by (simp add: dir_defs run)
qed

text \<open>
  C11. What the watcher reports is true: whenever the record of the last application says ok, its hash,
  revision and names are those of a manifest all of whose files are in the live directory, and that is
  the directory the store serves, with valid profiles. This holds after any sequence of updates,
  rejected, repeated, failing and successful ones.
\<close>

theorem watcher_report_is_true:
  assumes "watcher_init C w0" and "(watch_step C ord parseLevel dataDir)\<^sup>*\<^sup>* w0 w" and "a_apply (wt_applied w) = ''ok''"
  shows "store_inv C (wt_store w) \<and> st_cur (wt_store w) \<noteq> None \<and> st_dir (wt_store w) = live_dir dataDir \<and>
    (\<exists>m t. a_hash (wt_applied w) = HashWith (m_Profiles m) (m_Settings m) \<and> a_rev (wt_applied w) = m_Rev m \<and>
       a_names (wt_applied w) = sort (map fst (m_Profiles m)) \<and>
       node_at (dk_tree (wt_disk w)) (live_dir dataDir) = Some t \<and> holds m t)"
proof -
  have "watcher_inv C dataDir w" using assms(1,2) by (rule watcher.inv_reachable)
  with assms(3) show ?thesis
    by (auto simp: watcher_inv_def ApplyOK_def serves_def Manifest_Names_def)
qed

text \<open>
  A manifest that is in force is not applied again: delivering a value once more, after it has been
  applied, leaves the watcher, the store, the log level and the disk exactly as they are.
\<close>

theorem repeated_manifest_is_ignored:
  assumes "watch_entry reload ord parseLevel dataDir (Value raw) w = Inr w'"
    and "Manifest_Parse ord parseLevel raw = Inr m" and "a_apply (wt_applied w') = ''ok''"
  shows "watch_entry reload ord parseLevel dataDir (Value raw) w' = Inr w' \<and>
    a_hash (wt_applied w') = m_ConfigHash m \<and> a_rev (wt_applied w') = m_Rev m"
proof -
  from assms(1,2) have run: "watch_value reload ord dataDir m w = Inr w'" by (simp add: watch_entry_def)
  have "a_hash (wt_applied w') = m_ConfigHash m \<and> a_rev (wt_applied w') = m_Rev m"
    using run assms(3)
    by (auto simp: watch_value_def Applied_Snapshot_def Applied_set_def ApplyOK_def ApplyFailed_def
        split: if_splits prod.splits option.splits fault.splits)
  with assms(2,3) show ?thesis by (simp add: watch_entry_def watch_value_def Applied_Snapshot_def ApplyOK_def)
qed

definition example_watcher :: "Store watcher" where
  "example_watcher = watch_start example_store 0 (data_disk [])"

lemma example_watch:
  "\<exists>w'. watch_entry (ReloadFrom example_codec) (\<lambda>xs. xs) (\<lambda>_. None) [''data''] (Value example_raw) example_watcher = Inr w' \<and>
     a_apply (wt_applied w') = ''ok''"
proof -
  obtain d' s' where run: "example_swap [] = (d', s', None)" using example_done_apply by blast
  then show ?thesis
    by (simp add: watch_entry_def example_Parse watch_value_def example_watcher_def watch_start_def Applied_Snapshot_def
        ApplyOK_def Applied_set_def example_swap_def)
qed

theorem repeated_manifest_is_ignored_witness:
  "\<exists>w'. watch_entry (ReloadFrom example_codec) (\<lambda>xs. xs) (\<lambda>_. None) [''data''] (Value example_raw) example_watcher = Inr w' \<and>
     watch_entry (ReloadFrom example_codec) (\<lambda>xs. xs) (\<lambda>_. None) [''data''] (Value example_raw) w' = Inr w'"
  using example_watch repeated_manifest_is_ignored [OF _ example_Parse] by blast

lemma example_store_ok: "store_inv example_codec example_store" "st_cur example_store \<noteq> None"
  using LoadProfiles_inv [OF example_LoadProfiles] by simp_all

theorem watcher_report_is_true_witness:
  "\<exists>w. (watch_step example_codec (\<lambda>xs. xs) (\<lambda>_. None) [''data''])\<^sup>*\<^sup>* example_watcher w \<and>
     a_apply (wt_applied w) = ''ok'' \<and> st_dir (wt_store w) = live_dir [''data'']"
proof -
  obtain w where w: "watch_entry (ReloadFrom example_codec) (\<lambda>xs. xs) (\<lambda>_. None) [''data''] (Value example_raw) example_watcher = Inr w"
    and ok: "a_apply (wt_applied w) = ''ok''" using example_watch by blast
  have init: "watcher_init example_codec example_watcher"
    using example_store_ok by (auto simp: watcher_init_def example_watcher_def)
  have step: "(watch_step example_codec (\<lambda>xs. xs) (\<lambda>_. None) [''data''])\<^sup>*\<^sup>* example_watcher w"
    using w example_order by (intro r_into_rtranclp) (auto simp: watch_step_def)
  from watcher_report_is_true [OF init step ok] step ok show ?thesis by blast
qed

text \<open>
  C34. A manifest is accepted exactly when it is of version 1 with a positive revision, has a default
  profile, every profile has files and all names are single path components without a backslash, its
  log level is known, and its hash, if given, is the hash of its contents. The order in which the
  profiles are visited does not matter.
\<close>

theorem Manifest_Parse_accepts_iff:
  assumes "range_order ord"
  shows "Manifest_Parse ord parseLevel raw = Inr m \<longleftrightarrow>
    (\<exists>m0 settings. decodeManifest raw = Some m0 \<and> m_V m0 = 1 \<and> 1 \<le> m_Rev m0 \<and> ''default'' \<in> fst ` set (m_Profiles m0) \<and>
      (\<forall>(name, p)\<in>set (m_Profiles m0). plain_name name \<and> CHR 0x5C \<notin> set name \<and> mp_Files p \<noteq> [] \<and>
         (\<forall>f\<in>set (mp_Files p). plain_name (f_Name f) \<and> CHR 0x5C \<notin> set (f_Name f))) \<and>
      Settings_validate parseLevel (m_Settings m0) = Inr settings \<and>
      m_ConfigHash m0 \<in> {[], HashWith (m_Profiles m0) settings} \<and>
      m = m0\<lparr>m_Settings := settings, m_ConfigHash := HashWith (m_Profiles m0) settings\<rparr>)"
  unfolding Manifest_Parse_Inr [OF assms] names_ok_def DefaultProfile_def ..

theorem Manifest_Parse_accepts_iff_witness:
  "Manifest_Parse (\<lambda>xs. xs) (\<lambda>_. None) ''{\"v\":1,\"rev\":0}'' \<noteq> Inr parsed_manifest"
proof -
  have "map_option m_Rev (decodeManifest ''{\"v\":1,\"rev\":0}'') = Some 0" by code_simp
  then show ?thesis unfolding Manifest_Parse_accepts_iff [OF example_order] by auto
qed

section \<open>The hash of a manifest\<close>

lemma sort_mset_cong: "mset xs = mset ys \<Longrightarrow> sort xs = sort (ys :: string list)"
  by (metis properties_for_sort sorted_sort mset_sort)

text \<open>
  The hash does not depend on the order in which the map of profiles is ranged over.
\<close>

theorem HashWith_order:
  assumes "mset ps = mset qs" and "distinct (map fst ps)"
  shows "HashWith ps settings = HashWith qs settings"
proof -
  have "sort (map fst ps) = sort (map fst qs)" using assms(1) by (intro sort_mset_cong) (metis mset_map)
  moreover have "map_of ps = map_of qs"
  proof (rule map_of_inject_set [THEN iffD2])
    show "distinct (map fst ps)" "distinct (map fst qs)" using assms mset_distinct_fst by blast+
    show "set ps = set qs" using assms(1) by (metis set_mset_mset)
  qed
  ultimately show ?thesis by (simp add: HashWith_def hash_input_def)
qed

definition manifest_p :: "(string \<times> ManifestProfile) list" where
  "manifest_p = [(''default'', \<lparr>mp_Files = [\<lparr>f_Name = ''profile.yaml'', f_Text = ''mode: off''\<rparr>, \<lparr>f_Name = ''x'', f_Text = ''y''\<rparr>]\<rparr>),
     (''z'', \<lparr>mp_Files = [\<lparr>f_Name = ''p'', f_Text = ''q''\<rparr>]\<rparr>)]"

definition manifest_q :: "(string \<times> ManifestProfile) list" where
  "manifest_q = [(''default'', \<lparr>mp_Files = [\<lparr>f_Name = ''profile.yaml'', f_Text = ''mode: off''\<rparr>]\<rparr>),
     (''x'', \<lparr>mp_Files = [\<lparr>f_Name = ''y'', f_Text = ''z''\<rparr>, \<lparr>f_Name = ''p'', f_Text = ''q''\<rparr>]\<rparr>)]"

theorem HashWith_order_witness: "HashWith manifest_p None = HashWith (rev manifest_p) None"
  by (rule HashWith_order) (simp_all add: manifest_p_def)

text \<open>
  C40. The hash does not determine the contents: the bytes that are hashed do not mark where a profile
  ends, so two manifests that are both acceptable and have different profiles have the same hash.
\<close>

theorem hash_is_ambiguous:
  "\<exists>ps qs. names_ok ps \<and> names_ok qs \<and> distinct (map fst ps) \<and> distinct (map fst qs) \<and>
     DefaultProfile \<in> fst ` set ps \<and> DefaultProfile \<in> fst ` set qs \<and>
     fst ` set ps \<noteq> fst ` set qs \<and> HashWith ps settings = HashWith qs settings"
proof (rule exI [of _ manifest_p], rule exI [of _ manifest_q], intro conjI)
  show "names_ok manifest_p" "names_ok manifest_q"
    by (simp_all add: names_ok_def manifest_p_def manifest_q_def plain_name_def)
  have "''default'' \<le> ''z''" "''default'' \<le> ''x''" by code_simp+
  then have "hash_input manifest_p settings = hash_input manifest_q settings"
    by (simp add: hash_input_def manifest_p_def manifest_q_def profile_bytes_def nul_def)
  then show "HashWith manifest_p settings = HashWith manifest_q settings" by (simp only: HashWith_def)
  have "''z'' \<in> fst ` set manifest_p" "''z'' \<notin> fst ` set manifest_q" by (simp_all add: manifest_p_def manifest_q_def)
  then show "fst ` set manifest_p \<noteq> fst ` set manifest_q" by blast
qed (simp_all add: manifest_p_def manifest_q_def DefaultProfile_def)

end
