(* ===== verification/Inspector.thy ===== *)
theory Inspector
  imports Handler QueueDrain Generations
begin

text \<open>
  The process around the handler (src/cmd/inspector: main.go, version.go): the start of the inspector
  out of its parts, the heartbeat, and the calls that the pool makes of the handler. Connections,
  signals, logging and the envelope of the heartbeat are libraries; what the program puts into them is
  modelled. \<open>host\<close> and \<open>codec\<close> are as in the components, \<open>to_path\<close> turns a cleaned absolute path into
  its components.
\<close>

section \<open>The body store\<close>

text \<open>\<open>bodyLoader\<close>: the loader and the writer, both on the same client, or neither.\<close>

definition no_aead :: "bytes \<Rightarrow> bytes \<Rightarrow> bytes \<Rightarrow> slice option" where
  "no_aead key nonce data = None"

definition NewLoader :: "(string \<Rightarrow> string \<Rightarrow> string \<Rightarrow> store_err + slice) option \<Rightarrow> Loader" where
  "NewLoader get = \<lparr>ld_store = get, ld_keys = None, ld_aead = no_aead\<rparr>"

type_synonym writer = "(string \<Rightarrow> bytes \<Rightarrow> int \<Rightarrow> store_err option) option"

definition bodyLoader :: "redis_library \<Rightarrow> Config \<Rightarrow> store_err + (Loader \<times> writer)" where
  "bodyLoader lib cfg =
     (if cf_RedisURL cfg = [] then Inr (NewLoader None, None)
      else
        rbind (NewRedisStore lib (cf_RedisURL cfg) RedisTimeout) (\<lambda>store.
          case RedisStore_Ping store of
            Some e \<Rightarrow> Inl e
          | None \<Rightarrow> Inr (NewLoader (Some (RedisStore_Get store)), Some (RedisStore_Put store))))"

section \<open>Start\<close>

definition to_path :: "string \<Rightarrow> path" where
  "to_path s = filter (\<lambda>p. p \<noteq> []) (Split s (CHR ''/''))"

datatype start_err =
    ConfErr conf_err | ProfilesErr "read_err fault" | StartPanic panic | StoreErr store_err

record inspector =
  in_cfg :: Config
  in_store :: ProfileStore.Store
  in_loader :: Loader
  in_writer :: writer
  in_pool :: Pool

text \<open>The pool with the sizes and budgets of the configuration.\<close>

definition pool_of :: "Config \<Rightarrow> Pool" where
  "pool_of cfg = Pool_New (cf_QueueDepth cfg) (cf_ReserveMS cfg) (cf_MinBudgetMS cfg) (cf_QueueFull cfg)"

definition run_start :: "host \<Rightarrow> codec \<Rightarrow> redis_library \<Rightarrow> disk \<Rightarrow> disk \<times> (start_err + inspector)" where
  "run_start H C lib d =
     (case Config_Load H of
        Inl e \<Rightarrow> (d, Inl (ConfErr e))
      | Inr cfg \<Rightarrow>
          (case LoadProfiles C (to_path (cf_ProfilesDir cfg)) d of
             (d, Inl e) \<Rightarrow> (d, Inl (ProfilesErr e))
           | (d, Inr store) \<Rightarrow>
               (case Bootstrap (ReloadFrom C) (if cf_DataDir cfg = [] then None else Some (to_path (cf_DataDir cfg))) store d of
                  (d, store, Inl p) \<Rightarrow> (d, Inl (StartPanic p))
                | (d, store, Inr _) \<Rightarrow>
                    (d, case bodyLoader lib cfg of
                       Inl e \<Rightarrow> Inl (StoreErr e)
                     | Inr (loader, writer) \<Rightarrow>
                         Inr \<lparr>in_cfg = cfg, in_store = store, in_loader = loader, in_writer = writer, in_pool = pool_of cfg\<rparr>))))"

text \<open>The limits on messages that wait in the subscription.\<close>

definition pending_limits :: "Config \<Rightarrow> int \<times> int" where
  "pending_limits cfg = (wrap64 (wrap64 (cf_QueueDepth cfg + cf_Workers cfg) + 2), 8 * 1024 * 1024)"

text \<open>The handler with the codecs that the program uses, at a moment when the store is \<open>store\<close>.\<close>

definition handler_with :: "handler \<Rightarrow> inspector \<Rightarrow> ProfileStore.Store \<Rightarrow> handler" where
  "handler_with codecs i store =
     codecs\<lparr>hd_cfg := in_cfg i, hd_snapshot := Current store, hd_loader := in_loader i, hd_writer := in_writer i\<rparr>"

section \<open>Heartbeat\<close>

record Work =
  wk_Workers :: int
  wk_QueueDepth :: int
  wk_Queued :: int
  wk_Accepted :: int
  wk_Shed :: int
  wk_Expired :: int

record Pulse =
  pu_ID :: string
  pu_Name :: string
  pu_Subject :: string
  pu_Queue :: string
  pu_Work :: Work
  pu_Version :: string
  pu_Revision :: string
  pu_ConfigHash :: string
  pu_Rev :: int
  pu_Apply :: string
  pu_Profiles :: "string list"

definition version :: string where "version = ''dev''"
definition revision :: string where "revision = ''unknown''"

definition beat :: "Config \<Rightarrow> string \<Rightarrow> Pool \<Rightarrow> Applied option \<Rightarrow> ProfileStore.Store \<Rightarrow> Pulse" where
  "beat cfg ident pool applied store =
     (let work = \<lparr>wk_Workers = cf_Workers cfg, wk_QueueDepth = cf_QueueDepth cfg, wk_Queued = int (Queued pool),
                  wk_Accepted = q_Accepted pool, wk_Shed = q_Shed pool, wk_Expired = q_Expired pool\<rparr>;
          msg = \<lparr>pu_ID = ident, pu_Name = cf_Name cfg, pu_Subject = cf_Subject cfg, pu_Queue = cf_Queue cfg, pu_Work = work,
                 pu_Version = version, pu_Revision = revision, pu_ConfigHash = [], pu_Rev = 0, pu_Apply = [], pu_Profiles = []\<rparr>
      in case Applied_Snapshot applied of
           (hash, revn, apl, names) \<Rightarrow>
             if apl \<noteq> []
             then msg\<lparr>pu_ConfigHash := hash, pu_Rev := revn, pu_Apply := apl, pu_Profiles := names\<rparr>
             else msg\<lparr>pu_Profiles := Snapshot_Names (Current store)\<rparr>)"

section \<open>The handler over the pool's calls\<close>

text \<open>
  The calls that the pool makes of \<open>h.evaluate\<close>, in order: each meets the handler with the snapshot
  that is current at that moment.
\<close>

definition run_calls :: "(handler \<times> float64 \<times> call) list \<Rightarrow> world \<Rightarrow> world" where
  "run_calls cs w = fold (\<lambda>(h, elapsed, t, b, shed). evaluate h elapsed t b shed) cs w"

definition call_task :: "handler \<times> float64 \<times> call \<Rightarrow> Task" where
  "call_task c = fst (snd (snd c))"

lemma run_calls_publishes:
  assumes "\<forall>c\<in>set cs. t_Reply (call_task c) \<noteq> []"
  shows "\<exists>ys. list_all2 (\<lambda>c y. answers (t_Req (call_task c)) y) cs ys \<and>
    wd_published (run_calls cs w) =
      wd_published w @ map2 (\<lambda>c y. (t_Reply (call_task c), encodeReply y)) cs ys"
  using assms
proof (induction cs arbitrary: w)
  case (Cons c cs)
  obtain h e t b shed where c: "c = (h, e, t, b, shed)" by (cases c)
  from Cons.prems c have "t_Reply t \<noteq> []" by (simp add: call_task_def)
  then obtain y where y: "wd_published (evaluate h e t b shed w) = wd_published w @ [(t_Reply t, encodeReply y)]"
    and ans: "answers (t_Req t) y" by (rule evaluate_publishes)
  obtain ys where "list_all2 (\<lambda>c y. answers (t_Req (call_task c)) y) cs ys"
    and "wd_published (run_calls cs (evaluate h e t b shed w)) = wd_published (evaluate h e t b shed w) @
        map2 (\<lambda>c y. (t_Reply (call_task c), encodeReply y)) cs ys"
    using Cons.IH Cons.prems by (metis (no_types, lifting) list.set_intros(2))
  then show ?case using c y ans by (intro exI [of _ "y # ys"]) (simp add: run_calls_def call_task_def)
qed (simp add: run_calls_def)

lemma run_calls_subjects:
  assumes "\<forall>c\<in>set cs. t_Reply (call_task c) \<noteq> []"
  shows "map fst (wd_published (run_calls cs w)) =
    map fst (wd_published w) @ map (\<lambda>c. t_Reply (call_task c)) cs"
proof -
  obtain ys where ys: "list_all2 (\<lambda>c y. answers (t_Req (call_task c)) y) cs ys"
    and run: "wd_published (run_calls cs w) =
      wd_published w @ map2 (\<lambda>c y. (t_Reply (call_task c), encodeReply y)) cs ys"
    using run_calls_publishes [OF assms] by blast
  from ys have "map fst (map2 (\<lambda>c y. (t_Reply (call_task c), encodeReply y)) cs ys) =
      map (\<lambda>c. t_Reply (call_task c)) cs"
    by (induction rule: list_all2_induct) auto
  then show ?thesis by (simp add: run)
qed

section \<open>From the start to the verdict\<close>

lemma Bootstrap_step:
  assumes "Bootstrap (ReloadFrom C) dir s d = (d', s', Inr b)"
  shows "(store_step C)\<^sup>*\<^sup>* (s, d) (s', d')"
proof (cases dir)
  case None
  with assms show ?thesis by (auto simp: Bootstrap_def)
next
  case (Some dataDir)
  let ?p = "Join (Join (Join dataDir treeDir) DefaultProfile) ''profile.yaml''"
  obtain d1 x where st: "Stat ?p d = (d1, x)" by fastforce
  obtain d2 s2 r where re: "ReloadFrom C (Join dataDir treeDir) s d1 = (d2, s2, r)" by (metis prod_cases3)
  have disk: "store_step C (s, d) (s, d1)" by (rule store_step.disk_changes)
  show ?thesis
  proof (cases x)
    case (Inl e)
    with assms Some st disk show ?thesis by (auto simp: Bootstrap_def Let_def)
  next
    case (Inr n)
    with assms Some st re have "d' = d2" "s' = s2" "\<nexists>p. r = Some (Panics p)"
      by (auto simp: Bootstrap_def Let_def split: option.splits fault.splits)
    then have "store_step C (s, d1) (s', d')"
      using re by (cases r; cases "the r") (auto intro: store_step.reload_from store_step.reload_from_fails)
    with disk show ?thesis by simp
  qed
qed

lemma bodyLoader_no_keys: "bodyLoader lib cfg = Inr (loader, writer) \<Longrightarrow> ld_keys loader = None"
  by (auto simp: bodyLoader_def NewLoader_def rbind_Inr_iff split: if_splits option.splits)

lemma run_start_Inr:
  assumes "run_start H C lib d = (d', Inr i)"
  obtains sd where "store_init C sd" and "(store_step C)\<^sup>*\<^sup>* sd (in_store i, d')" and "ld_keys (in_loader i) = None"
    and "Config_Load H = Inr (in_cfg i)" and "in_pool i = pool_of (in_cfg i)"
    and "bodyLoader lib (in_cfg i) = Inr (in_loader i, in_writer i)"
proof -
  obtain cfg where cfg: "Config_Load H = Inr cfg" using assms by (auto simp: run_start_def split: sum.splits)
  obtain d1 x where load: "LoadProfiles C (to_path (cf_ProfilesDir cfg)) d = (d1, x)" by fastforce
  obtain store where x: "x = Inr store" using assms cfg load by (auto simp: run_start_def split: sum.splits)
  obtain d2 s2 y where boot: "Bootstrap (ReloadFrom C) (if cf_DataDir cfg = [] then None else Some (to_path (cf_DataDir cfg))) store d1 = (d2, s2, y)"
    by (metis prod_cases3)
  note run = assms [unfolded run_start_def cfg sum.case load x prod.case boot]
  from run obtain b where y: "y = Inr b" by (cases y) auto
  obtain loader writer where store: "bodyLoader lib cfg = Inr (loader, writer)"
    using run y by (cases "bodyLoader lib cfg") auto
  have i: "i = \<lparr>in_cfg = cfg, in_store = s2, in_loader = loader, in_writer = writer, in_pool = pool_of cfg\<rparr>" "d' = d2"
    using run y store by auto
  have "store_init C (store, d1)" using load x by (auto simp: store_init_def)
  then show ?thesis
    using that [of "(store, d1)"] Bootstrap_step [OF boot [unfolded y]] bodyLoader_no_keys [OF store] cfg store i by simp
qed

section \<open>A small example\<close>

definition example_library :: redis_library where
  "example_library = \<lparr>rl_ParseURL = (\<lambda>u. Inl (ClientErr u)), rl_NewClient = (\<lambda>_. undefined)\<rparr>"

definition example_start_disk :: disk where
  "example_start_disk = \<lparr>dk_tree = Dir [(''.'', Dir [(''profiles'', Dir [(''default'', Dir [(''profile.yaml'', File ''x'' 7)])])])],
     dk_faults = [], dk_now = 9\<rparr>"

lemma example_started:
  "\<exists>i. run_start example_host example_codec example_library example_start_disk = (example_start_disk, Inr i) \<and> in_cfg i = example_config"
proof -
  have path: "to_path ''./profiles'' = [''.'', ''profiles'']" "to_path ''./profiles.applied'' = [''.'', ''profiles.applied'']"
    by (simp_all add: to_path_def)
  show ?thesis
    by (simp add: run_start_def example_Load example_config_def path LoadProfiles_def Let_def read_snapshot_def ReadDir_def faulty_def
        example_start_disk_def entries_of_def is_dir_def readProfile_def ReadFile_def profileFile_def SharedDir_def ParseProfile_def
        example_codec_def Validate_def defaults_def mode_defs DefaultDenyResponse_def limit_defs read_probe_def DefaultName_def
        fingerprint_def WalkFiles_def Bootstrap_def Join_plain plain_name_def treeDir_def DefaultProfile_def Stat_def bodyLoader_def)
qed

end
