(* ===== verification/Process.thy ===== *)
theory Process
  imports Inspector
begin

text \<open>
  The life of the process (\<open>run\<close> in src/cmd/inspector/main.go with audit.Ensure and the opening of desired.Watch):
  what it opens, starts and stops, in which order, and what it closes when it returns, on every path. A run
  is the list of these events and its result. The bus is the record \<open>bus\<close> of the outcomes of the calls that
  the program makes of it.
\<close>

section \<open>The bus\<close>

text \<open>The constants of the bus library that the code names.\<close>

datatype bus_constant = FileStorage | LimitsPolicy | DiscardOld

record StreamConfig =
  sg_Name :: string
  sg_Subjects :: "string list"
  sg_Storage :: bus_constant
  sg_Retention :: bus_constant
  sg_MaxAge :: int
  sg_MaxBytes :: int
  sg_Discard :: bus_constant
  sg_Duplicates :: int

datatype add_result = Added | NameInUse | AddFails string

record bus =
  bu_Connect :: "string \<Rightarrow> string \<Rightarrow> bool"
  bu_JetStream :: bool
  bu_AddStream :: "StreamConfig \<Rightarrow> add_result"
  bu_LogStream :: bool
  bu_Subscribe :: "string \<Rightarrow> string \<Rightarrow> bool"
  bu_SetPendingLimits :: "int \<times> int \<Rightarrow> bool"
  bu_NewJetStream :: bool
  bu_CreateBucket :: "string \<Rightarrow> nat \<Rightarrow> bool"
  bu_WatchKey :: "string \<Rightarrow> bool"
  bu_Drain :: bool

definition AuditStream :: string where "AuditStream = ''WAF_AUDIT''"
definition MaxBytes :: int where "MaxBytes = 256 * 2 ^ 20"
definition MaxAge :: int where "MaxAge = 24 * 3600 * 10 ^ 9"

datatype ensure_err = NilConn | NoJetStream | StreamErr string

text \<open>\<open>audit.Ensure\<close>: the stream of audit events exists, or an error; a connection that is nil is \<open>None\<close>.\<close>

definition audit_Ensure :: "bus option \<Rightarrow> ensure_err option" where
  "audit_Ensure nc =
     (case nc of
        None \<Rightarrow> Some NilConn
      | Some b \<Rightarrow>
          if \<not> bu_JetStream b then Some NoJetStream
          else (case bu_AddStream b \<lparr>sg_Name = AuditStream, sg_Subjects = [''waf.audit.>''], sg_Storage = FileStorage,
                      sg_Retention = LimitsPolicy, sg_MaxAge = MaxAge, sg_MaxBytes = MaxBytes, sg_Discard = DiscardOld, sg_Duplicates = 2 * 60 * 10 ^ 9\<rparr> of
              Added \<Rightarrow> None
            | NameInUse \<Rightarrow> None
            | AddFails e \<Rightarrow> Some (StreamErr e)))"

definition Bucket :: string where "Bucket = ''WAF_DESIRED''"
definition desired_Key :: string where "desired_Key = ''policy/rewrite''"

text \<open>The opening of \<open>desired.Watch\<close>: the record of the last application, empty, or nothing on an error.\<close>

definition Watch_open :: "bus \<Rightarrow> Applied option" where
  "Watch_open b =
     (if \<not> bu_NewJetStream b then None
      else if \<not> bu_CreateBucket b Bucket 5 then None
      else if \<not> bu_WatchKey b desired_Key then None
      else Some \<lparr>a_hash = [], a_rev = 0, a_apply = [], a_names = []\<rparr>)"

section \<open>Events\<close>

text \<open>What is closed by a deferred call, and the other things a run does.\<close>

datatype resource = LogShipper | BodyStore | Connection | Context | Heartbeat

datatype run_event =
    Opened resource
  | Closed resource
  | AuditEnsured "ensure_err option"
  | LogEnsured bool
  | SinkStarted
  | PoolStarted int Pool
  | Subscribed string string
  | ReloadStarted int
  | Watching "Applied option"
  | Beat Pulse
  | Signalled
  | Cancelled
  | Drained bool
  | PoolClosed
  | SinkClosed

definition deferred :: "bool \<Rightarrow> resource \<Rightarrow> run_event list \<Rightarrow> run_event list" where
  "deferred opened r es = (if opened then Opened r # es @ [Closed r] else es)"

section \<open>The run\<close>

datatype run_err = StartErr start_err | ConnectErr | SubscribeErr | LimitsErr

text \<open>
  The heartbeat runs beside the main goroutine: one beat at once, then one for each tick until it is closed. A tick
  finds the pool, the record of the last application and the store in some state. \<open>ticks k\<close> are the ticks between the
  \<open>k\<close>-th and the next step of the main goroutine.
\<close>

type_synonym moment = "Pool \<times> Applied option \<times> ProfileStore.Store"

definition beats :: "Config \<Rightarrow> string \<Rightarrow> moment list \<Rightarrow> run_event list" where
  "beats cfg ident ms = map (\<lambda>(pool, applied, store). Beat (beat cfg ident pool applied store)) ms"

text \<open>From the subscription to the end: watchers, the heartbeat, the signal, and the drain.\<close>

definition run_serving :: "bus \<Rightarrow> string \<Rightarrow> (nat \<Rightarrow> moment list) \<Rightarrow> inspector \<Rightarrow> run_event list" where
  "run_serving b ident ticks i =
     (let beats = beats (in_cfg i) ident in
      deferred True Context
        (ReloadStarted (cf_ReloadEvery (in_cfg i)) # Watching (Watch_open b) #
         deferred True Heartbeat
           (beats [(in_pool i, Watch_open b, in_store i)] @ beats (ticks 0) @
            [Signalled] @ beats (ticks 1) @ [Cancelled] @ beats (ticks 2) @ [Drained (bu_Drain b)] @ beats (ticks 3) @
            [PoolClosed] @ beats (ticks 4) @ [SinkClosed] @ beats (ticks 5))))"

text \<open>From the connection to the subscription.\<close>

definition run_connected :: "bus \<Rightarrow> bool \<Rightarrow> string \<Rightarrow> (nat \<Rightarrow> moment list) \<Rightarrow> inspector \<Rightarrow> run_event list \<times> (run_err + unit)" where
  "run_connected b logs ident ticks i =
     (let cfg = in_cfg i;
          pre = AuditEnsured (audit_Ensure (Some b)) # (if logs then [LogEnsured (bu_LogStream b)] else [])
                @ [SinkStarted, PoolStarted (cf_Workers cfg) (in_pool i)]
      in if \<not> bu_Subscribe b (cf_Subject cfg) (cf_Queue cfg) then (pre, Inl SubscribeErr)
         else if \<not> bu_SetPendingLimits b (pending_limits cfg) then (pre @ [Subscribed (cf_Subject cfg) (cf_Queue cfg)], Inl LimitsErr)
         else (pre @ [Subscribed (cf_Subject cfg) (cf_Queue cfg)] @ run_serving b ident ticks i, Inr ()))"

definition run_started :: "bus \<Rightarrow> bool \<Rightarrow> string \<Rightarrow> (nat \<Rightarrow> moment list) \<Rightarrow> inspector \<Rightarrow> run_event list \<times> (run_err + unit)" where
  "run_started b logs ident ticks i =
     (let cfg = in_cfg i in
      if \<not> bu_Connect b (join (CHR '','') (cf_Servers cfg)) (''waf-inspector-'' @ cf_Name cfg)
      then (deferred (cf_RedisURL cfg \<noteq> []) BodyStore [], Inl ConnectErr)
      else (case run_connected b logs ident ticks i of
          (es, r) \<Rightarrow> (deferred (cf_RedisURL cfg \<noteq> []) BodyStore (deferred True Connection es), r)))"

definition run_process :: "host \<Rightarrow> codec \<Rightarrow> redis_library \<Rightarrow> bus \<Rightarrow> string \<Rightarrow> (nat \<Rightarrow> moment list) \<Rightarrow> disk \<Rightarrow> disk \<times> run_event list \<times> (run_err + unit)" where
  "run_process H C lib b ident ticks d =
     (case run_start H C lib d of
        (d, Inl (ConfErr e)) \<Rightarrow> (d, [], Inl (StartErr (ConfErr e)))
      | (d, Inl e) \<Rightarrow> (d, deferred (LogShip H) LogShipper [], Inl (StartErr e))
      | (d, Inr i) \<Rightarrow> (case run_started b (LogShip H) ident ticks i of (es, r) \<Rightarrow> (d, deferred (LogShip H) LogShipper es, r)))"

section \<open>Every resource is released\<close>

text \<open>The events open and close resources like brackets, the last one opened first.\<close>

fun balanced :: "resource list \<Rightarrow> run_event list \<Rightarrow> bool" where
  "balanced st [] \<longleftrightarrow> st = []"
| "balanced st (Opened r # es) \<longleftrightarrow> balanced (r # st) es"
| "balanced st (Closed r # es) \<longleftrightarrow> st \<noteq> [] \<and> hd st = r \<and> balanced (tl st) es"
| "balanced st (_ # es) \<longleftrightarrow> balanced st es"

definition self_contained :: "run_event list \<Rightarrow> bool" where
  "self_contained es \<longleftrightarrow> (\<forall>st fs. balanced st (es @ fs) \<longleftrightarrow> balanced st fs)"

lemma self_contained_Nil [simp]: "self_contained []"
  by (simp add: self_contained_def)

lemma self_contained_append [simp]: "self_contained es \<Longrightarrow> self_contained fs \<Longrightarrow> self_contained (es @ fs)"
  by (simp add: self_contained_def)

lemma self_contained_deferred [simp]: "self_contained es \<Longrightarrow> self_contained (deferred opened r es)"
  by (simp add: self_contained_def deferred_def)

lemma self_contained_event [simp]:
  "self_contained es \<Longrightarrow> (\<And>r. e \<noteq> Opened r) \<Longrightarrow> (\<And>r. e \<noteq> Closed r) \<Longrightarrow> self_contained (e # es)"
  by (cases e) (auto simp: self_contained_def)

lemma self_contained_balanced: "self_contained es \<Longrightarrow> balanced [] es"
  unfolding self_contained_def by (metis append_Nil2 balanced.simps(1))

lemma self_contained_beats [simp]: "self_contained (beats cfg ident ms)"
  by (induction ms) (auto simp: beats_def)

lemma run_serving_contained: "self_contained (run_serving b ident ticks i)"
  by (simp add: run_serving_def Let_def)

lemma run_connected_contained: "run_connected b logs ident ticks i = (es, r) \<Longrightarrow> self_contained es"
  by (auto simp: run_connected_def Let_def run_serving_contained split: if_splits)

lemma run_started_contained: "run_started b logs ident ticks i = (es, r) \<Longrightarrow> self_contained es"
  by (auto simp: run_started_def Let_def split: if_splits prod.splits dest: run_connected_contained)

lemma run_process_contained: "run_process H C lib b ident ticks d = (d', es, r) \<Longrightarrow> self_contained es"
  by (auto simp: run_process_def split: prod.splits sum.splits start_err.splits dest: run_started_contained)

section \<open>The order of the shutdown\<close>

definition shutdown :: "inspector \<Rightarrow> bool \<Rightarrow> run_event list" where
  "shutdown i drained =
     [SinkStarted, PoolStarted (cf_Workers (in_cfg i)) (in_pool i), Subscribed (cf_Subject (in_cfg i)) (cf_Queue (in_cfg i)),
      Signalled, Cancelled, Drained drained, PoolClosed, SinkClosed, Closed Heartbeat, Closed Context]"

lemma subseq_deferred: "subseq xs es \<Longrightarrow> subseq xs (deferred opened r es)"
  by (auto simp: deferred_def intro!: subseq_rev_drop_many list_emb_Cons)

lemma subseq_preceded: "subseq xs es \<Longrightarrow> subseq xs (e # f # es)"
  by (intro list_emb_Cons)

lemma subseq_closing: "subseq xs es \<Longrightarrow> subseq (xs @ [Closed r]) (deferred True r es)"
  by (auto simp: deferred_def intro!: list_emb_Cons list_emb_append_mono)

lemma run_serving_order:
  "subseq [Signalled, Cancelled, Drained (bu_Drain b), PoolClosed, SinkClosed, Closed Heartbeat, Closed Context] (run_serving b ident ticks i)"
proof -
  have "subseq [Signalled, Cancelled, Drained (bu_Drain b), PoolClosed, SinkClosed]
      (start @ beats (ticks 0) @ [Signalled] @ beats (ticks 1) @ [Cancelled] @ beats (ticks 2) @ [Drained (bu_Drain b)] @ beats (ticks 3) @
       [PoolClosed] @ beats (ticks 4) @ [SinkClosed] @ beats (ticks 5))" for start and beats :: "moment list \<Rightarrow> run_event list"
    by (auto intro!: list_emb_append2)
  from subseq_closing [OF subseq_preceded [OF subseq_closing [OF this]]] show ?thesis
    by (simp add: run_serving_def Let_def)
qed

lemma run_connected_order:
  assumes "run_connected b logs ident ticks i = (es, Inr u)"
  shows "subseq (shutdown i (bu_Drain b)) es"
proof -
  have "subseq [Signalled, Cancelled, Drained (bu_Drain b), PoolClosed, SinkClosed, Closed Heartbeat, Closed Context] (run_serving b ident ticks i)"
    by (rule run_serving_order)
  then have "subseq ([SinkStarted, PoolStarted (cf_Workers (in_cfg i)) (in_pool i), Subscribed (cf_Subject (in_cfg i)) (cf_Queue (in_cfg i))] @
      [Signalled, Cancelled, Drained (bu_Drain b), PoolClosed, SinkClosed, Closed Heartbeat, Closed Context])
    ([SinkStarted, PoolStarted (cf_Workers (in_cfg i)) (in_pool i), Subscribed (cf_Subject (in_cfg i)) (cf_Queue (in_cfg i))] @ run_serving b ident ticks i)"
    by (intro list_emb_append_mono) simp_all
  then show ?thesis
    using assms by (auto simp: run_connected_def Let_def shutdown_def split: if_splits intro: list_emb_append2 list_emb_Cons)
qed

lemma run_process_done:
  assumes "run_process H C lib b ident ticks d = (d', es, r)"
  shows "r = Inr () \<longleftrightarrow> (\<exists>i. run_start H C lib d = (d', Inr i) \<and>
      bu_Connect b (join (CHR '','') (cf_Servers (in_cfg i))) (''waf-inspector-'' @ cf_Name (in_cfg i)) \<and>
      bu_Subscribe b (cf_Subject (in_cfg i)) (cf_Queue (in_cfg i)) \<and> bu_SetPendingLimits b (pending_limits (in_cfg i)))"
  using assms
  by (auto simp: run_process_def run_started_def run_connected_def Let_def split: prod.splits sum.splits start_err.splits if_splits)

lemma run_process_order:
  assumes "run_process H C lib b ident ticks d = (d', es, Inr u)" and "run_start H C lib d = (d1, Inr i)"
  shows "subseq (shutdown i (bu_Drain b) @ [Closed Connection]) es"
proof -
  from assms obtain fs where fs: "run_connected b (LogShip H) ident ticks i = (fs, Inr u)"
    and es: "es = deferred (LogShip H) LogShipper (deferred (cf_RedisURL (in_cfg i) \<noteq> []) BodyStore (deferred True Connection fs))"
    by (auto simp: run_process_def run_started_def Let_def split: prod.splits if_splits)
  show ?thesis unfolding es by (intro subseq_deferred subseq_closing run_connected_order [OF fs])
qed

section \<open>Properties\<close>


definition example_bus :: bus where
  "example_bus = \<lparr>bu_Connect = \<lambda>_ _. True, bu_JetStream = False, bu_AddStream = \<lambda>_. NameInUse, bu_LogStream = True,
     bu_Subscribe = \<lambda>_ _. True, bu_SetPendingLimits = \<lambda>_. True, bu_NewJetStream = True, bu_CreateBucket = \<lambda>_ _. False,
     bu_WatchKey = \<lambda>_. True, bu_Drain = True\<rparr>"

lemma example_process:
  "\<exists>es. run_process example_host example_codec example_library example_bus ''x'' (\<lambda>_. []) example_start_disk = (example_start_disk, es, Inr ())"
  using example_started by (auto simp: run_process_def run_started_def run_connected_def example_bus_def Let_def)


text \<open>
  The process serves exactly when its configuration, its profiles and its body store are usable and the bus
  accepts the connection, the subscription and its limits. A missing audit stream, a missing log stream and a
  desired state that cannot be watched do not keep it from serving.
\<close>

theorem run_serves_iff:
  assumes "run_process H C lib b ident ticks d = (d', es, r)"
  shows "r = Inr () \<longleftrightarrow> (\<exists>i. run_start H C lib d = (d', Inr i) \<and>
      bu_Connect b (join (CHR '','') (cf_Servers (in_cfg i))) (''waf-inspector-'' @ cf_Name (in_cfg i)) \<and>
      bu_Subscribe b (cf_Subject (in_cfg i)) (cf_Queue (in_cfg i)) \<and> bu_SetPendingLimits b (pending_limits (in_cfg i)))"
  using assms by (rule run_process_done)

theorem run_serves_iff_witness:
  "\<exists>i. run_start example_host example_codec example_library example_start_disk = (example_start_disk, Inr i) \<and>
     bu_SetPendingLimits example_bus (pending_limits (in_cfg i))"
proof -
  obtain es where run: "run_process example_host example_codec example_library example_bus ''x'' (\<lambda>_. []) example_start_disk = (example_start_disk, es, Inr ())"
    using example_process by blast
  from run_serves_iff [OF run] show ?thesis by auto
qed

end
