(* ===== verification/Probe.thy ===== *)
theory Probe
  imports Handler
begin

text \<open>
  The health probe (src/cmd/probe/main.go): it sends one request for a response without a body and
  checks the verdict. Flags and the bus are libraries: the options are a record, connecting and sending a
  request are arguments; \<open>now\<close> is the reading of the clock in nanoseconds.
\<close>

section \<open>Options\<close>

record options =
  po_servers :: string
  po_subject :: string
  po_name :: string
  po_profile :: string
  po_uri :: string
  po_method :: string
  po_expect :: string
  po_status :: int
  po_groups :: bool
  po_timeout :: int

definition default_options :: "host \<Rightarrow> options" where
  "default_options H =
     \<lparr>po_servers = env H ''NATS_URL'' ''nats://127.0.0.1:4222'', po_subject = env H ''WAF_REWRITE_SUBJECT'' ''waf.req.rewrite'',
      po_name = env H ''WAF_REWRITE_NAME'' ''rewrite'', po_profile = ''_probe'', po_uri = ''/healthcheck'', po_method = ''GET'',
      po_expect = VerdictAllow, po_status = 200, po_groups = True, po_timeout = 10 ^ 9\<rparr>"

section \<open>The request\<close>

text \<open>\<open>fmt.Sprintf\<close> with \<open>%016x\<close>: lower-case hexadecimal, zeros up to sixteen characters, sign included.\<close>

fun hex_nat :: "nat \<Rightarrow> string" where
  "hex_nat n = (if n < 16 then [hex_digit n] else hex_nat (n div 16) @ [hex_digit (n mod 16)])"

declare hex_nat.simps [simp del]

definition pad0 :: "nat \<Rightarrow> string \<Rightarrow> string" where
  "pad0 k s = replicate (k - length s) (CHR ''0'') @ s"

definition Sprintf_016x :: "int \<Rightarrow> string" where
  "Sprintf_016x n = (if n < 0 then CHR ''-'' # pad0 15 (hex_nat (nat (- n))) else pad0 16 (hex_nat (nat n)))"

definition Milliseconds :: "int \<Rightarrow> int" where
  "Milliseconds d = sgn d * (\<bar>d\<bar> div 1000000)"

definition request :: "options \<Rightarrow> int \<Rightarrow> Request" where
  "request opt now =
     (case Cut (po_uri opt) (CHR ''?'') of
        (p, args, _) \<Rightarrow>
          zero_request\<lparr>r_V := Version, r_RID := Sprintf_016x now, r_Phase := PhaseResponse, r_Inspector := po_name opt,
            r_DeadlineMS := Milliseconds (po_timeout opt), r_Node := ''probe'',
            r_Conn := \<lparr>c_ClientIP = ''127.0.0.1'', c_ClientPort = 12345, c_ServerIP = ''127.0.0.1'', c_ServerPort = 8080, c_TLS = None\<rparr>,
            r_HTTP := \<lparr>h_Method = po_method opt, h_Scheme = ''http'', h_Host = ''probe.local'', h_URI = p,
                       h_ArgsSize = int (length args), h_Version = ''HTTP/1.1''\<rparr>,
            r_Route := \<lparr>rt_ServerName = ''probe.local'', rt_Location = ''/'', rt_Profile = po_profile opt\<rparr>,
            r_Score := \<lparr>sc_Total = 0, sc_DenyAt = 100\<rparr>,
            r_Response := Some \<lparr>rs_Status = po_status opt, rs_Headers = [], rs_UpstreamMS = 0\<rparr>\<rparr>)"

section \<open>The check\<close>

datatype probe_err = NoConnection | NoVerdict | MalformedReply | WrongVerdict string string | NoGroups

record probe_bus =
  pb_Connect :: "string \<Rightarrow> bool"
  pb_Request :: "string \<Rightarrow> bytes \<Rightarrow> bytes option"

definition check_reply :: "options \<Rightarrow> Reply \<Rightarrow> probe_err option" where
  "check_reply opt reply =
     (if po_expect opt \<noteq> [] \<and> y_Verdict reply \<noteq> po_expect opt then Some (WrongVerdict (y_Verdict reply) (po_expect opt))
      else if po_groups opt \<and> (case y_Rewrite reply of None \<Rightarrow> True | Some rw \<Rightarrow> rw_Groups rw = []) then Some NoGroups
      else None)"

text \<open>Encoding a request cannot fail, so the branch for that error is never taken.\<close>

definition probe_run :: "probe_bus \<Rightarrow> options \<Rightarrow> int \<Rightarrow> probe_err option" where
  "probe_run bus opt now =
     (if \<not> pb_Connect bus (po_servers opt) then Some NoConnection
      else (case pb_Request bus (po_subject opt) (encodeRequest (request opt now)) of
          None \<Rightarrow> Some NoVerdict
        | Some data \<Rightarrow>
            (case decodeReply data of
               None \<Rightarrow> Some MalformedReply
             | Some reply \<Rightarrow> check_reply opt reply)))"

section \<open>Properties\<close>

lemma hex_nat_nonempty [simp]: "hex_nat n \<noteq> []"
  by (subst hex_nat.simps) simp

lemma hex_nat_chars: "set (hex_nat n) \<subseteq> set ''0123456789abcdef''"
proof -
  define H where "H = set ''0123456789abcdef''"
  have digit: "hex_digit k \<in> H" if "k < 16" for k
    unfolding hex_digit_def H_def using that by (intro nth_mem) simp
  have "set (hex_nat n) \<subseteq> H"
  proof (induction n rule: hex_nat.induct)
    case (1 n)
    then show ?case by (subst hex_nat.simps) (simp add: digit)
  qed
  then show ?thesis by (simp only: H_def)
qed

lemma hex_nat_length: "n < 16 ^ k \<Longrightarrow> 0 < k \<Longrightarrow> length (hex_nat n) \<le> k"
proof (induction n arbitrary: k rule: hex_nat.induct)
  case (1 n)
  show ?case
  proof (cases "n < 16")
    case True
    then show ?thesis using "1.prems" by (subst hex_nat.simps) simp
  next
    case False
    then obtain j where k: "k = Suc j" "0 < j" using "1.prems" by (cases k) (use gr0I in force)+
    then have "n div 16 < 16 ^ j" using "1.prems"(1) by (simp add: less_mult_imp_div_less mult.commute)
    with "1.IH" [OF False _ k(2)] False k show ?thesis by (subst hex_nat.simps) simp
  qed
qed

lemma probe_identifier_ok:
  assumes "0 \<le> now" and "now < 2 ^ 63"
  shows "length (r_RID (request opt now)) = 16 \<and> set (r_RID (request opt now)) \<subseteq> set ''0123456789abcdef''"
proof -
  have "nat now < 16 ^ 16" using assms by (simp add: nat_less_iff)
  then have len: "length (hex_nat (nat now)) \<le> 16" by (rule hex_nat_length) simp
  have id: "r_RID (request opt now) = pad0 16 (hex_nat (nat now))"
    using assms(1) by (simp add: request_def Sprintf_016x_def split: prod.split)
  have "set (pad0 16 (hex_nat (nat now))) \<subseteq> insert (CHR ''0'') (set (hex_nat (nat now)))" by (auto simp: pad0_def)
  also have "\<dots> \<subseteq> set ''0123456789abcdef''" by (rule insert_subsetI [OF _ hex_nat_chars]) simp
  finally have "set (r_RID (request opt now)) \<subseteq> set ''0123456789abcdef''" unfolding id .
  moreover have "length (r_RID (request opt now)) = 16" unfolding id using len by (simp add: pad0_def)
  ultimately show ?thesis by (rule conjI [rotated])
qed

text \<open>
  The identifier of a probe is sixteen lower-case hexadecimal digits for every clock reading of a
  64-bit nanosecond clock after the epoch.
\<close>

theorem probe_identifier:
  assumes "0 \<le> now" and "now < 2 ^ 63"
  shows "length (r_RID (request opt now)) = 16 \<and> set (r_RID (request opt now)) \<subseteq> set ''0123456789abcdef''"
  using assms by (rule probe_identifier_ok)

theorem probe_identifier_witness: "length (r_RID (request (default_options example_host) 1700000000000000000)) = 16"
  using probe_identifier [of 1700000000000000000 "default_options example_host"] by simp

text \<open>Options whose texts are well-formed UTF-8 and whose numbers have 64 bits.\<close>

definition options_wf :: "options \<Rightarrow> bool" where
  "options_wf opt \<longleftrightarrow> valid_utf8 (po_name opt) \<and> valid_utf8 (po_profile opt) \<and> valid_utf8 (po_method opt) \<and>
     valid_utf8 (fst (Cut (po_uri opt) (CHR ''?''))) \<and> int64 (int (length (po_uri opt))) \<and> int64 (po_status opt) \<and> int64 (po_timeout opt)"

lemma Milliseconds_int64: "int64 d \<Longrightarrow> int64 (Milliseconds d)"
proof -
  have "\<bar>d\<bar> div 1000000 \<le> \<bar>d\<bar>" "0 \<le> \<bar>d\<bar> div 1000000" by linarith+
  then show "int64 d \<Longrightarrow> int64 (Milliseconds d)" by (cases d "0 :: int" rule: linorder_cases) (auto simp: int64_def Milliseconds_def)
qed

lemma probe_request_wf:
  assumes "options_wf opt" and "0 \<le> now" and "now < 2 ^ 63"
  shows "Request_wf (request opt now)"
proof -
  obtain p args ok where cut: "Cut (po_uri opt) (CHR ''?'') = (p, args, ok)" by (cases "Cut (po_uri opt) (CHR ''?'')")
  have "length args \<le> length (po_uri opt)"
    using cut Cut_found [of "po_uri opt" "CHR ''?''" p args] Cut_missing [of "po_uri opt" "CHR ''?''" p args] by (cases ok) auto
  then have args: "int64 (int (length args))" using assms(1) by (auto simp: options_wf_def int64_def)
  have "is_ascii (r_RID (request opt now))"
    using probe_identifier_ok [OF assms(2,3), of opt] by (auto simp: is_ascii_def list_all_iff)
  then have "valid_utf8 (r_RID (request opt now))" by (rule valid_utf8_ascii)
  moreover have "int64 (Milliseconds (po_timeout opt))" using assms(1) by (simp add: Milliseconds_int64 options_wf_def)
  ultimately show ?thesis using args assms(1) cut
    by (simp add: request_def Request_wf_def zero_defs Conn_wf_def HTTP_wf_def Store_wf_def Route_wf_def Response_wf_def
        ScoreState_wf_def options_wf_def Version_def phase_defs valid_utf8_ascii is_ascii_def int64_def uint64_def)
qed

text \<open>
  A probe with a name, a method and a path is a well-formed request: its bytes make an inspector that supports
  the protocol version hand exactly this request to its pool, as one task and with no other effect.
\<close>

theorem probe_reaches_the_pool:
  assumes "options_wf opt" and "range_order (hd_order h)" and "2 \<in> set (cf_Versions (hd_cfg h))"
    and "po_name opt \<noteq> []" and "po_method opt \<noteq> []" and "fst (Cut (po_uri opt) (CHR ''?'')) \<noteq> []" and "0 \<le> now" and "now < 2 ^ 63"
  shows "receive h reply (encodeRequest (request opt now)) w = w\<lparr>wd_submitted := wd_submitted w @
    [\<lparr>t_Req = request opt now, t_Reply = reply, t_Personal = False, t_enqueued = 0\<rparr>]\<rparr>"
proof -
  obtain p args ok where cut: "Cut (po_uri opt) (CHR ''?'') = (p, args, ok)" by (cases "Cut (po_uri opt) (CHR ''?'')")
  have "request_ok (request opt now)"
    using assms(4-7) cut by (simp add: request_ok_def request_def Version_def phase_defs store_ok_def locator_ok_def
        zero_request_def zero_store_def Sprintf_016x_def pad0_def)
  then have "Parse (hd_order h) (encodeRequest (request opt now)) = Inr (request opt now)"
    using assms(1,2,7,8) by (simp add: Parse_Inr_iff decode_encode probe_request_wf)
  moreover have "r_V (request opt now) = 2" "r_Release (request opt now) = None" "r_Phase (request opt now) = PhaseResponse"
    using cut by (simp_all add: request_def Version_def zero_request_def)
  moreover have "Supports (hd_cfg h) 2" using assms(3) by (auto simp: Supports_def list_ex_iff)
  ultimately show ?thesis by (simp add: receive_def recoverInto_def)
qed

lemma default_options_wf: "options_wf (default_options example_host)"
  by (simp add: options_wf_def default_options_def env_def example_host_def valid_utf8_ascii is_ascii_def int64_def)

theorem probe_reaches_the_pool_witness:
  "wd_submitted (receive example_handler ''r'' (encodeRequest (request (default_options example_host) 5)) example_world) =
     [\<lparr>t_Req = request (default_options example_host) 5, t_Reply = ''r'', t_Personal = False, t_enqueued = 0\<rparr>]"
  by (subst probe_reaches_the_pool [OF default_options_wf])
    (simp_all add: example_handler_def range_order_def example_config_def default_options_def env_def example_host_def example_world_def)

text \<open>
  C38. A probe that passes with the default options means that the pipeline is alive: when its answer is the
  inspector's reply to it, the probed profile is loaded and enforcing, the inspector has applied at least one
  group, and it has written nothing to the body store.
\<close>

theorem passing_probe_means_enforcing:
  assumes "probe_run bus opt now = None" and "po_groups opt" and "po_profile opt \<noteq> []"
    and "inspect h elapsed (request opt now) = Inr (y, det, puts)" and "Reply_wf y"
    and "pb_Request bus (po_subject opt) (encodeRequest (request opt now)) = Some (encodeReply y)"
  shows "\<exists>snap p rw. hd_snapshot h = Some snap \<and> sn_byName snap (po_profile opt) = Some p \<and> p_Mode p \<notin> {''off'', ''observe''} \<and>
    y_Verdict y = ''allow'' \<and> y_Rewrite y = Some rw \<and> rw_Groups rw \<noteq> [] \<and> rw_Body rw = None \<and> puts = []"
proof -
  from assms(1,5,6) have "check_reply opt y = None" by (simp add: probe_run_def decode_encode split: if_splits)
  with assms(2) obtain rw where rw: "y_Rewrite y = Some rw" "rw_Groups rw \<noteq> []"
    by (auto simp: check_reply_def split: if_splits option.splits)
  have route: "rt_Profile (r_Route (request opt now)) = po_profile opt" and body: "s_Body (r_Store (request opt now)) = None"
    by (simp_all add: request_def zero_request_def zero_store_def split: prod.split)
  have "Snapshot_Profile (hd_snapshot h) (po_profile opt) \<noteq> None"
  proof
    assume "Snapshot_Profile (hd_snapshot h) (po_profile opt) = None"
    with inspect_unknown [of h "request opt now" elapsed] assms(4) route
    have "y = ErrorReply (request opt now) CodeUnknownProfile" by simp
    with rw(1) show False by simp
  qed
  then obtain p where p: "Snapshot_Profile (hd_snapshot h) (po_profile opt) = Some p" by blast
  from inspect_fair [OF assms(4), unfolded route, OF p] rw(1)
  have "p_Mode p \<notin> {ModeOff, ModeObserve}" and does: "does_rewrite h (request opt now) y puts"
    by (auto simp: fair_def leaves_alone_def quiet_def refuses_def)
  moreover have "rw_Body rw = None" "puts = []"
    using does rw(1) body by (auto simp: does_rewrite_def stored_put_def split: option.splits)
  moreover have "y_Verdict y = VerdictAllow" using does by (simp add: does_rewrite_def)
  ultimately show ?thesis
    using p rw assms(3) by (auto simp: Snapshot_Profile_def mode_defs verdict_defs split: option.splits)
qed

definition header_profile :: Profile where
  "header_profile = example_profile\<lparr>p_Groups := [Some (example_group\<lparr>g_Body := []\<rparr>)]\<rparr>"

definition probed_handler :: handler where
  "probed_handler = example_handler\<lparr>hd_snapshot := Some (masking_snapshot\<lparr>sn_byName := [''_probe'' \<mapsto> header_profile]\<rparr>)\<rparr>"

lemma probe_5: "valid_utf8 (Sprintf_016x 5)"
  by (rule valid_utf8_ascii) code_simp

lemma probed_inspect:
  "\<exists>y det puts. inspect probed_handler 0 (request (default_options example_host) 5) = Inr (y, det, puts) \<and>
     check_reply (default_options example_host) y = None \<and> Reply_wf y"
  by (simp add: inspect_def probed_handler_def request_def default_options_def env_def Snapshot_Profile_def example_host_def
      header_profile_def example_profile_def defaults_def mode_defs EvaluatePrior_def deref_def zero_request_def no_ask_def
      phase_defs Active_def ForPhase_def Group_OnFrame_def example_group_def OnFrame_def contentType_def groupsNeedBody_def
      HasBody_def Apply_def apply_groups_def start_applied_def apply_group_def Matches_def typeAllowed_def conclude_def
      applyHeaderOp_def no_header_ops_def op_defs check_reply_def set_engine_def Let_def
      plain_def NewReply_def Reply_wf_def Reason_wf_def HeaderOps_wf_def Rewrite_wf_def texts_ok_def valid_utf8_ascii is_ascii_def
      int64_def Version_def probe_5 verdict_defs CodeApplied_def)

theorem passing_probe_means_enforcing_witness:
  "\<exists>y det puts. inspect probed_handler 0 (request (default_options example_host) 5) = Inr (y, det, puts) \<and>
     y_Verdict y = ''allow'' \<and> puts = []"
proof -
  let ?opt = "default_options example_host"
  obtain y det puts where run: "inspect probed_handler 0 (request ?opt 5) = Inr (y, det, puts)"
    and ok: "check_reply ?opt y = None" and wf: "Reply_wf y" using probed_inspect by blast
  let ?bus = "\<lparr>pb_Connect = \<lambda>_. True, pb_Request = \<lambda>_ _. Some (encodeReply y)\<rparr>"
  have "probe_run ?bus ?opt 5 = None" using ok wf by (simp add: probe_run_def decode_encode)
  from passing_probe_means_enforcing [OF this _ _ run wf] run show ?thesis by (auto simp: default_options_def)
qed

end
