(* ===== verification/PoolSpec.thy ===== *)
theory PoolSpec
  imports QueueDrain
begin

text \<open>
  What the pool promises to its clients (src/internal/queue/queue.go), without queue, threads or locks: a service
  that takes tasks at any time and answers each of them at most once, with a budget or with a reason. The pool of
  theory Queue implements it.
\<close>

section \<open>The service\<close>

record service =
  sv_minBudget :: int
  sv_waiting :: "Task multiset"
  sv_answered :: "call list"

text \<open>An answer that the service may give.\<close>

definition proper :: "int \<Rightarrow> int \<Rightarrow> string \<Rightarrow> bool" where
  "proper minBudget b shed \<longleftrightarrow>
     shed = [] \<and> minBudget \<le> b \<or> shed = ReasonDeadlineExceeded \<or> shed = ReasonQueueLimit \<and> b = 0"

inductive service_step :: "service \<Rightarrow> service \<Rightarrow> bool" where
  take: "service_step v (v\<lparr>sv_waiting := add_mset t (sv_waiting v)\<rparr>)"
| answer: "t \<in># sv_waiting v \<Longrightarrow> proper (sv_minBudget v) b shed \<Longrightarrow>
     service_step v (v\<lparr>sv_waiting := sv_waiting v - {#t#}, sv_answered := sv_answered v @ [(t, b, shed)]\<rparr>)"

definition service_init :: "service \<Rightarrow> bool" where
  "service_init v \<longleftrightarrow> sv_waiting v = {#} \<and> sv_answered v = []"

section \<open>The pool as a service\<close>

text \<open>What waits: the tasks in the queue and those in the hands of a thread.\<close>

definition service_of :: "sys \<Rightarrow> service" where
  "service_of s =
     \<lparr>sv_minBudget = q_minBudget (sy_pool s),
      sv_waiting = mset (q_q (sy_pool s)) + sum_list (map owned (sy_threads s)),
      sv_answered = sy_log s\<rparr>"

lemma conserved_waiting: "conserved s \<Longrightarrow> mset (sy_submitted s) = sv_waiting (service_of s) + mset (map fst (sy_log s))"
  by (simp add: conserved_def in_flight_def service_of_def)

lemma thread_step_shape:
  assumes "thread_step i now s pc s'"
  shows "(\<exists>t. sy_submitted s' = sy_submitted s @ [t] \<and> sy_log s' = sy_log s) \<or>
    (\<exists>c. sy_submitted s' = sy_submitted s \<and> sy_log s' = sy_log s @ [c]) \<or>
    (sy_submitted s' = sy_submitted s \<and> sy_log s' = sy_log s)"
  using assms by cases (simp_all add: goto_def expire_def shedLimit_def call_handler_def)

lemma pool_step_shape:
  assumes "pool_step s s'"
  shows "(\<exists>t. sy_submitted s' = sy_submitted s @ [t] \<and> sy_log s' = sy_log s) \<or>
    (\<exists>c. sy_submitted s' = sy_submitted s \<and> sy_log s' = sy_log s @ [c]) \<or>
    (sy_submitted s' = sy_submitted s \<and> sy_log s' = sy_log s)"
  using assms by cases (auto dest: thread_step_shape)

lemma pool_step_minBudget: "pool_step s s' \<Longrightarrow> q_minBudget (sy_pool s') = q_minBudget (sy_pool s)"
  by (cases rule: pool_step.cases) (auto dest!: thread_step_evolves simp: evolves_def)

lemma pool_step_service:
  assumes "pool_inv s" and "pool_step s s'"
  shows "service_step\<^sup>=\<^sup>= (service_of s) (service_of s')"
proof -
  have "pool_inv s'" using assms by (rule pool_step_inv)
  then have log: "log_ok s'" and w': "mset (sy_submitted s') = sv_waiting (service_of s') + mset (map fst (sy_log s'))"
    by (simp_all add: pool_inv_def conserved_waiting)
  have w: "mset (sy_submitted s) = sv_waiting (service_of s) + mset (map fst (sy_log s))"
    using assms(1) by (simp add: pool_inv_def conserved_waiting)
  note same = pool_step_minBudget [OF assms(2)]
  from pool_step_shape [OF assms(2)] consider
      (taken) t where "sy_submitted s' = sy_submitted s @ [t]" "sy_log s' = sy_log s"
    | (answered) t b shed where "sy_submitted s' = sy_submitted s" "sy_log s' = sy_log s @ [(t, b, shed)]"
    | (hidden) "sy_submitted s' = sy_submitted s" "sy_log s' = sy_log s" by fastforce
  then show ?thesis
  proof cases
    case taken
    then have "sv_waiting (service_of s') = add_mset t (sv_waiting (service_of s))" using w w' by simp
    then have "service_of s' = (service_of s)\<lparr>sv_waiting := add_mset t (sv_waiting (service_of s))\<rparr>"
      using taken same by (simp add: service_of_def)
    then show ?thesis by (simp add: service_step.take)
  next
    case answered
    then have add: "sv_waiting (service_of s) = add_mset t (sv_waiting (service_of s'))" using w w' by simp
    then have "service_of s' = (service_of s)\<lparr>sv_waiting := sv_waiting (service_of s) - {#t#},
        sv_answered := sv_answered (service_of s) @ [(t, b, shed)]\<rparr>"
      using answered same by (simp add: service_of_def)
    moreover have "proper (sv_minBudget (service_of s)) b shed"
      using log answered same by (auto simp: log_ok_def proper_def service_of_def)
    ultimately show ?thesis using service_step.answer [of t "service_of s" b shed] add by simp
  next
    case hidden
    then have "service_of s' = service_of s" using w w' same by (simp add: service_of_def)
    then show ?thesis by simp
  qed
qed

lemma pool_init_service: "pool_init s \<Longrightarrow> service_init (service_of s)"
  by (auto simp: pool_init_def service_init_def service_of_def Pool_New_def map_replicate_const)

interpretation pool_service: refinement pool_init pool_step pool_inv service_of service_init service_step
  by unfold_locales (auto intro: pool_init_service dest: pool_step_service)

section \<open>Properties\<close>

text \<open>
  C3. The pool implements the service: under every interleaving of callbacks, workers, sweeper and shutdown, what its
  clients see is a run of the service, in which every task taken is answered at most once, with the minimum budget
  or with one of the two reasons, and nothing else is answered.
\<close>

theorem pool_refines_service:
  assumes "pool_init s0" and "pool_step\<^sup>*\<^sup>* s0 s"
  shows "service_init (service_of s0) \<and> service_step\<^sup>*\<^sup>* (service_of s0) (service_of s)"
  using assms by (rule pool_service.refines)

theorem pool_refines_service_witness:
  "\<exists>v. service_init v \<and> service_step\<^sup>*\<^sup>* v (service_of example_run) \<and> sv_answered (service_of example_run) = sy_log example_run"
  using pool_refines_service [OF example_run_facts] by (auto simp: service_of_def)

end
