(* ===== verification/Delivery.thy ===== *)
theory Delivery
  imports Handler
begin

text \<open>
  From bytes to bytes: a request arrives as JSON (Messages), is evaluated (Handler), and the reply leaves as JSON.
  When the texts of the configuration and of the profiles are well-formed UTF-8, as a YAML document has them, the
  reply that the proxy reads is the reply that the inspector decided on.
\<close>

section \<open>Well-formed texts\<close>

definition profile_texts :: "Profile \<Rightarrow> bool" where
  "profile_texts p \<longleftrightarrow> valid_utf8 (p_Name p) \<and> valid_utf8 (p_DenyResponse p) \<and>
     (\<forall>g. Some g \<in> set (p_Groups p) \<longrightarrow> valid_utf8 (g_Name g) \<and>
        (\<forall>x\<in>set (g_Headers g). valid_utf8 (hp_Name x) \<and> valid_utf8 (hp_Value x)))"

lemma codes_valid [simp]:
  "valid_utf8 CodeSkipped" "valid_utf8 CodeNoop" "valid_utf8 CodeApplied" "valid_utf8 CodeObserve" "valid_utf8 CodeProfileOff"
  "valid_utf8 CodeUnknownProfile" "valid_utf8 CodeBodyUnavailable" "valid_utf8 CodeStoreUnavailable" "valid_utf8 CodeStoreError"
  "valid_utf8 CodeInternalError" "valid_utf8 OutSuffix" "valid_utf8 ClassOverload"
  "valid_utf8 VerdictAllow" "valid_utf8 VerdictDeny" "valid_utf8 VerdictError"
  by (simp_all add: valid_utf8_ascii is_ascii_def CodeSkipped_def CodeNoop_def CodeApplied_def CodeObserve_def CodeProfileOff_def
      CodeUnknownProfile_def CodeBodyUnavailable_def CodeStoreUnavailable_def CodeStoreError_def CodeInternalError_def OutSuffix_def
      ClassOverload_def verdict_defs)

lemma hex_digit_ascii: "n < 16 \<Longrightarrow> byte_val (hex_digit n) < (128 :: nat)"
proof -
  have "list_all (\<lambda>n. byte_val (hex_digit n) < (128 :: nat)) [0..<16]" by code_simp
  then show "n < 16 \<Longrightarrow> byte_val (hex_digit n) < (128 :: nat)" by (simp add: list_all_iff)
qed

lemma hex_sha256_valid [simp]: "valid_utf8 (hex_sha256 b)"
proof (rule valid_utf8_ascii)
  have "byte_val c div 16 < (16 :: nat)" for c :: char
    using of_char_mod_256 [where 'a = nat, of c] by (simp add: less_mult_imp_div_less mod_eq_self_iff_div_eq_0)
  then show "is_ascii (hex_sha256 b)"
    by (auto simp: is_ascii_def list_all_iff hex_sha256_def hex_EncodeToString_def hex_digit_ascii)
qed

section \<open>Replies\<close>

lemma request_wf_parts:
  assumes "Request_wf req"
  shows "int64 (r_V req)" "valid_utf8 (r_RID req)" "valid_utf8 (r_Inspector req)"
    and "\<And>loc. s_Body (r_Store req) = Some loc \<Longrightarrow> valid_utf8 (l_Key loc)"
  using assms by (auto simp: Request_wf_def Store_wf_def Locator_wf_def)

lemma plain_wf: "Request_wf req \<Longrightarrow> valid_utf8 v \<Longrightarrow> valid_utf8 c \<Longrightarrow> Reply_wf (plain req v c)"
  using request_wf_parts [of req] by (simp add: Reply_wf_def Reason_wf_def plain_def NewReply_def)

lemma ErrorReply_wf: "Request_wf req \<Longrightarrow> valid_utf8 c \<Longrightarrow> Reply_wf (ErrorReply req c)"
  using request_wf_parts [of req] by (simp add: Reply_wf_def Reason_wf_def ErrorReply_def NewReply_def)

lemma ShedReply_wf: "Request_wf req \<Longrightarrow> valid_utf8 c \<Longrightarrow> Reply_wf (ShedReply req c)"
  using request_wf_parts [of req] by (simp add: Reply_wf_def Reason_wf_def ShedReply_def ErrorReply_def NewReply_def Let_def)

lemma FallbackReply_wf: "valid_utf8 rid \<Longrightarrow> valid_utf8 name \<Longrightarrow> valid_utf8 c \<Longrightarrow> Reply_wf (FallbackReply rid name c)"
  by (simp add: Reply_wf_def Reason_wf_def FallbackReply_def Version_def int64_def)

lemma plain_recoded [simp]: "(plain req v c)\<lparr>y_Reason := Some \<lparr>rn_Code = c', rn_Class = []\<rparr>\<rparr> = plain req v c'"
  by (simp add: plain_def)

lemma denied_wf:
  "Request_wf req \<Longrightarrow> valid_utf8 c \<Longrightarrow> profile_texts p \<Longrightarrow> Reply_wf ((plain req VerdictDeny c)\<lparr>y_Response := Some (p_DenyResponse p)\<rparr>)"
  using request_wf_parts [of req] by (simp add: Reply_wf_def Reason_wf_def plain_def NewReply_def profile_texts_def)

lemma failPer_wf: "failPer p req c det = (y, det') \<Longrightarrow> Request_wf req \<Longrightarrow> profile_texts p \<Longrightarrow> valid_utf8 c \<Longrightarrow> Reply_wf y"
  using plain_wf [of req VerdictAllow c] denied_wf [of req c p] by (auto simp: failPer_def Let_def split: if_splits)

text \<open>What a run over the groups of a profile puts into the reply.\<close>

definition applied_texts :: "Applied \<Rightarrow> bool" where
  "applied_texts out \<longleftrightarrow> (\<forall>n\<in>set (ap_Groups out). valid_utf8 n) \<and> (\<forall>ho\<in>set_option (ap_Headers out). HeaderOps_wf ho)"

lemma header_result_wf:
  assumes "header_result hs ho" and "\<forall>x\<in>set hs. valid_utf8 (hp_Name x) \<and> valid_utf8 (hp_Value x)"
  shows "HeaderOps_wf ho"
proof -
  have "dom (map_of (rev (set_pairs hs))) \<subseteq> hp_Name ` set hs" "ran (map_of (rev (set_pairs hs))) \<subseteq> hp_Value ` set hs"
    by (auto simp: set_pairs_def ran_def dest!: map_of_SomeD)
  with assms show ?thesis
    by (auto simp: HeaderOps_wf_def header_result_def texts_ok_def finite_dom_map_of unset_names_def)
qed

lemma applied_inv_texts:
  assumes "applied_inv sel body gs (out, budget)"
    and "\<forall>g\<in>set gs. valid_utf8 (g_Name g) \<and> (\<forall>x\<in>set (g_Headers g). valid_utf8 (hp_Name x) \<and> valid_utf8 (hp_Value x))"
  shows "applied_texts out"
proof -
  let ?hs = "concat (map g_Headers (filter (applies sel body) gs))"
  have groups: "\<forall>n\<in>set (ap_Groups out). valid_utf8 n" and headers: "ap_Headers out = header_fold ?hs None"
    using assms by (auto simp: applied_inv_def)
  have "HeaderOps_wf ho" if "header_fold ?hs None = Some ho" for ho
    using that header_fold_result [of ?hs] header_result_wf [of ?hs ho] assms(2) by (cases "?hs = []") auto
  with groups headers show ?thesis by (auto simp: applied_texts_def)
qed

lemma active_texts:
  assumes "profile_ok V recomp p" and "profile_texts p" and "Active ask p = Inr gs"
  shows "\<forall>g\<in>set (ForPhase gs frame). valid_utf8 (g_Name g) \<and>
      (\<forall>x\<in>set (g_Headers g). valid_utf8 (hp_Name x) \<and> valid_utf8 (hp_Value x))"
proof -
  obtain all where all: "p_Groups p = map Some all" using profile_ok_groups [OF assms(1)] by blast
  then have "set gs \<subseteq> set all" using assms(3) Active_spec [OF all, of ask] by auto
  with assms(2) all show ?thesis by (auto simp: profile_texts_def ForPhase_def)
qed

lemma apply_active_texts:
  assumes "profile_ok V recomp p" and "profile_texts p" and "Active ask p = Inr gs"
    and "apply_groups U (ForPhase gs frame) sel body = Inr out"
  shows "applied_texts out"
proof -
  obtain budget where "applied_inv sel body (ForPhase gs frame) (out, budget)"
    using apply_active [OF assms(1,3), of U frame sel body] assms(4) by auto
  then show ?thesis using active_texts [OF assms(1-3)] by (rule applied_inv_texts)
qed

text \<open>Bodies that are put have a length that fits into 64 bits, as every slice has.\<close>

definition puts_fit :: "put list \<Rightarrow> bool" where
  "puts_fit puts \<longleftrightarrow> (\<forall>(key, body, ttl)\<in>set puts. int64 (int (length body)))"

lemma put_done_wf:
  assumes "put_body h req body = Inr (PutDone put)" and "Request_wf req" and "puts_fit [put]"
  shows "RewriteBody_wf (rewrite_body put)"
  using assms request_wf_parts(4) [OF assms(2)]
  by (auto simp: put_body_def rbind_Inr_iff deref_def Let_def rewrite_body_def RewriteBody_wf_def puts_fit_def valid_utf8_append
      split: option.splits)

lemma rewritten_wf:
  assumes "Request_wf req" and "applied_texts out" and "\<forall>rb\<in>set_option b. RewriteBody_wf rb"
  shows "Reply_wf ((plain req VerdictAllow CodeApplied)\<lparr>y_Headers := ap_Headers out, y_Rewrite := Some \<lparr>rw_Body = b, rw_Groups = ap_Groups out\<rparr>\<rparr>)"
    and "Reply_wf ((plain req VerdictAllow CodeApplied)\<lparr>y_Rewrite := Some \<lparr>rw_Body = b, rw_Groups = ap_Groups out\<rparr>\<rparr>)"
  using assms(2,3) request_wf_parts [OF assms(1)]
  by (simp_all add: Reply_wf_def Rewrite_wf_def Reason_wf_def applied_texts_def plain_def NewReply_def)

lemma conclude_wf:
  assumes "conclude h elapsed p req out missing raw det = Inr (y, det', puts)" and "Request_wf req" and "profile_texts p"
    and "applied_texts out" and "puts_fit puts"
  shows "Reply_wf y"
proof (cases "missing \<or> p_Mode p = ModeObserve \<or> ap_Groups out = [] \<or> \<not> ap_BodyChanged out")
  case True
  with assms show ?thesis
    using rewritten_wf(1) [OF assms(2,4), of None] plain_wf [OF assms(2)]
    by (auto simp: conclude_def Let_def split: if_splits prod.splits dest: failPer_wf)
next
  case False
  with assms(1) obtain r where r: "put_body h req (bytes_of (ap_Body out)) = Inr r"
    by (auto simp: conclude_def Let_def rbind_Inr_iff)
  show ?thesis
  proof (cases r)
    case (PutDone put)
    with False assms(1) r have "puts = [put]" and y: "y = (plain req VerdictAllow CodeApplied)\<lparr>y_Headers := ap_Headers out,
        y_Rewrite := Some \<lparr>rw_Body = Some (rewrite_body put), rw_Groups = ap_Groups out\<rparr>\<rparr>"
      by (auto simp: conclude_def Let_def attempted_def)
    with put_done_wf [OF r [unfolded PutDone] assms(2)] assms(5) show ?thesis
      unfolding y by (intro rewritten_wf(1) [OF assms(2,4)]) simp
  qed (use False assms r in \<open>auto simp: conclude_def Let_def split: prod.splits dest: failPer_wf\<close>)
qed

lemma conclude_frame_wf:
  assumes "conclude_frame h elapsed p req out missing raw det = Inr (y, det', puts)" and "Request_wf req" and "profile_texts p"
    and "applied_texts out" and "puts_fit puts"
  shows "Reply_wf y"
proof (cases "missing \<or> p_Mode p = ModeObserve \<or> ap_Groups out = [] \<or> \<not> ap_BodyChanged out")
  case True
  with assms show ?thesis
    using plain_wf [OF assms(2)]
    by (auto simp: conclude_frame_def Let_def split: if_splits prod.splits dest: failPer_wf)
next
  case False
  with assms(1) obtain r where r: "put_body h req (bytes_of (ap_Body out)) = Inr r"
    by (auto simp: conclude_frame_def Let_def rbind_Inr_iff)
  show ?thesis
  proof (cases r)
    case (PutDone put)
    with False assms(1) r have "puts = [put]" and y: "y = (plain req VerdictAllow CodeApplied)\<lparr>
        y_Rewrite := Some \<lparr>rw_Body = Some (rewrite_body put), rw_Groups = ap_Groups out\<rparr>\<rparr>"
      by (auto simp: conclude_frame_def Let_def attempted_def)
    with put_done_wf [OF r [unfolded PutDone] assms(2)] assms(5) show ?thesis
      unfolding y by (intro rewritten_wf(2) [OF assms(2,4)]) simp
  qed (use False assms r in \<open>auto simp: conclude_frame_def Let_def split: prod.splits dest: failPer_wf\<close>)
qed

lemma store_fault_wf: "store_fault elapsed req why det = (y, det', puts) \<Longrightarrow> Request_wf req \<Longrightarrow> Reply_wf y"
  by (auto simp: store_fault_def intro: ErrorReply_wf)

section \<open>Inspections\<close>

lemma inspectFrame_wf:
  assumes run: "inspectFrame h elapsed req p ask det = Inr (y, det', puts)" and req: "Request_wf req"
    and ok: "profile_ok V recomp p" and texts: "profile_texts p" and fit: "puts_fit puts"
  shows "Reply_wf y"
proof -
  obtain gs where gs: "Active ask p = Inr gs" using run by (auto simp: inspectFrame_def rbind_Inr_iff Let_def)
  have applied: "applied_texts out" if "ApplyFrame (hd_unicode h) (ForPhase gs True) dir opc raw = Inr out" for dir opc raw out
    using that unfolding ApplyFrame_def by (rule apply_active_texts [OF ok texts gs])
  show ?thesis
  proof (cases "ForPhase gs True = []")
    case True
    with run gs req show ?thesis by (auto simp: inspectFrame_def Let_def intro: plain_wf)
  next
    case False
    with run gs obtain loaded where loaded: "Load (hd_loader h) (s_Body (r_Store req)) = Inr loaded"
      by (auto simp: inspectFrame_def Let_def rbind_Inr_iff)
    show ?thesis
      using run False gs loaded
      by (cases "body_state loaded")
        (auto simp: inspectFrame_def Let_def rbind_Inr_iff dest: store_fault_wf [OF _ req]
          intro: conclude_frame_wf [OF _ req texts _ fit] applied)
  qed
qed

lemma inspect_response_wf:
  assumes run: "inspect_response h elapsed req p (ForPhase gs False) det = Inr (y, det', puts)" and req: "Request_wf req"
    and ok: "profile_ok V recomp p" and texts: "profile_texts p" and gs: "Active ask p = Inr gs" and fit: "puts_fit puts"
  shows "Reply_wf y"
proof -
  have applied: "applied_texts out" if "Apply (hd_unicode h) (ForPhase gs False) status ct raw = Inr out" for status ct raw out
    using that unfolding Apply_def by (rule apply_active_texts [OF ok texts gs])
  obtain ct st where "contentType h req (ForPhase gs False) = Inr ct" and "response_body h req (ForPhase gs False) = Inr st"
    using run by (auto simp: inspect_response_def rbind_Inr_iff)
  with run show ?thesis
    by (cases st)
      (auto simp: inspect_response_def rbind_Inr_iff dest: store_fault_wf [OF _ req]
        intro: conclude_wf [OF _ req texts _ fit] applied)
qed

lemma inspect_wf:
  assumes run: "inspect h elapsed req = Inr (y, det, puts)" and req: "Request_wf req" and fit: "puts_fit puts"
    and prof: "\<And>p. Snapshot_Profile (hd_snapshot h) (rt_Profile (r_Route req)) = Some p \<Longrightarrow> profile_ok V recomp p \<and> profile_texts p"
  shows "Reply_wf y"
proof (cases "Snapshot_Profile (hd_snapshot h) (rt_Profile (r_Route req))")
  case None
  with run req show ?thesis by (auto simp: inspect_unknown intro: ErrorReply_wf)
next
  case (Some p)
  then have ok: "profile_ok V recomp p" and texts: "profile_texts p" using prof by auto
  show ?thesis
  proof (cases "p_Mode p = ModeOff")
    case True
    with run Some req show ?thesis by (auto simp: inspect_def intro: plain_wf)
  next
    case False
    obtain ask where ask: "EvaluatePrior (r_Prior req) (Some p) = Inr ask" using EvaluatePrior_total [OF ok] by blast
    show ?thesis
      using run unfolding inspect_unfold [OF Some False ask]
      by (auto simp: rbind_Inr_iff split: if_splits intro: plain_wf [OF req]
          inspectFrame_wf [OF _ req ok texts fit] inspect_response_wf [OF _ req ok texts _ fit])
  qed
qed

section \<open>Properties\<close>

text \<open>The reply a task is answered with.\<close>

definition decided :: "handler \<Rightarrow> float64 \<Rightarrow> Task \<Rightarrow> string \<Rightarrow> Reply" where
  "decided h elapsed t shed =
     (if shed \<noteq> [] then ShedReply (t_Req t) shed
      else (case inspect h elapsed (t_Req t) of
          Inl _ \<Rightarrow> FallbackReply (r_RID (t_Req t)) (cf_Name (hd_cfg h)) CodeInternalError
        | Inr (y, _, _) \<Rightarrow> y))"

lemma evaluate_sends_decided:
  assumes "t_Reply t \<noteq> []"
  shows "wd_published (evaluate h elapsed t budget shed w) = wd_published w @ [(t_Reply t, encodeReply (decided h elapsed t shed))]"
proof (cases "shed = [] \<and> (\<exists>v. inspect h elapsed (t_Req t) = Inr v)")
  case True
  then obtain y det puts where "shed = []" and run: "inspect h elapsed (t_Req t) = Inr (y, det, puts)" by auto
  moreover from run have "y_Score y = None" by (auto dest: echoes_answers simp: answers_def)
  ultimately show ?thesis using assms by (simp add: evaluate_def recoverInto_def send_reply_publishes decided_def)
next
  case False
  with assms show ?thesis
    by (cases "inspect h elapsed (t_Req t)") (auto simp: evaluate_def recoverInto_def send_reply_publishes decided_def)
qed

lemma decided_wf:
  assumes "Request_wf (t_Req t)" and "valid_utf8 (cf_Name (hd_cfg h))" and "valid_utf8 shed"
    and "\<And>p. Snapshot_Profile (hd_snapshot h) (rt_Profile (r_Route (t_Req t))) = Some p \<Longrightarrow> profile_ok V recomp p \<and> profile_texts p"
    and "\<And>y det puts. shed = [] \<Longrightarrow> inspect h elapsed (t_Req t) = Inr (y, det, puts) \<Longrightarrow> puts_fit puts"
  shows "Reply_wf (decided h elapsed t shed)"
  using assms(1-3,5) inspect_wf [OF _ assms(1) _ assms(4)] request_wf_parts [OF assms(1)]
  by (auto simp: decided_def intro: ShedReply_wf FallbackReply_wf split: sum.split)

lemma evaluate_puts:
  assumes "puts_fit (wd_puts (evaluate h elapsed t budget [] w))" and "inspect h elapsed (t_Req t) = Inr (y, det, puts)"
  shows "puts_fit puts"
proof (cases "t_Reply t = []")
  case True
  with assms show ?thesis by (auto simp: evaluate_def recoverInto_def puts_fit_def)
next
  case False
  from assms(2) have "y_Score y = None" by (auto dest: echoes_answers simp: answers_def)
  with False assms show ?thesis
    by (auto simp: evaluate_def recoverInto_def send_reply_publishes puts_fit_def)
qed

text \<open>
  C2. From bytes to bytes: a message that \<open>Parse\<close> accepts is answered on its reply subject with exactly one message, whose
  bytes the reader decodes to the reply that was decided on (the shed, the verdict of the inspection, or the
  fallback after a panic), member by member. The texts of the configuration and of the profile in use are well-formed
  UTF-8 and the lengths of the stored bodies have 64 bits.
\<close>

theorem decision_reaches_the_proxy:
  assumes "Parse ord payload = Inr (t_Req t)" and "range_order ord" and "t_Reply t \<noteq> []"
    and "valid_utf8 (cf_Name (hd_cfg h))" and "valid_utf8 shed"
    and "\<And>p. Snapshot_Profile (hd_snapshot h) (rt_Profile (r_Route (t_Req t))) = Some p \<Longrightarrow> profile_ok V recomp p \<and> profile_texts p"
    and "puts_fit (wd_puts (evaluate h elapsed t budget shed w))"
  shows "\<exists>data. wd_published (evaluate h elapsed t budget shed w) = wd_published w @ [(t_Reply t, data)] \<and>
    decodeReply data = Some (decided h elapsed t shed)"
proof -
  have "Request_wf (t_Req t)" using assms(1,2) decoded_ok(1) [of payload] by (simp add: Parse_Inr_iff)
  with assms(4-7) have "Reply_wf (decided h elapsed t shed)"
    by (intro decided_wf) (auto intro: evaluate_puts)
  then show ?thesis by (simp add: evaluate_sends_decided [OF assms(3)] decode_encode)
qed

lemma example_response_wf: "Request_wf example_response"
  by (simp add: example_response_def example_request_def example_locator_def Request_wf_def zero_defs Conn_wf_def HTTP_wf_def
      Store_wf_def Route_wf_def ScoreState_wf_def Response_wf_def Locator_wf_def valid_utf8_ascii is_ascii_def int64_def uint64_def)

lemma example_response_ok: "request_ok example_response"
  by (simp add: request_ok_def example_response_def example_request_def example_locator_def zero_defs store_ok_def
      locator_ok_def phase_defs)

lemma example_profile_texts: "profile_texts example_profile"
  by (simp add: profile_texts_def example_profile_def defaults_def DefaultDenyResponse_def DefaultName_def example_group_def valid_utf8_ascii is_ascii_def)

theorem decision_reaches_the_proxy_witness:
  "\<exists>data. wd_published (evaluate example_handler 0 (example_task\<lparr>t_Req := example_response\<rparr>) 9 [] example_world) = [(''inbox'', data)] \<and>
     (\<exists>y. decodeReply data = Some y \<and> y_RID y = ''ab12'' \<and>
        y_Rewrite y = Some \<lparr>rw_Body = Some \<lparr>rb_Key = ''k:out'', rb_Size = 2, rb_SHA256 = hex_sha256 ''ab''\<rparr>, rw_Groups = [''mask'']\<rparr>)"
proof -
  let ?t = "example_task\<lparr>t_Req := example_response\<rparr>"
  obtain det where verdict: "inspect example_handler 0 example_response =
    Inr ((plain example_response VerdictAllow CodeApplied)\<lparr>y_Headers := Some \<lparr>ho_Set = [''X-Masked'' \<mapsto> ''1''], ho_Unset = []\<rparr>,
      y_Rewrite := Some \<lparr>rw_Body = Some \<lparr>rb_Key = ''k:out'', rb_Size = 2, rb_SHA256 = hex_sha256 ''ab''\<rparr>,
        rw_Groups = [''mask'']\<rparr>\<rparr>, det, [(''k:out'', ''ab'', OutTTL)])"
    using example_verdict by blast
  have parsed: "Parse rev (encodeRequest example_response) = Inr (t_Req ?t)"
    by (simp add: Parse_ok [OF reverse_order decode_encode(1) [OF example_response_wf] example_response_ok])
  have puts: "puts_fit (wd_puts (evaluate example_handler 0 ?t 9 [] example_world))"
    by (simp add: evaluate_def recoverInto_def verdict send_reply_publishes example_task_def example_world_def puts_fit_def int64_def)
  have "\<exists>data. wd_published (evaluate example_handler 0 ?t 9 [] example_world) = wd_published example_world @ [(t_Reply ?t, data)] \<and>
    decodeReply data = Some (decided example_handler 0 ?t [])"
    by (rule decision_reaches_the_proxy [OF parsed reverse_order _ _ _ _ puts, of ascii_tables literal_compile])
      (use example_profile_found example_profile_ok example_profile_texts in
        \<open>simp_all add: example_task_def example_handler_def example_config_def valid_utf8_ascii is_ascii_def\<close>)
  moreover have "r_RID example_response = ''ab12''" by (simp add: example_response_def example_request_def)
  ultimately show ?thesis by (auto simp: decided_def verdict example_task_def example_world_def)
qed

end
