(* ===== verification/AuditTrail.thy ===== *)
theory AuditTrail
  imports Delivery
begin

text \<open>
  The audit trail: an evaluation hands exactly one event to the sink, and the event, as a reader decodes it, names
  the request and has the verdict that the proxy gets. The texts of the details are followed through the inspection.
\<close>

section \<open>Well-formed details\<close>

definition row_texts :: "GroupRow \<Rightarrow> bool" where
  "row_texts r \<longleftrightarrow> valid_utf8 (gr_Group r) \<and> valid_utf8 (gr_Skipped r)"

definition outcome_texts :: "ActionOutcome \<Rightarrow> bool" where
  "outcome_texts x \<longleftrightarrow> valid_utf8 (o_From x) \<and> valid_utf8 (o_Do x) \<and> valid_utf8 (o_Apply x) \<and> valid_utf8 (o_Code x) \<and>
     (\<forall>g\<in>set (o_Groups x). valid_utf8 g) \<and> valid_utf8 (o_Outcome x)"

fun any_texts :: "any \<Rightarrow> bool" where
  "any_texts (AStr s) \<longleftrightarrow> valid_utf8 s"
| "any_texts (AStrs ss) \<longleftrightarrow> (\<forall>s\<in>set ss. valid_utf8 s)"
| "any_texts (ARows rs) \<longleftrightarrow> (\<forall>r\<in>set rs. row_texts r)"
| "any_texts (AOutcomes xs) \<longleftrightarrow> (\<forall>x\<in>set xs. outcome_texts x)"
| "any_texts _ \<longleftrightarrow> True"

definition engine_texts :: "(string \<rightharpoonup> any) \<Rightarrow> bool" where
  "engine_texts m \<longleftrightarrow> finite (dom m) \<and> (\<forall>k v. m k = Some v \<longrightarrow> valid_utf8 k \<and> any_texts v)"

definition details_texts :: "details \<Rightarrow> bool" where
  "details_texts det \<longleftrightarrow> d_Findings det = None \<and> (\<forall>m\<in>set_option (d_Engine det). engine_texts m)"

lemma engine_texts_upd: "engine_texts m \<Longrightarrow> is_ascii k \<Longrightarrow> any_texts v \<Longrightarrow> engine_texts (m(k \<mapsto> v))"
  by (auto simp: engine_texts_def valid_utf8_ascii split: if_splits)

lemma details_set_engine: "details_texts det \<Longrightarrow> is_ascii k \<Longrightarrow> any_texts v \<Longrightarrow> details_texts (set_engine k v det)"
  by (auto simp: details_texts_def set_engine_def engine_texts_upd)

lemma details_set_engine_if:
  "details_texts det \<Longrightarrow> is_ascii k \<Longrightarrow> any_texts v \<Longrightarrow> details_texts (if b then set_engine k v det else det)"
  by (simp add: details_set_engine)

lemma details_set_ms [simp]: "details_texts (set_ms x det) \<longleftrightarrow> details_texts det"
  by (simp add: details_texts_def set_ms_def)

lemma no_details_texts [simp]: "details_texts no_details"
  by (simp add: details_texts_def no_details_def)

lemma shed_details_texts:
  "valid_utf8 shed \<Longrightarrow> details_texts (no_details\<lparr>d_Engine := Some [''shed'' \<mapsto> AStr shed, ''budget_ms'' \<mapsto> AFloat x]\<rparr>)"
  by (auto simp: details_texts_def no_details_def engine_texts_def valid_utf8_ascii is_ascii_def)

lemma key_ascii [simp]:
  "is_ascii ''error''" "is_ascii ''groups''" "is_ascii ''budget_spent''" "is_ascii ''would_apply''" "is_ascii ''applied''"
  "is_ascii ''bytes_in''" "is_ascii ''bytes_out''" "is_ascii ''store''" "is_ascii ''conn''" "is_ascii ''seq''"
  "is_ascii ''direction''" "is_ascii ''opcode''" "is_ascii ''passive''" "is_ascii ''actions''"
  by (simp_all add: is_ascii_def)

section \<open>Where the texts come from\<close>

lemma apply_body_ops_skipped:
  "apply_body_ops U ops out budget row = Inr (out', budget', row') \<Longrightarrow> ap_Rows out' = ap_Rows out \<and> gr_Skipped row' \<in> {gr_Skipped row, ''budget''}"
  by (induction U ops out budget row rule: apply_body_ops.induct) (auto simp: rbind_Inr_iff split: if_splits)

lemma apply_loop_skipped:
  "apply_loop U sel body gs st = Inr st' \<Longrightarrow> \<forall>r\<in>set (ap_Rows (fst st)). valid_utf8 (gr_Skipped r) \<Longrightarrow>
     \<forall>r\<in>set (ap_Rows (fst st')). valid_utf8 (gr_Skipped r)"
proof (induction gs arbitrary: st)
  case (Cons g gs)
  have skipped: "valid_utf8 ''conditions''" "valid_utf8 ''no_body''" "valid_utf8 ''budget''" by (simp_all add: valid_utf8_ascii is_ascii_def)
  obtain mid where mid: "apply_group U sel body g st = Inr mid" "apply_loop U sel body gs mid = Inr st'"
    using Cons.prems(1) by (auto simp: rbind_Inr_iff)
  have "\<forall>r\<in>set (ap_Rows (fst mid)). valid_utf8 (gr_Skipped r)"
    using mid(1) Cons.prems(2) skipped
    by (auto simp: apply_group_def Let_def rbind_Inr_iff fold_applyHeaderOp split: if_splits prod.splits dest!: apply_body_ops_skipped)
  from Cons.IH [OF mid(2) this] show ?case .
qed simp

lemma apply_active_rows:
  assumes "profile_ok V recomp p" and "profile_texts p" and "Active ask p = Inr gs"
    and "apply_groups U (ForPhase gs frame) sel body = Inr out"
  shows "\<forall>r\<in>set (ap_Rows out). row_texts r"
proof -
  obtain budget where inv: "applied_inv sel body (ForPhase gs frame) (out, budget)"
    using apply_active [OF assms(1,3), of U frame sel body] assms(4) by auto
  have "map gr_Group (ap_Rows out) = map g_Name (ForPhase gs frame)" using inv by (simp add: applied_inv_def)
  then have "gr_Group ` set (ap_Rows out) = g_Name ` set (ForPhase gs frame)" by (metis list.set_map)
  then have "valid_utf8 (gr_Group r)" if "r \<in> set (ap_Rows out)" for r
    using active_texts [OF assms(1-3), of frame] that by (metis imageE imageI)
  moreover have "\<forall>r\<in>set (ap_Rows out). valid_utf8 (gr_Skipped r)"
    using assms(4) apply_loop_skipped [of U sel body "ForPhase gs frame" "(start_applied body, MatchBudget)"]
    by (auto simp: apply_groups_def rbind_Inr_iff start_applied_def)
  ultimately show ?thesis by (simp add: row_texts_def)
qed

lemma deliver_rule_texts:
  assumes "Action_wf act" and "outcome_texts (snd st)"
  shows "outcome_texts (snd (deliver_rule from1 act known r st))" and "k_Outcomes (fst (deliver_rule from1 act known r st)) = k_Outcomes (fst st)"
proof -
  have group: "valid_utf8 (a_Group act)" using assms(1) by (simp add: Action_wf_def)
  have marks: "valid_utf8 ''?''" "valid_utf8 ''-''" "valid_utf8 ''+''" by (simp_all add: valid_utf8_ascii is_ascii_def)
  have "valid_utf8 (''?'' @ a_Group act)" "valid_utf8 (''-'' @ a_Group act)" "valid_utf8 (''+'' @ a_Group act)"
    by (rule valid_utf8_append [OF _ group], rule marks)+
  moreover have "valid_utf8 OutcomeApplied" "valid_utf8 OutcomeUnknownGroup"
    by (simp_all add: valid_utf8_ascii is_ascii_def OutcomeApplied_def OutcomeUnknownGroup_def)
  moreover obtain a out where st: "st = (a, out)" by fastforce
  ultimately show "outcome_texts (snd (deliver_rule from1 act known r st))"
    using assms(2) unfolding st deliver_rule_def prod.case
    by (simp only: if_distrib [of snd] snd_conv outcome_texts_def) (simp add: ball_Un)
  show "k_Outcomes (fst (deliver_rule from1 act known r st)) = k_Outcomes (fst st)"
    unfolding st deliver_rule_def prod.case by simp
qed

lemma deliver_texts:
  assumes "Action_wf act" and "valid_utf8 from1" and "\<forall>x\<in>set (k_Outcomes a). outcome_texts x"
  shows "\<forall>x\<in>set (k_Outcomes (deliver from1 act rules known a)). outcome_texts x"
proof -
  define out where "out = \<lparr>o_From = from1, o_Do = a_Do act, o_Apply = Scope act, o_Code = a_Code act, o_Groups = [], o_Outcome = OutcomeNoRule\<rparr>"
  have "valid_utf8 OutcomeNoRule" "valid_utf8 ApplyRequest"
    by (simp_all add: valid_utf8_ascii is_ascii_def OutcomeNoRule_def ApplyRequest_def)
  with assms have out: "outcome_texts out" by (simp add: out_def outcome_texts_def Action_wf_def Scope_def)
  have "outcome_texts (snd (fold (deliver_rule from1 act known) rules (a, out))) \<and>
      k_Outcomes (fst (fold (deliver_rule from1 act known) rules (a, out))) = k_Outcomes a"
    using deliver_rule_texts [OF assms(1)] out
    by (intro fold_invariant [where Q = "\<lambda>_. True" and P = "\<lambda>st. outcome_texts (snd st) \<and> k_Outcomes (fst st) = k_Outcomes a"]) auto
  with assms(3) show ?thesis by (simp add: deliver_def case_prod_unfold Let_def flip: out_def)
qed

lemma EvaluatePrior_texts:
  assumes "\<forall>v\<in>set entries. PriorVerdict_wf v" and "EvaluatePrior entries (Some p) = Inr ask"
  shows "\<forall>x\<in>set (k_Outcomes ask). outcome_texts x"
proof -
  let ?P = "\<lambda>a. \<forall>x\<in>set (k_Outcomes a). outcome_texts x"
  have inner: "?P (fold (\<lambda>act. deliver (pv_Inspector v) act rules known) (pv_Actions v) a)" if v: "PriorVerdict_wf v" "?P a" for v a rules known
  proof (rule fold_invariant [where Q = Action_wf and P = ?P])
    show "?P a" by (rule v(2))
    show "\<And>act. act \<in> set (pv_Actions v) \<Longrightarrow> Action_wf act" using v(1) by (simp add: PriorVerdict_wf_def)
    show "\<And>act s. Action_wf act \<Longrightarrow> ?P s \<Longrightarrow> ?P (deliver (pv_Inspector v) act rules known s)"
      by (rule deliver_texts) (use v(1) in \<open>simp_all add: PriorVerdict_wf_def\<close>)
  qed
  have "?P (fold (\<lambda>v. fold (\<lambda>act. deliver (pv_Inspector v) act rules known) (pv_Actions v)) entries no_ask)" for rules known
  proof (rule fold_invariant [where Q = PriorVerdict_wf and P = ?P])
    show "?P no_ask" by (simp add: no_ask_def)
    show "\<And>v. v \<in> set entries \<Longrightarrow> PriorVerdict_wf v" using assms(1) by blast
    show "\<And>v s. PriorVerdict_wf v \<Longrightarrow> ?P s \<Longrightarrow> ?P (fold (\<lambda>act. deliver (pv_Inspector v) act rules known) (pv_Actions v) s)"
      by (rule inner)
  qed
  with assms(2) show ?thesis by (auto simp: EvaluatePrior_def rbind_Inr_iff)
qed

lemma Load_texts:
  assumes "Load l loc = Inr b" and "\<forall>x\<in>set_option loc. valid_utf8 (l_Unavailable x)"
  shows "valid_utf8 (bo_Unavailable b)"
proof -
  have "valid_utf8 unavailableNoStore" "valid_utf8 unavailableStoreError" "valid_utf8 unavailableUnknownDrv"
    "valid_utf8 unavailableDecryptFail" "valid_utf8 unavailableDigestFail"
    by (simp_all add: valid_utf8_ascii is_ascii_def unavailableNoStore_def unavailableStoreError_def unavailableUnknownDrv_def
        unavailableDecryptFail_def unavailableDigestFail_def)
  moreover from this have "valid_utf8 (bo_Unavailable (check_digest loc raw))" for loc raw
    by (cases loc raw rule: check_digest_cases) simp_all
  ultimately show ?thesis
    using assms by (auto simp: Load_def finish_def rbind_Inr_iff split: option.splits if_splits sum.splits store_err.splits)
qed

section \<open>Details of an inspection\<close>

lemma request_detail_texts:
  assumes "Request_wf req"
  shows "valid_utf8 (r_ConnID req)" and "\<forall>st\<in>set_option (r_Stream req). valid_utf8 (st_Direction st) \<and> valid_utf8 (st_Opcode st)"
    and "\<forall>v\<in>set (r_Prior req). PriorVerdict_wf v" and "\<forall>x\<in>set_option (s_Body (r_Store req)). valid_utf8 (l_Unavailable x)"
  using assms by (simp_all add: Request_wf_def Stream_wf_def Store_wf_def Locator_wf_def)

lemma failPer_details: "details_texts det \<Longrightarrow> valid_utf8 c \<Longrightarrow> details_texts (snd (failPer p req c det))"
  by (simp add: failPer_def Let_def details_set_engine)

lemma conclude_details:
  assumes "conclude h elapsed p req out missing raw det = Inr (y, det', puts)" and "details_texts det" and "applied_texts out"
  shows "details_texts det'"
proof -
  have groups: "any_texts (AStrs (ap_Groups out))" using assms(3) by (simp add: applied_texts_def)
  note steps = failPer_details details_set_engine [OF _ _ groups] details_set_engine [where v = "AInt _"]
  show ?thesis
  proof (cases "missing \<or> p_Mode p = ModeObserve \<or> ap_Groups out = [] \<or> \<not> ap_BodyChanged out")
    case True
    then show ?thesis
      using assms(1,2) by (simp add: conclude_def Let_def case_prod_unfold split: if_splits) (auto intro!: steps)
  next
    case False
    with assms(1) obtain r where r: "put_body h req (bytes_of (ap_Body out)) = Inr r"
      by (auto simp: conclude_def Let_def rbind_Inr_iff)
    show ?thesis
      using assms(1,2) False r by (cases r) (simp_all add: conclude_def Let_def case_prod_unfold, auto intro!: steps)
  qed
qed

lemma conclude_frame_details:
  assumes "conclude_frame h elapsed p req out missing raw det = Inr (y, det', puts)" and "details_texts det" and "applied_texts out"
  shows "details_texts det'"
proof -
  have groups: "any_texts (AStrs (ap_Groups out))" using assms(3) by (simp add: applied_texts_def)
  note steps = failPer_details details_set_engine [OF _ _ groups] details_set_engine [where v = "AInt _"]
  show ?thesis
  proof (cases "missing \<or> p_Mode p = ModeObserve \<or> ap_Groups out = [] \<or> \<not> ap_BodyChanged out")
    case True
    then show ?thesis
      using assms(1,2) by (simp add: conclude_frame_def Let_def case_prod_unfold split: if_splits) (auto intro!: steps)
  next
    case False
    with assms(1) obtain r where r: "put_body h req (bytes_of (ap_Body out)) = Inr r"
      by (auto simp: conclude_frame_def Let_def rbind_Inr_iff)
    show ?thesis
      using assms(1,2) False r by (cases r) (simp_all add: conclude_frame_def Let_def case_prod_unfold, auto intro!: steps)
  qed
qed

lemma note_applied_details:
  "details_texts det \<Longrightarrow> \<forall>r\<in>set (ap_Rows out). row_texts r \<Longrightarrow> details_texts (note_applied out det)"
  by (simp add: note_applied_def Let_def details_set_engine)

lemma store_fault_details: "store_fault elapsed req why det = (y, det', puts) \<Longrightarrow> details_texts det \<Longrightarrow> valid_utf8 why \<Longrightarrow> details_texts det'"
  by (auto simp: store_fault_def intro!: details_set_engine)

lemma inspectFrame_details:
  assumes run: "inspectFrame h elapsed req p ask det = Inr (y, det', puts)" and req: "Request_wf req"
    and ok: "profile_ok V recomp p" and texts: "profile_texts p" and det: "details_texts det"
  shows "details_texts det'"
proof -
  define d where "d = (let direction = (case r_Stream req of None \<Rightarrow> [] | Some st \<Rightarrow> st_Direction st);
          opcode = (case r_Stream req of None \<Rightarrow> [] | Some st \<Rightarrow> st_Opcode st);
          det = set_engine ''conn'' (AStr (r_ConnID req)) det;
          det = set_engine ''seq'' (AInt (int (r_Seq req))) det;
          det = set_engine ''direction'' (AStr direction) det
      in set_engine ''opcode'' (AStr opcode) det)"
  have d: "details_texts d"
    using request_detail_texts(1,2) [OF req] det by (cases "r_Stream req") (simp_all add: d_def Let_def details_set_engine)
  obtain gs where gs: "Active ask p = Inr gs" using run by (auto simp: inspectFrame_def rbind_Inr_iff Let_def)
  have applied: "applied_texts out \<and> details_texts (note_applied out d)"
    if "ApplyFrame (hd_unicode h) (ForPhase gs True) dir opc raw = Inr out" for dir opc raw out
    using apply_active_texts [OF ok texts gs that [unfolded ApplyFrame_def]] apply_active_rows [OF ok texts gs that [unfolded ApplyFrame_def]]
    by (simp add: note_applied_details [OF d])
  show ?thesis
  proof (cases "ForPhase gs True = []")
    case True
    with run gs d show ?thesis by (auto simp: inspectFrame_def Let_def d_def)
  next
    case False
    with run gs obtain loaded where loaded: "Load (hd_loader h) (s_Body (r_Store req)) = Inr loaded"
      by (auto simp: inspectFrame_def Let_def rbind_Inr_iff)
    have why: "valid_utf8 (bo_Unavailable loaded)" using Load_texts [OF loaded request_detail_texts(4) [OF req]] .
    show ?thesis
      using run False gs loaded applied d why
      by (cases "body_state loaded")
        (auto simp: inspectFrame_def Let_def rbind_Inr_iff body_state_def d_def split: if_splits
          dest: store_fault_details conclude_frame_details)
  qed
qed

lemma inspect_response_details:
  assumes run: "inspect_response h elapsed req p (ForPhase gs False) det = Inr (y, det', puts)" and req: "Request_wf req"
    and ok: "profile_ok V recomp p" and texts: "profile_texts p" and gs: "Active ask p = Inr gs" and det: "details_texts det"
  shows "details_texts det'"
proof -
  have applied: "applied_texts out \<and> details_texts (note_applied out det)"
    if "Apply (hd_unicode h) (ForPhase gs False) status ct raw = Inr out" for status ct raw out
    using apply_active_texts [OF ok texts gs that [unfolded Apply_def]] apply_active_rows [OF ok texts gs that [unfolded Apply_def]]
    by (simp add: note_applied_details [OF det])
  obtain ct st where ct: "contentType h req (ForPhase gs False) = Inr ct" and st: "response_body h req (ForPhase gs False) = Inr st"
    using run by (auto simp: inspect_response_def rbind_Inr_iff)
  have "valid_utf8 why" if "st = BodyFault why" for why
    using st that Load_texts [OF _ request_detail_texts(4) [OF req]]
    by (auto simp: response_body_def rbind_Inr_iff body_state_def split: if_splits)
  with run ct st applied det show ?thesis
    by (cases st) (auto simp: inspect_response_def rbind_Inr_iff dest: store_fault_details conclude_details)
qed

lemma start_details_texts:
  assumes "profile_ok V recomp p" and "profile_texts p" and "\<forall>x\<in>set (k_Outcomes ask). outcome_texts x"
  shows "details_texts (start_details p ask)"
proof -
  have "valid_utf8 (p_Mode p)" using assms(1) by (auto simp: profile_ok_def mode_defs valid_utf8_ascii is_ascii_def)
  with assms(2) have "engine_texts [''profile'' \<mapsto> AStr (p_Name p), ''mode'' \<mapsto> AStr (p_Mode p)]"
    by (auto simp: engine_texts_def profile_texts_def valid_utf8_ascii is_ascii_def split: if_splits)
  then have "details_texts \<lparr>d_EngineMS = 0, d_Findings = None, d_Engine = Some [''profile'' \<mapsto> AStr (p_Name p), ''mode'' \<mapsto> AStr (p_Mode p)]\<rparr>"
    by (simp add: details_texts_def)
  then show ?thesis unfolding start_details_def Let_def by (intro details_set_engine_if) (use assms(3) in simp_all)
qed

lemma inspect_details:
  assumes run: "inspect h elapsed req = Inr (y, det, puts)" and req: "Request_wf req"
    and prof: "\<And>p. Snapshot_Profile (hd_snapshot h) (rt_Profile (r_Route req)) = Some p \<Longrightarrow> profile_ok V recomp p \<and> profile_texts p"
  shows "details_texts det"
proof (cases "Snapshot_Profile (hd_snapshot h) (rt_Profile (r_Route req))")
  case None
  with run show ?thesis by (auto simp: inspect_unknown)
next
  case (Some p)
  then have ok: "profile_ok V recomp p" and texts: "profile_texts p" using prof by auto
  show ?thesis
  proof (cases "p_Mode p = ModeOff")
    case True
    with run Some show ?thesis by (auto simp: inspect_def)
  next
    case False
    obtain ask where ask: "EvaluatePrior (r_Prior req) (Some p) = Inr ask" using EvaluatePrior_total [OF ok] by blast
    note start = start_details_texts [OF ok texts EvaluatePrior_texts [OF request_detail_texts(3) [OF req] ask]]
    show ?thesis
      using run start unfolding inspect_unfold [OF Some False ask]
      by (auto simp: rbind_Inr_iff split: if_splits
          dest: inspectFrame_details [OF _ req ok texts] inspect_response_details [OF _ req ok texts])
  qed
qed

section \<open>Events\<close>

lemma json_ok_members: "json_ok (Suc d) (JObj ms) \<longleftrightarrow> (\<forall>m\<in>set ms. valid_utf8 (fst m) \<and> json_ok d (snd m))"
  by simp

lemma omit_if_set [simp]: "(\<forall>m\<in>set (omit_if b n j). P m) \<longleftrightarrow> b \<or> P (n, j)"
  by (simp add: omit_if_def)

lemma enc_slice_fits: "\<forall>x\<in>set xs. json_ok d (enc x) \<Longrightarrow> json_ok (Suc d) (enc_slice enc xs)"
  by (simp add: enc_slice_def)

lemma enc_GroupRow_fits: "row_texts r \<Longrightarrow> json_ok (Suc d) (enc_GroupRow r)"
  by (simp add: enc_GroupRow_def row_texts_def ball_Un valid_utf8_ascii is_ascii_def)

lemma enc_ActionOutcome_fits: "outcome_texts x \<Longrightarrow> json_ok (Suc (Suc d)) (enc_ActionOutcome x)"
  using enc_slice_fits [of "o_Groups x" d JStr]
  by (simp add: enc_ActionOutcome_def outcome_texts_def ball_Un valid_utf8_ascii is_ascii_def)

lemma enc_any_fits: "any_texts v \<Longrightarrow> json_ok (Suc (Suc (Suc d))) (enc_any v)"
  by (cases v) (auto intro!: enc_slice_fits enc_GroupRow_fits enc_ActionOutcome_fits)

lemma enc_map_fits:
  assumes "finite (dom m)" and "\<And>k v. m k = Some v \<Longrightarrow> valid_utf8 k \<and> json_ok d (enc v)"
  shows "json_ok (Suc d) (enc_map enc m)"
  using assms by (auto simp: enc_map_def)

lemma enc_Finding_none: "details_texts det \<Longrightarrow> ev_Findings (Build ts req reply det) = []"
  by (auto simp: Build_def Let_def details_texts_def split: option.splits)

text \<open>The event of a reply to a request.\<close>

lemma Build_simps:
  assumes "ev = Build ts (Some req) (Some y) det"
  shows "ev_V ev = AuditVersion" "ev_Kind ev = Kind" "ev_TS ev = ts" "ev_Ray ev = r_Ray req" "ev_Node ev = r_Node req"
    "ev_Phase ev = r_Phase req" "ev_Profile ev = rt_Profile (r_Route req)" "ev_Verdict ev = y_Verdict y" "ev_Score ev = y_Score y"
    "ev_Inspector ev = (if r_Inspector req = [] then y_Inspector y else r_Inspector req)"
    "ev_Engine ev = d_Engine det" "ev_EngineMS ev = d_EngineMS det"
    "\<forall>f\<in>set_option (ev_Frame ev). \<exists>st. r_Stream req = Some st \<and> fr_Direction f = st_Direction st"
  using assms by (auto simp: Build_def Let_def split: option.splits)

lemma event_fits:
  assumes "Request_wf req" and "Reply_wf y" and "details_texts det" and "valid_utf8 ts"
  shows "json_ok 5 (enc_Event enc_any (Build ts (Some req) (Some y) det))"
proof -
  define ev where "ev = Build ts (Some req) (Some y) det"
  note ev = Build_simps [OF ev_def]
  have "valid_utf8 Kind" by (simp add: Kind_def valid_utf8_ascii is_ascii_def)
  moreover have "valid_utf8 (r_Ray req)" "valid_utf8 (r_Node req)" "valid_utf8 (r_Phase req)" "valid_utf8 (r_Inspector req)"
    "valid_utf8 (rt_Profile (r_Route req))" "valid_utf8 (y_Verdict y)" "valid_utf8 (y_Inspector y)"
    using assms(1,2) by (simp_all add: Request_wf_def Route_wf_def Reply_wf_def)
  moreover have "json_ok 4 (enc_map enc_any (engine_map ev))"
    using assms(3) enc_map_fits [of "engine_map ev" 3 enc_any] enc_any_fits [of _ 0]
    by (auto simp: engine_map_def ev details_texts_def engine_texts_def eval_nat_numeral enc_map_def split: option.splits)
  moreover have "\<forall>f\<in>set_option (ev_Frame ev). json_ok 4 (enc_FrameRef f)"
    using ev(13) request_detail_texts(2) [OF assms(1)]
    by (fastforce simp: enc_FrameRef_def valid_utf8_ascii is_ascii_def)
  moreover have "ev_Findings ev = []" using assms(3) by (simp add: ev_def enc_Finding_none)
  ultimately have "json_ok (Suc 4) (enc_Event enc_any ev)"
    using assms(4) unfolding enc_Event_def json_ok_members
    by (simp add: ev(1-12) ball_Un valid_utf8_ascii is_ascii_def)
  then show ?thesis by (simp add: ev_def eval_nat_numeral)
qed

lemma event_encoded:
  assumes "Request_wf req" and "Reply_wf y" and "details_texts det" and "valid_utf8 ts"
    and "i_body it = json_Marshal (enc_Event enc_any) (Build ts (Some req) (Some y) det)"
  shows "encoded it" and "seen it = enc_Event enc_any (Build ts (Some req) (Some y) det)"
proof -
  have "json_ok d (enc_Event enc_any (Build ts (Some req) (Some y) det))" if "5 \<le> d" for d
    using event_fits [OF assms(1-4)] that by (rule json_ok_mono)
  from this [of "maxNestingDepth - 2"] this [of maxNestingDepth] assms(5)
  show "encoded it" "seen it = enc_Event enc_any (Build ts (Some req) (Some y) det)"
    by (auto simp: encoded_def seen_def json_Marshal_def parse_print maxNestingDepth_def)
qed

text \<open>The members of an event as a reader finds them.\<close>

fun member :: "string \<Rightarrow> json \<Rightarrow> json option" where
  "member k (JObj ms) = map_of ms k"
| "member k _ = None"

lemma enc_Event_members:
  "member ''ray'' (enc_Event enc ev) = Some (JStr (ev_Ray ev))" "member ''phase'' (enc_Event enc ev) = Some (JStr (ev_Phase ev))"
  "member ''profile'' (enc_Event enc ev) = Some (JStr (ev_Profile ev))" "member ''verdict'' (enc_Event enc ev) = Some (JStr (ev_Verdict ev))"
  by (simp_all add: enc_Event_def)

section \<open>Properties\<close>

text \<open>The details that go with the reply to a task.\<close>

definition explained :: "handler \<Rightarrow> float64 \<Rightarrow> Task \<Rightarrow> int \<Rightarrow> string \<Rightarrow> details" where
  "explained h elapsed t budget shed =
     (if shed \<noteq> [] then no_details\<lparr>d_Engine := Some [''shed'' \<mapsto> AStr shed, ''budget_ms'' \<mapsto> AFloat (budget_ms budget)]\<rparr>
      else (case inspect h elapsed (t_Req t) of Inl _ \<Rightarrow> no_details | Inr (_, det, _) \<Rightarrow> det))"

lemma evaluate_adds_event:
  assumes "t_Reply t \<noteq> []" and "r_AuditSubject (t_Req t) = Some subject" and "subject \<noteq> []"
    and "shed = [] \<Longrightarrow> \<exists>v. inspect h elapsed (t_Req t) = Inr v"
  shows "wd_sink (evaluate h elapsed t budget shed w) = enqueue \<lparr>i_subject = subject, i_body = json_Marshal (enc_Event enc_any)
      (Build (hd_ts h) (Some (t_Req t)) (Some (decided h elapsed t shed)) (explained h elapsed t budget shed))\<rparr> (wd_sink w)"
proof -
  have sink: "wd_sink (send_reply h (t_Reply t) y (Some (t_Req t)) det v) = enqueue \<lparr>i_subject = subject,
      i_body = json_Marshal (enc_Event enc_any) (Build (hd_ts h) (Some (t_Req t)) (Some y) det)\<rparr> (wd_sink v)"
    if "y_Score y = None" for y det v
    using assms(1-3) that by (simp add: send_reply_def Marshal_total Add_def)
  show ?thesis
  proof (cases "shed = []")
    case True
    then obtain y det puts where run: "inspect h elapsed (t_Req t) = Inr (y, det, puts)" using assms(4) by auto
    then have "y_Score y = None" by (auto dest: echoes_answers simp: answers_def)
    with True run show ?thesis by (simp add: evaluate_def recoverInto_def decided_def explained_def sink)
  next
    case False
    then show ?thesis by (simp add: evaluate_def recoverInto_def decided_def explained_def sink)
  qed
qed

lemma explained_texts:
  assumes "Request_wf (t_Req t)" and "valid_utf8 shed"
    and "\<And>p. Snapshot_Profile (hd_snapshot h) (rt_Profile (r_Route (t_Req t))) = Some p \<Longrightarrow> profile_ok V recomp p \<and> profile_texts p"
  shows "details_texts (explained h elapsed t budget shed)"
  using shed_details_texts [OF assms(2)] inspect_details [OF _ assms(1) assms(3)]
  by (auto simp: explained_def split: sum.split)

text \<open>
  C4. Every verdict is on record: for a request that asks for an audit, an evaluation hands exactly one event to the
  sink, under the subject of the request. The event is JSON, and its reader finds the request's ray, phase and
  profile and the verdict that the proxy is sent for it, sheds included. The profiles are validated, the loader is the
  one the program builds, and the texts of the configuration are well-formed UTF-8.
\<close>

theorem every_verdict_is_audited:
  assumes "Parse ord payload = Inr (t_Req t)" and "range_order ord" and "t_Reply t \<noteq> []"
    and "r_AuditSubject (t_Req t) = Some subject" and "subject \<noteq> []"
    and "ld_keys (hd_loader h) = None" and "valid_utf8 (cf_Name (hd_cfg h))" and "valid_utf8 (hd_ts h)" and "valid_utf8 shed"
    and "\<And>p. Snapshot_Profile (hd_snapshot h) (rt_Profile (r_Route (t_Req t))) = Some p \<Longrightarrow> profile_ok V recomp p \<and> profile_texts p"
    and "puts_fit (wd_puts (evaluate h elapsed t budget shed w))"
  shows "\<exists>it. wd_sink (evaluate h elapsed t budget shed w) = enqueue it (wd_sink w) \<and> i_subject it = subject \<and> encoded it \<and>
    member ''ray'' (seen it) = Some (JStr (r_Ray (t_Req t))) \<and> member ''phase'' (seen it) = Some (JStr (r_Phase (t_Req t))) \<and>
    member ''profile'' (seen it) = Some (JStr (rt_Profile (r_Route (t_Req t)))) \<and>
    member ''verdict'' (seen it) = Some (JStr (y_Verdict (decided h elapsed t shed)))"
proof -
  have req: "Request_wf (t_Req t)" using assms(1,2) decoded_ok(1) [of payload] by (simp add: Parse_Inr_iff)
  have "\<exists>v. inspect h elapsed (t_Req t) = Inr v"
    using inspect_total [OF no_keys_safe [OF assms(6)]] assms(10) by blast
  note added = evaluate_adds_event [OF assms(3-5) this]
  have reply: "Reply_wf (decided h elapsed t shed)"
    using req assms(7,9-11) by (intro decided_wf) (auto intro: evaluate_puts)
  define ev where "ev = Build (hd_ts h) (Some (t_Req t)) (Some (decided h elapsed t shed)) (explained h elapsed t budget shed)"
  define it where "it = \<lparr>i_subject = subject, i_body = json_Marshal (enc_Event enc_any) ev\<rparr>"
  have "encoded it" "seen it = enc_Event enc_any ev"
    using event_encoded [OF req reply explained_texts [OF req assms(9,10)] assms(8), where it = it] by (simp_all add: it_def ev_def)
  with added show ?thesis
    by (intro exI [of _ it]) (simp add: enc_Event_members Build_simps [OF ev_def], simp add: it_def ev_def)
qed

definition audited_response :: Request where
  "audited_response = example_response\<lparr>r_Ray := ''r7'', r_AuditSubject := Some ''waf.audit.a''\<rparr>"

lemma audited_response_wf: "Request_wf audited_response"
  using example_response_wf by (simp add: audited_response_def Request_wf_def valid_utf8_ascii is_ascii_def)

lemma audited_response_ok: "request_ok audited_response"
  using example_response_ok by (simp add: audited_response_def request_ok_def split: option.splits)

theorem every_verdict_is_audited_witness:
  "\<exists>it. wd_sink (evaluate example_handler 0 (example_task\<lparr>t_Req := audited_response\<rparr>) 9 ReasonQueueLimit example_world) = enqueue it NewSink \<and>
     i_subject it = ''waf.audit.a'' \<and> member ''ray'' (seen it) = Some (JStr ''r7'') \<and> member ''verdict'' (seen it) = Some (JStr ''error'')"
proof -
  let ?t = "example_task\<lparr>t_Req := audited_response\<rparr>"
  have parsed: "Parse rev (encodeRequest audited_response) = Inr (t_Req ?t)"
    by (simp add: Parse_ok [OF reverse_order decode_encode(1) [OF audited_response_wf] audited_response_ok])
  have puts: "puts_fit (wd_puts (evaluate example_handler 0 ?t 9 ReasonQueueLimit example_world))"
    by (simp add: evaluate_def recoverInto_def send_reply_publishes example_task_def example_world_def puts_fit_def ReasonQueueLimit_def)
  have facts: "valid_utf8 ReasonQueueLimit" "valid_utf8 (cf_Name (hd_cfg example_handler))" "valid_utf8 (hd_ts example_handler)"
    "ld_keys (hd_loader example_handler) = None"
    by (simp_all add: ReasonQueueLimit_def example_handler_def example_config_def valid_utf8_ascii is_ascii_def)
  have route: "rt_Profile (r_Route audited_response) = rt_Profile (r_Route example_response)" by (simp add: audited_response_def)
  have req: "r_AuditSubject audited_response = Some ''waf.audit.a''" "r_Ray audited_response = ''r7''" by (simp_all add: audited_response_def)
  have "\<exists>it. wd_sink (evaluate example_handler 0 ?t 9 ReasonQueueLimit example_world) = enqueue it (wd_sink example_world) \<and>
      i_subject it = ''waf.audit.a'' \<and> encoded it \<and>
      member ''ray'' (seen it) = Some (JStr (r_Ray (t_Req ?t))) \<and> member ''phase'' (seen it) = Some (JStr (r_Phase (t_Req ?t))) \<and>
      member ''profile'' (seen it) = Some (JStr (rt_Profile (r_Route (t_Req ?t)))) \<and>
      member ''verdict'' (seen it) = Some (JStr (y_Verdict (decided example_handler 0 ?t ReasonQueueLimit)))"
    by (rule every_verdict_is_audited [OF parsed reverse_order _ _ _ facts(4,2,3,1) _ puts, of _ ascii_tables literal_compile])
      (use example_profile_found example_profile_ok example_profile_texts req route in \<open>simp_all add: example_task_def\<close>)
  then show ?thesis by (auto simp: req example_world_def decided_def ReasonQueueLimit_def verdict_defs)
qed

end
