(* ===== verification/Spec2Isabelle.thy ===== *)
theory Spec2Isabelle
  imports Process Probe PoolSpec AuditTrail
begin

text \<open>
  Verification of the rewrite inspector (src/, Go). The inspector receives HTTP responses and WebSocket
  frames from a proxy over a message bus, rewrites headers and bodies according to profiles, and answers
  every message with one verdict. This theory holds the theorems that span components; the others hold
  one component each.

  \<^bold>\<open>Parts of the program and the theories that model them.\<close>

  \<^item> Prelude, GoStrings, GoRegexp, GoCrypto: what the program uses of the language and its standard
    library. Results with errors and panics, 64-bit arithmetic, the locales \<open>transition_system\<close>, \<open>refinement\<close> and
    \<open>normaliser\<close>; strings and UTF-8; leftmost-first matching of regular expressions and template expansion;
    SHA-256, hexadecimal and base64.
  \<^item> GoJson, JsonCodec: encoding/json. The scanner and the printer of JSON texts, the quoting of strings, and
    reading and writing structs by tables of their fields (tags, omitempty, folded names, null, repeated
    members); GoJsonRaw has the numbers and the raw messages of audit events. The locale \<open>json_codec\<close> states what a codec promises and is interpreted for every message type.
  \<^item> Messages, Protocol (src/internal/protocol): the messages as records with their field tables and codecs;
    \<open>Parse\<close>, the constructors of replies, \<open>Marshal\<close>.
  \<^item> Profile (src/internal/config/profile.go): profiles, groups, operations; the selectors; \<open>Validate\<close>, which
    also fills in defaults, so that its result is the profile.
  \<^item> Decide (src/internal/decide): \<open>EvaluatePrior\<close> and \<open>Active\<close> select groups from the verdicts of earlier
    inspectors; \<open>apply_groups\<close> (the function \<open>apply\<close>) edits the body under the match budget and collects
    header operations.
  \<^item> Queue, QueueDrain (src/internal/queue): the critical sections under the mutex are functions on \<open>Pool\<close>; the
    goroutines are threads with program counters; \<open>pool_step\<close> interleaves them in every order, \<open>exec\<close> runs a
    given schedule. PoolSpec: the service that the pool promises to its callers, and the refinement.
  \<^item> AuditSink (src/internal/audit): events, the bounded buffer and the flush loop, as a transition system.
  \<^item> Body (src/internal/body): the loader with decryption and digest check, and the Redis wrapper.
  \<^item> Config (src/internal/config: config.go, file.go, logship.go): the environment and the queue file.
  \<^item> Files, ProfileStore (src/internal/config/profiles.go): a tree of files with a schedule of faults; the
    profile store reads a directory into a validated snapshot and replaces it on reloads.
  \<^item> Desired, Generations (src/internal/desired): manifests, their hash, the swap of generations with rollback,
    the watcher, the restoration at the start.
  \<^item> Handler (src/cmd/inspector: handler.go, frame.go): \<open>receive\<close>, \<open>evaluate\<close>, \<open>inspect\<close>, \<open>inspectFrame\<close>, \<open>send_reply\<close>
    and \<open>recoverInto\<close>; messages published, objects put and tasks submitted are explicit in \<open>world\<close>.
  \<^item> Inspector (src/cmd/inspector/main.go): the start out of the parts, the body store, the heartbeat, and the
    pool's calls of the handler. Process: the whole of \<open>run\<close> with the audit stream, the connection, the
    subscription, the watchers and the shutdown, as the sequence of what it does. Probe (src/cmd/probe): the
    health probe. Delivery: from the bytes of a request to the bytes of its reply. AuditTrail: from a verdict to
    the audit event that a reader decodes.

  \<^bold>\<open>How they interact.\<close> \<open>receive\<close> parses a message and submits a task; the pool calls \<open>evaluate\<close> with a budget or
  a shed reason; \<open>evaluate\<close> takes the current snapshot of the store, lets Decide select and apply groups to a
  body from Body, puts the new body, publishes the reply and adds an audit event. The store is reloaded by
  its ticker and by the watcher of the desired state.

  \<^bold>\<open>What is shown.\<close>

  \<^item> Messages: whatever the bytes, an accepted request is well typed; requests and replies survive the wire; the
    bytes published for a task decode to the reply decided on; acceptance exactly of well-formed requests; every request handed to the pool is answered exactly
    once; a received message has one effect; panics become error replies; a started inspector never panics.
  \<^item> Rewriting: a body operation equals a reference edit of the matches; budget and row bounds; header
    operations equal a reference fold; enforcing verdicts carry out exactly what the groups yield; passive
    modes change nothing; a body that cannot be used fails closed; an announced body has been stored with its
    digest; a loaded body has the digest it was promised with.
  \<^item> Queue: refinement of a service that answers each task once, in its budget or with a reason; conservation of tasks, order, depth, budgets and counters under every interleaving; after \<open>Close\<close>
    every turn makes progress and a bounded number of turns answers everything.
  \<^item> Audit: every verdict becomes one event with that verdict; batches are JSON that contains exactly their
    events; no event is lost silently, order per subject, a flush sends everything.
  \<^item> Profiles and configuration: validation accepts exactly the well-formed profiles; the store only ever serves
    validated profiles; failed reloads change nothing; a configuration that loads is usable.
  \<^item> Desired state: accepted manifests are exactly the safe ones; applying one is confined to the data directory,
    never loses the previous generation under any faults, and on success serves all of its files; the
    reported generation is the one that is served.
  \<^item> Process: a run makes its deferred calls in the opposite order of the openings whatever fails, and stops in the order
    that loses no message; which failures keep it from serving.

  \<^bold>\<open>Bounds and termination.\<close> All functions are total: recursion is structural or has a termination proof, and no
  fuel is used. Loops that wait (workers, sweeper, flush loop, watcher) are step relations, or one function per
  turn. Integers are unbounded with \<open>wrap64\<close> where a sum or product can leave 64 bits; counters of
  events are taken not to overflow.

  \<^bold>\<open>Parameters.\<close> Third-party code and the host are arguments: the YAML decoder, the Redis client, the bus (as the
  outcomes of the calls made of it), the environment, the parser of log levels, and the order in which maps are ranged over
  (\<open>range_order\<close>: complete, in any order). Three parts of the standard library are arguments too: the compiler of
  regular expressions (its result, a parsed expression, is matched by GoRegexp), the Unicode tables beyond ASCII, and
  AES-GCM opening. A floating-point number of the program is a number of microseconds divided by 1000 and is
  represented by the numerator.

  \<^bold>\<open>Not modelled.\<close> Logging and log shipping beyond its switches, the traffic statistics of the flow counter,
  reconnecting, the delivery of signals and timers (what they trigger is modelled), and the flag parser of the
  probe: they are calls of libraries without logic of their own. Contexts with timeouts appear as the results of the calls
  that they bound. When a JSON object repeats a member that is an array, Go reuses the elements left in the
  capacity of the old slice; the model reuses those within its length only.
\<close>

section \<open>The inspector end to end\<close>

text \<open>
  C1. End to end: once the pool has shut down, every request that was ever handed to it has exactly one
  message on its reply subject, and nothing else has been published. This holds for every interleaving
  of callbacks, workers, sweeper and shutdown, every change of profiles in between, and every outcome of
  the inspections, panics included.
\<close>

theorem every_request_is_answered_once:
  assumes "pool_init s0" and "pool_step\<^sup>*\<^sup>* s0 s"
    and "WDone \<in> set (sy_threads s)" and "set (sy_threads s) \<subseteq> {Ready, WDone, SwDone}"
    and "\<forall>t\<in>set (sy_submitted s). t_Reply t \<noteq> []"
    and "map (snd \<circ> snd) cs = sy_log s"
  shows "mset (map fst (wd_published (run_calls cs w))) =
    mset (map fst (wd_published w)) + mset (map t_Reply (sy_submitted s))"
proof -
  have log: "mset (map fst (sy_log s)) = mset (sy_submitted s)" using assms(1-4) by (rule pool_answers_all)
  have tasks: "map call_task cs = map fst (sy_log s)"
    unfolding assms(6) [symmetric] by (simp add: comp_def case_prod_unfold call_task_def)
  have "set (map call_task cs) = set (sy_submitted s)"
    using tasks log by (metis set_mset_mset)
  with assms(5) have "\<forall>c\<in>set cs. t_Reply (call_task c) \<noteq> []" by fastforce
  from run_calls_subjects [OF this, of w] have "mset (map fst (wd_published (run_calls cs w))) =
      mset (map fst (wd_published w)) + image_mset t_Reply (mset (map call_task cs))"
    by (simp add: multiset.map_comp comp_def)
  then show ?thesis unfolding tasks log by simp
qed

theorem every_request_is_answered_once_witness:
  "mset (map fst (wd_published (run_calls [(example_handler, 0, example_task\<lparr>t_enqueued := 10\<rparr>, 44999930, [])] example_world))) = {#''inbox''#}"
  using every_request_is_answered_once [OF example_run_facts, of "[(example_handler, 0, example_task\<lparr>t_enqueued := 10\<rparr>, 44999930, [])]" example_world]
  by (simp add: example_run_state example_task_def example_world_def)



text \<open>
  Without a body store the inspector does not deny but answers with an error: in an enforcing
  profile, when a group wants the body and the request says where it is, the verdict is error with the
  code for an unavailable store, nothing is written and nothing is changed.
\<close>

theorem no_store_gives_error:
  assumes "bodyLoader lib cfg = Inr (hd_loader h, hd_writer h)" and "cf_RedisURL cfg = []"
    and "selects h req p ask active" and "r_Phase req \<noteq> PhaseFrame" and "profile_ok U recomp p" and "p_Mode p = ''enforce''"
    and "contentType h req active = Inr ct" and "bodyWanted (hd_unicode h) active (status_of req) ct"
    and "s_Body (r_Store req) = Some loc" and "l_Unavailable loc = []" and "l_Driver loc \<noteq> []"
  shows "\<exists>det. inspect h elapsed req = Inr (ErrorReply req ''REWRITE_STORE_UNAVAILABLE'', det, [])"
proof -
  have "hd_loader h = NewLoader None" using assms(1,2) by (simp add: bodyLoader_def)
  then have "ld_store (hd_loader h) = None" by (simp add: NewLoader_def)
  then have "Load (hd_loader h) (s_Body (r_Store req)) = Inr (fault unavailableNoStore)"
    using assms(9-11) by (simp add: Load_def)
  moreover have "p_Mode p = ModeEnforce" using assms(6) by (simp add: mode_defs)
  ultimately show ?thesis
    using response_body_trouble(1) [OF assms(3,4,5) _ assms(7,8)] by (auto simp: Failed_def CodeStoreUnavailable_def)
qed

definition storeless_handler :: handler where
  "storeless_handler = example_handler\<lparr>hd_loader := NewLoader None, hd_writer := None\<rparr>"

theorem no_store_gives_error_witness:
  "\<exists>det. inspect storeless_handler 0 example_response = Inr (ErrorReply example_response ''REWRITE_STORE_UNAVAILABLE'', det, [])"
proof (rule no_store_gives_error)
  show "bodyLoader example_library example_config = Inr (hd_loader storeless_handler, hd_writer storeless_handler)"
    by (simp add: bodyLoader_def storeless_handler_def example_config_def)
  show "selects storeless_handler example_response example_profile no_ask [example_group]"
    using example_selects by (simp add: selects_def storeless_handler_def)
  show "contentType storeless_handler example_response [example_group] = Inr []" by (rule example_contentType)
  show "bodyWanted (hd_unicode storeless_handler) [example_group] (status_of example_response) []"
    using example_wanted by (simp add: storeless_handler_def example_handler_def status_of_def example_response_def)
  show "s_Body (r_Store example_response) = Some example_locator" by (simp add: example_response_def)
qed (use example_profile_ok example_enforces in \<open>simp_all add: example_config_def mode_defs example_locator_def\<close>)

end
